(* ===== verification/Prelude.thy ===== *)
theory Prelude
  imports Main "HOL-Library.Word"
begin

section \<open>Prelude: results, programs, machine integers and shared lemmas\<close>

text \<open>
  The vocabulary every component of the development shares.
  \<^item> Rust's fixed-width integers as words; the arithmetic of the sources, which the release
    profile compiles with overflow checks, so that an overflow is a panic.
  \<^item> \<open>result\<close>: the outcome of a fallible Rust function, a value, an error or a panic.
  \<^item> \<open>prog\<close>: a fallible operation on a state that keeps what was written before the error,
    as a sequence of database statements outside a transaction does.
  \<^item> decimal rendering and parsing of unsigned integers, as \<open>to_string\<close> and
    \<open>parse\<close> of the standard library do.
  The collection \<open>result_simps\<close> unfolds the combinators; \<open>step_simps\<close> collects the
  step equations of the state machines.
\<close>

named_theorems result_simps "equations of the result and program combinators"
named_theorems step_simps "defining equations of one iteration of the monitors' loops"

subsection \<open>Machine integers\<close>

type_synonym u8 = "8 word"
type_synonym u16 = "16 word"
type_synonym u32 = "32 word"
type_synonym u64 = "64 word"
type_synonym u128 = "128 word"
type_synonym bytes = "8 word list"
type_synonym hash = "256 word"

text \<open>A signed 64-bit column or argument is a 64-bit word read with \<open>sint\<close>.\<close>

type_synonym i64 = "64 word"

definition saturating_sub :: "'a::len word \<Rightarrow> 'a word \<Rightarrow> 'a word" where
  "saturating_sub a b = (if a \<le> b then 0 else a - b)"

lemma unat_saturating_sub: "unat (saturating_sub a b) = unat a - unat b"
proof (cases "a \<le> b")
  case True
  then show ?thesis by (simp add: saturating_sub_def word_le_nat_alt)
next
  case False
  then have "unat (a - b) = unat a - unat b"
    by (simp add: unat_sub)
  with False show ?thesis by (simp add: saturating_sub_def)
qed

lemma saturating_sub_le [simp]: "saturating_sub a b \<le> a"
  by (simp add: word_le_nat_alt unat_saturating_sub)

lemma saturating_sub_zero [simp]: "saturating_sub 0 b = 0"
  by (simp add: saturating_sub_def)

lemma saturating_sub_one_less: "saturating_sub n 1 \<noteq> n \<Longrightarrow> unat (saturating_sub n 1) < unat n"
  by (cases "n = 0") (auto simp: unat_saturating_sub unat_gt_0)

lemma unat_saturating_sub_one:
  "unat (saturating_sub n 1) = unat n - 1"
  by (simp add: unat_saturating_sub)

text \<open>A 32-bit number widened to 64 bits keeps its value, signed or not.\<close>

lemma unat_u32_bound: "unat (n :: u32) < 2 ^ 32"
  using unsigned_less [of n, where 'a = nat] by simp

lemma unat_ucast_u32 [simp]: "unat (ucast (n :: u32) :: 64 word) = unat n"
proof -
  have "take_bit 64 (unat n) = unat n"
    by (rule take_bit_nat_eq_self) (use unat_u32_bound [of n] in simp)
  then show ?thesis by (simp add: unsigned_ucast_eq)
qed

lemma ucast_up_down [simp]: "ucast (ucast (n :: u32) :: 64 word) = n"
  by (metis unat_ucast_u32 of_nat_unat ucast_id)

lemma ucast_u32_inject [simp]: "(ucast (a :: u32) :: 64 word) = ucast b \<longleftrightarrow> a = b"
  by (metis ucast_up_down)

lemma sint_ucast_u32 [simp]: "sint (ucast (n :: u32) :: 64 word) = uint n"
proof -
  have "uint n < 2 ^ 32" using unsigned_less [of n, where 'a = int] by simp
  then have "signed_take_bit 63 (uint n) = uint n"
    by (intro signed_take_bit_int_eq_self) (simp_all add: order_trans [of _ 0])
  then show ?thesis by (simp add: signed_ucast_eq)
qed

subsection \<open>Results\<close>

datatype ('a, 'e) result = Ok 'a | Err 'e | Panic string

primrec bind_result :: "('a, 'e) result \<Rightarrow> ('a \<Rightarrow> ('b, 'e) result) \<Rightarrow> ('b, 'e) result" where
  "bind_result (Ok x) f = f x"
| "bind_result (Err e) f = Err e"
| "bind_result (Panic m) f = Panic m"

primrec map_err :: "('e \<Rightarrow> 'f) \<Rightarrow> ('a, 'e) result \<Rightarrow> ('a, 'f) result" where
  "map_err f (Ok x) = Ok x"
| "map_err f (Err e) = Err (f e)"
| "map_err f (Panic m) = Panic m"

primrec map_ok :: "('a \<Rightarrow> 'b) \<Rightarrow> ('a, 'e) result \<Rightarrow> ('b, 'e) result" where
  "map_ok f (Ok x) = Ok (f x)"
| "map_ok f (Err e) = Err e"
| "map_ok f (Panic m) = Panic m"

primrec ok_or :: "'a option \<Rightarrow> 'e \<Rightarrow> ('a, 'e) result" where
  "ok_or None e = Err e"
| "ok_or (Some x) e = Ok x"

primrec expect :: "'a option \<Rightarrow> string \<Rightarrow> ('a, 'e) result" where
  "expect None m = Panic m"
| "expect (Some x) m = Ok x"

text \<open>The results of an ordered sequence of calls: all values, or the first failure.\<close>

primrec try_collect :: "('a, 'e) result list \<Rightarrow> ('a list, 'e) result" where
  "try_collect [] = Ok []"
| "try_collect (r # rs) = bind_result r (\<lambda>x. map_ok ((#) x) (try_collect rs))"

primrec ok :: "('a, 'e) result \<Rightarrow> 'a option" where
  "ok (Ok x) = Some x"
| "ok (Err e) = None"
| "ok (Panic m) = None"

lemmas result_split = result.split result.split_asm

lemma bind_result_Ok_iff [simp]:
  "bind_result r f = Ok y \<longleftrightarrow> (\<exists>x. r = Ok x \<and> f x = Ok y)"
  by (cases r) auto

lemma result_Err_iffs:
  "bind_result r f = Err e \<longleftrightarrow> r = Err e \<or> (\<exists>x. r = Ok x \<and> f x = Err e)"
  "map_err g q = Err e' \<longleftrightarrow> (\<exists>x. q = Err x \<and> e' = g x)"
  "map_ok h s = Err e'' \<longleftrightarrow> s = Err e''"
  by (cases r; cases q; cases s; auto)+

lemma bind_result_Ok_right [simp]: "bind_result r Ok = r"
  by (cases r) auto

lemma bind_result_assoc:
  "bind_result (bind_result r f) g = bind_result r (\<lambda>x. bind_result (f x) g)"
  by (cases r) auto

lemma map_ok_Ok_iff [simp]: "map_ok f r = Ok y \<longleftrightarrow> (\<exists>x. r = Ok x \<and> y = f x)"
  by (cases r) auto

lemma map_err_Ok_iff [simp]: "map_err f r = Ok y \<longleftrightarrow> r = Ok y"
  by (cases r) auto

lemma ok_or_Ok_iff [simp]: "ok_or x e = Ok y \<longleftrightarrow> x = Some y"
  by (cases x) auto

lemma expect_Ok_iff [simp]: "expect x m = Ok y \<longleftrightarrow> x = Some y"
  by (cases x) auto

lemma ok_or_not_Panic [simp]: "ok_or x e \<noteq> Panic m"
  by (cases x) auto

lemma ok_Some_iff [simp]: "ok r = Some x \<longleftrightarrow> r = Ok x"
  by (cases r) auto

lemma try_collect_Ok_iff:
  "try_collect rs = Ok xs \<longleftrightarrow> rs = map Ok xs"
  by (induction rs arbitrary: xs) auto

lemma try_collect_map_Ok [simp]: "try_collect (map Ok xs) = Ok xs"
  by (simp add: try_collect_Ok_iff)

lemma map_Ok_inject [simp]: "map Ok xs = map Ok ys \<longleftrightarrow> xs = ys"
  by (auto simp: inj_map_eq_map inj_def)

lemma try_collect_map_iff:
  "try_collect (map f xs) = Ok ys \<longleftrightarrow> list_all2 (\<lambda>x y. f x = Ok y) xs ys"
proof (induction xs arbitrary: ys)
  case Nil
  then show ?case by auto
next
  case (Cons x xs)
  then show ?case
    by (auto simp: list_all2_Cons1)
qed

lemma ok_or_Err_iff: "ok_or x e = Err e' \<longleftrightarrow> x = None \<and> e' = e"
  by (cases x) auto

lemma try_collect_Err: "try_collect rs = Err e \<Longrightarrow> Err e \<in> set rs"
proof (induction rs)
  case (Cons r rs)
  then show ?case by (cases "try_collect rs") (auto simp: result_Err_iffs)
qed simp

text \<open>The value of a register after a sequence of commands, of which each writes it or not.\<close>

primrec last_written :: "('c \<Rightarrow> 'v option) \<Rightarrow> 'c list \<Rightarrow> 'v option" where
  "last_written f [] = None"
| "last_written f (c # cs) = (case last_written f cs of None \<Rightarrow> f c | Some x \<Rightarrow> Some x)"

lemma last_written_append [simp]:
  "last_written f (cs @ ds) = (case last_written f ds of None \<Rightarrow> last_written f cs | Some x \<Rightarrow> Some x)"
  by (induction cs) (auto split: option.split)

lemma last_written_map [simp]: "last_written f (map g xs) = last_written (\<lambda>x. f (g x)) xs"
  by (induction xs) simp_all

text \<open>Overflow-checked addition: the release profile sets \<open>overflow-checks\<close>.\<close>

definition add_checked :: "'a::len word \<Rightarrow> 'a word \<Rightarrow> ('a word, 'e) result" where
  "add_checked a b = (if unat a + unat b < 2 ^ LENGTH('a) then Ok (a + b)
     else Panic ''attempt to add with overflow'')"

lemma add_checked_Ok_iff:
  "add_checked (a :: 'a::len word) b = Ok c \<longleftrightarrow> c = a + b \<and> unat c = unat a + unat b"
proof -
  have "unat (a + b) < 2 ^ LENGTH('a)" by (rule unsigned_less)
  then have "unat a + unat b < 2 ^ LENGTH('a)" if "unat (a + b) = unat a + unat b"
    using that by simp
  moreover have "unat (a + b) = unat a + unat b" if "unat a + unat b < 2 ^ LENGTH('a)"
    using that by (simp add: unat_word_ariths)
  ultimately show ?thesis by (auto simp: add_checked_def)
qed

definition mul_checked :: "'a::len word \<Rightarrow> 'a word \<Rightarrow> ('a word, 'e) result" where
  "mul_checked a b = (if unat a * unat b < 2 ^ LENGTH('a) then Ok (a * b)
     else Panic ''attempt to multiply with overflow'')"

lemma mul_checked_unat:
  "mul_checked (a :: 'a::len word) b = Ok c \<Longrightarrow> unat c = unat a * unat b"
  by (auto simp: mul_checked_def unat_word_ariths split: if_splits)

subsection \<open>Fallible operations on a state\<close>

text \<open>
  A program takes the state and returns its outcome together with the state it leaves. An
  error does not undo what was written before it.
\<close>

type_synonym ('s, 'a, 'e) prog = "'s \<Rightarrow> ('a, 'e) result \<times> 's"

definition ret :: "'a \<Rightarrow> ('s, 'a, 'e) prog" where
  "ret x = (\<lambda>s. (Ok x, s))"

definition lift_result :: "('a, 'e) result \<Rightarrow> ('s, 'a, 'e) prog" where
  "lift_result r = (\<lambda>s. (r, s))"

definition bind_prog :: "('s, 'a, 'e) prog \<Rightarrow> ('a \<Rightarrow> ('s, 'b, 'e) prog) \<Rightarrow> ('s, 'b, 'e) prog" where
  "bind_prog m f = (\<lambda>s. case m s of
     (Ok x, s') \<Rightarrow> f x s' | (Err e, s') \<Rightarrow> (Err e, s') | (Panic p, s') \<Rightarrow> (Panic p, s'))"

definition then_prog :: "('s, 'a, 'e) prog \<Rightarrow> ('s, 'b, 'e) prog \<Rightarrow> ('s, 'b, 'e) prog" where
  "then_prog m n = bind_prog m (\<lambda>_. n)"

text \<open>A \<open>for\<close> loop whose body may return early with an error.\<close>

primrec for_prog :: "'x list \<Rightarrow> ('x \<Rightarrow> ('s, unit, 'e) prog) \<Rightarrow> ('s, unit, 'e) prog" where
  "for_prog [] f = ret ()"
| "for_prog (x # xs) f = then_prog (f x) (for_prog xs f)"

lemma ret_apply [simp, result_simps]: "ret x s = (Ok x, s)"
  by (simp add: ret_def)

lemma lift_result_apply [simp, result_simps]: "lift_result r s = (r, s)"
  by (simp add: lift_result_def)

lemma bind_prog_Ok_iff:
  "bind_prog m f s = (Ok y, s'') \<longleftrightarrow> (\<exists>x s'. m s = (Ok x, s') \<and> f x s' = (Ok y, s''))"
  by (cases "m s"; cases "fst (m s)") (auto simp: bind_prog_def)

lemma bind_prog_ret [simp]: "bind_prog (ret x) f = f x"
  by (simp add: bind_prog_def fun_eq_iff)

lemma bind_prog_lift:
  "bind_prog (lift_result r) f s =
     (case r of Ok x \<Rightarrow> f x s | Err e \<Rightarrow> (Err e, s) | Panic p \<Rightarrow> (Panic p, s))"
  by (simp add: bind_prog_def)

lemma bind_prog_lift_Ok [simp]: "bind_prog (lift_result (Ok x)) f = f x"
  by (simp add: fun_eq_iff bind_prog_lift)

lemma bind_prog_Ok: "m s = (Ok x, s') \<Longrightarrow> bind_prog m f s = f x s'"
  by (simp add: bind_prog_def)

lemma then_prog_Ok: "m s = (Ok x, s') \<Longrightarrow> then_prog m n s = n s'"
  by (simp add: then_prog_def bind_prog_def)

lemma then_prog_assoc: "then_prog a (then_prog b c) = then_prog (then_prog a b) c"
  by (auto simp: fun_eq_iff then_prog_def bind_prog_def split: prod.splits result.splits)

lemma then_prog_ret [simp]: "then_prog (ret x) n = n"
  by (simp add: then_prog_def)

lemma for_prog_append:
  "for_prog (xs @ ys) f = then_prog (for_prog xs f) (for_prog ys f)"
proof (induction xs)
  case Nil
  show ?case unfolding append_Nil for_prog.simps then_prog_ret ..
next
  case (Cons x xs)
  then show ?case by (simp add: then_prog_assoc)
qed

text \<open>
  A relation between the states before and after that is reflexive and transitive is kept by
  sequencing, whatever the outcome. \<open>keeps R m\<close> says that \<open>m\<close> relates its states by \<open>R\<close>.
\<close>

definition keeps :: "('s \<Rightarrow> 's \<Rightarrow> bool) \<Rightarrow> ('s, 'a, 'e) prog \<Rightarrow> bool" where
  "keeps R m \<longleftrightarrow> (\<forall>s. R s (snd (m s)))"

lemma keepsD: "keeps R m \<Longrightarrow> R s (snd (m s))"
  by (simp add: keeps_def)

lemma keeps_ret [intro]: "reflp R \<Longrightarrow> keeps R (ret x)"
  by (auto simp: keeps_def reflpD)

lemma keeps_lift [intro]: "reflp R \<Longrightarrow> keeps R (lift_result r)"
  by (auto simp: keeps_def reflpD)

lemma keeps_bind [intro]:
  assumes tr: "transp R" and m: "keeps R m" and f: "\<And>x. keeps R (f x)"
  shows "keeps R (bind_prog m f)"
  unfolding keeps_def
proof
  fix s
  obtain r s' where ms: "m s = (r, s')" by (cases "m s")
  with m have "R s s'" by (metis keepsD snd_conv)
  then show "R s (snd (bind_prog m f s))"
    using ms tr f by (cases r) (auto simp: bind_prog_def keeps_def dest: transpD)
qed

lemma keeps_then [intro]: "transp R \<Longrightarrow> keeps R m \<Longrightarrow> keeps R n \<Longrightarrow> keeps R (then_prog m n)"
  unfolding then_prog_def by (rule keeps_bind)

lemma keeps_for:
  assumes "reflp R" "transp R" and "\<And>x. x \<in> set xs \<Longrightarrow> keeps R (f x)"
  shows "keeps R (for_prog xs f)"
  using assms by (induction xs) (auto intro: keeps_ret keeps_then)

text \<open>An invariant of the state, kept by every outcome.\<close>

definition preserves :: "('s \<Rightarrow> bool) \<Rightarrow> ('s, 'a, 'e) prog \<Rightarrow> bool" where
  "preserves I m \<longleftrightarrow> (\<forall>s. I s \<longrightarrow> I (snd (m s)))"

lemma preserves_keeps: "preserves I m \<longleftrightarrow> keeps (\<lambda>s t. I s \<longrightarrow> I t) m"
  by (simp add: preserves_def keeps_def)

lemma reflp_imp [simp]: "reflp (\<lambda>s t. I s \<longrightarrow> I t)"
  by (simp add: reflp_def)

lemma transp_imp [simp]: "transp (\<lambda>s t. I s \<longrightarrow> I t)"
  by (auto intro: transpI)

lemma preservesD: "preserves I m \<Longrightarrow> I s \<Longrightarrow> I (snd (m s))"
  by (simp add: preserves_def)

lemma preserves_ret [intro, simp]: "preserves I (ret x)"
  by (simp add: preserves_def)

lemma preserves_lift [intro, simp]: "preserves I (lift_result r)"
  by (simp add: preserves_def)

lemma preserves_bind [intro]:
  "preserves I m \<Longrightarrow> (\<And>x. preserves I (f x)) \<Longrightarrow> preserves I (bind_prog m f)"
  unfolding preserves_keeps by (rule keeps_bind) auto

lemma preserves_then [intro]:
  "preserves I m \<Longrightarrow> preserves I n \<Longrightarrow> preserves I (then_prog m n)"
  unfolding preserves_keeps by (rule keeps_then) auto

lemma preserves_for [intro]:
  "(\<And>x. x \<in> set xs \<Longrightarrow> preserves I (f x)) \<Longrightarrow> preserves I (for_prog xs f)"
  unfolding preserves_keeps by (rule keeps_for) auto

text \<open>An invariant of the state, kept by every run that succeeds.\<close>

definition ok_preserves :: "('s \<Rightarrow> bool) \<Rightarrow> ('s, 'a, 'e) prog \<Rightarrow> bool" where
  "ok_preserves I m \<longleftrightarrow> (\<forall>s x s'. m s = (Ok x, s') \<longrightarrow> I s \<longrightarrow> I s')"

lemma ok_preservesD: "ok_preserves I m \<Longrightarrow> m s = (Ok x, s') \<Longrightarrow> I s \<Longrightarrow> I s'"
  by (auto simp: ok_preserves_def)

lemma preserves_ok: "preserves I m \<Longrightarrow> ok_preserves I m"
  by (fastforce simp: preserves_def ok_preserves_def)

lemma ok_preserves_ret [intro, simp]: "ok_preserves I (ret x)"
  by (simp add: ok_preserves_def)

lemma ok_preserves_lift [intro, simp]: "ok_preserves I (lift_result r)"
  by (simp add: ok_preserves_def)

lemma ok_preserves_bind [intro]:
  "ok_preserves I m \<Longrightarrow> (\<And>x. ok_preserves I (f x)) \<Longrightarrow> ok_preserves I (bind_prog m f)"
  unfolding ok_preserves_def bind_prog_Ok_iff by blast

lemma ok_preserves_then [intro]:
  "ok_preserves I m \<Longrightarrow> ok_preserves I n \<Longrightarrow> ok_preserves I (then_prog m n)"
  unfolding then_prog_def by (rule ok_preserves_bind)

lemma ok_preserves_for [intro]:
  "(\<And>x. x \<in> set xs \<Longrightarrow> ok_preserves I (f x)) \<Longrightarrow> ok_preserves I (for_prog xs f)"
proof (induction xs)
  case Nil
  show ?case unfolding for_prog.simps by (rule ok_preserves_ret)
next
  case (Cons x xs)
  then show ?case unfolding for_prog.simps by (intro ok_preserves_then) auto
qed

subsection \<open>Decimal text\<close>

definition digit_char :: "nat \<Rightarrow> char" where
  "digit_char d = char_of (48 + d)"

fun show_nat :: "nat \<Rightarrow> string" where
  "show_nat n = (if n < 10 then [digit_char n]
     else show_nat (n div 10) @ [digit_char (n mod 10)])"

declare show_nat.simps [simp del]

definition digit_val :: "char \<Rightarrow> nat option" where
  "digit_val c = (let v = of_char c in if (48::nat) \<le> v \<and> v \<le> 57 then Some (v - 48) else None)"

text \<open>Reading digits left to right, as \<open>parse\<close> does, failing on any other character.\<close>

fun read_digits :: "nat \<Rightarrow> string \<Rightarrow> nat option" where
  "read_digits acc [] = Some acc"
| "read_digits acc (c # cs) =
     (case digit_val c of None \<Rightarrow> None | Some d \<Rightarrow> read_digits (10 * acc + d) cs)"

lemma digit_val_digit_char [simp]: "d < 10 \<Longrightarrow> digit_val (digit_char d) = Some d"
  by (simp add: digit_val_def digit_char_def)

lemma read_digits_append:
  "read_digits acc (xs @ ys) = Option.bind (read_digits acc xs) (\<lambda>a. read_digits a ys)"
  by (induction acc xs rule: read_digits.induct) (auto split: option.splits)

lemma read_digits_show_nat: "read_digits 0 (show_nat n) = Some n"
proof (induction n rule: show_nat.induct)
  case (1 n)
  show ?case
  proof (cases "n < 10")
    case True
    then show ?thesis by (simp add: show_nat.simps [of n])
  next
    case False
    then have "read_digits 0 (show_nat (n div 10)) = Some (n div 10)" by (rule "1.IH")
    with False show ?thesis
      by (simp add: show_nat.simps [of n] read_digits_append)
  qed
qed

lemma show_nat_nonempty [simp]: "show_nat n \<noteq> []"
  by (subst show_nat.simps) simp

lemma show_nat_inject [simp]: "show_nat m = show_nat n \<longleftrightarrow> m = n"
  by (metis option.inject read_digits_show_nat)

lemma digit_char_neq [simp]:
  assumes "d < 10" and "of_char c < (48::nat) \<or> 57 < (of_char c::nat)"
  shows "digit_char d \<noteq> c"
proof
  assume "digit_char d = c"
  then have "of_char (digit_char d) = (of_char c :: nat)" by simp
  with assms show False by (simp add: digit_char_def)
qed

lemma show_nat_chars:
  "c \<in> set (show_nat n) \<Longrightarrow> 48 \<le> (of_char c::nat) \<and> (of_char c::nat) \<le> 57"
proof (induction n rule: show_nat.induct)
  case (1 n)
  have dc: "48 \<le> (of_char (digit_char d)::nat) \<and> (of_char (digit_char d)::nat) \<le> 57" if "d < 10" for d
    using that by (simp add: digit_char_def)
  from 1 dc [of n] dc [of "n mod 10"] show ?case
    by (auto simp: show_nat.simps [of n] split: if_splits)
qed

definition show_int :: "int \<Rightarrow> string" where
  "show_int i = (if i < 0 then ''-'' @ show_nat (nat (- i)) else show_nat (nat i))"

text \<open>\<open>str::parse\<close> of an unsigned integer: digits only, at least one, within the width.\<close>

definition parse_uint :: "nat \<Rightarrow> string \<Rightarrow> nat option" where
  "parse_uint w s = (if s = [] then None else
     (case read_digits 0 s of None \<Rightarrow> None | Some n \<Rightarrow> if n < 2 ^ w then Some n else None))"

lemma parse_uint_show_nat: "n < 2 ^ w \<Longrightarrow> parse_uint w (show_nat n) = Some n"
  by (simp add: parse_uint_def read_digits_show_nat)

lemma append_cons_notin_eq:
  "c \<notin> set xs \<Longrightarrow> c \<notin> set ys \<Longrightarrow> xs @ c # u = ys @ c # v \<longleftrightarrow> xs = ys \<and> u = v"
proof (induction xs arbitrary: ys)
  case Nil
  then show ?case by (cases ys) auto
next
  case (Cons x xs)
  then show ?case by (cases ys) auto
qed

subsection \<open>Lists\<close>

text \<open>The inclusive range \<open>a..=b\<close> of an unsigned integer type.\<close>

lemma map_eq_pair: "map f xs = [a, b] \<Longrightarrow> \<exists>x y. xs = [x, y] \<and> f x = a \<and> f y = b"
  by (auto simp: map_eq_Cons_conv)

definition range_incl :: "'a::len word \<Rightarrow> 'a word \<Rightarrow> 'a word list" where
  "range_incl a b = map of_nat [unat a..<Suc (unat b)]"

lemma le_unat_bound: "n \<le> unat (b :: 'a::len word) \<Longrightarrow> n < 2 ^ LENGTH('a)"
  by (erule le_less_trans) (rule unsigned_less)

lemma unat_of_nat_small: "n < 2 ^ LENGTH('a) \<Longrightarrow> unat (of_nat n :: 'a::len word) = n"
  by (simp add: unsigned_of_nat take_bit_nat_eq_self)

lemma set_range_incl: "set (range_incl a b) = {a..b}"
proof
  show "set (range_incl a b) \<subseteq> {a..b}"
  proof
    fix x assume "x \<in> set (range_incl a b)"
    then obtain n where n: "x = of_nat n" "unat a \<le> n" "n \<le> unat b"
      by (auto simp: range_incl_def)
    moreover have "n < 2 ^ LENGTH('a)" using n(3) by (rule le_unat_bound)
    ultimately show "x \<in> {a..b}"
      by (simp add: word_le_nat_alt unat_of_nat_small)
  qed
  show "{a..b} \<subseteq> set (range_incl a b)"
  proof
    fix x assume "x \<in> {a..b}"
    then have "unat x \<in> {unat a..<Suc (unat b)}" by (simp add: word_le_nat_alt less_Suc_eq_le)
    then have "of_nat (unat x) \<in> set (range_incl a b)"
      unfolding range_incl_def set_map set_upt by (rule imageI)
    then show "x \<in> set (range_incl a b)" by simp
  qed
qed

lemma range_incl_Nil_iff [simp]: "range_incl a b = [] \<longleftrightarrow> b < a"
  by (simp add: range_incl_def word_less_nat_alt not_less)

lemma distinct_range_incl: "distinct (range_incl a b)"
proof -
  have "inj_on (of_nat :: nat \<Rightarrow> 'a word) {unat a..<Suc (unat b)}"
  proof (rule inj_onI)
    fix x y
    assume "x \<in> {unat a..<Suc (unat b)}" "y \<in> {unat a..<Suc (unat b)}"
      and eq: "(of_nat x :: 'a word) = of_nat y"
    then have "x < 2 ^ LENGTH('a)" "y < 2 ^ LENGTH('a)" by (auto intro!: le_unat_bound [of _ b])
    with eq show "x = y" by (metis unat_of_nat_small)
  qed
  then show ?thesis unfolding range_incl_def distinct_map set_upt by simp
qed

lemma filter_neq_append_new:
  "(\<And>y. y \<in> set new \<Longrightarrow> \<not> P y) \<Longrightarrow> filter P (filter P xs @ new) @ new = filter P xs @ new"
  by (auto simp: filter_empty_conv)

lemma last_butlast_snoc: "xs \<noteq> [] \<Longrightarrow> butlast xs @ [last xs] = xs"
  by (rule append_butlast_last_id)

end
