(* ===== verification/Scale_Codec.thy ===== *)
theory Scale_Codec
  imports Prelude
begin

section \<open>SCALE decoding\<close>

text \<open>
  The sources decode on-chain values with \<open>parity_scale_codec\<close>, a library they only call. Its
  primitive decoders are the fields of the record \<open>codec\<close>, a parameter of every decoder
  written in the sources. A decoder reads a value from the front of its input and returns the
  rest. The locale \<open>scale_codec\<close> states what the hand-written decoders rely on: each primitive
  decoder reads back what the matching encoder wrote and leaves the rest of the input, and a
  map is read as its entries in the order of their keys. The interpretation at the end shows
  that the SCALE format (little-endian integers, compact lengths) satisfies it.
\<close>

datatype scale_error = Scale_Error string | Scale_Chained string scale_error

type_synonym 'a decoder = "bytes \<Rightarrow> ('a \<times> bytes, scale_error) result"
type_synonym 'a encoder = "'a \<Rightarrow> bytes"

record codec =
  dec_u8 :: "u8 decoder"
  dec_u32 :: "u32 decoder"
  dec_u64 :: "u64 decoder"
  dec_u128 :: "u128 decoder"
  dec_bytes32 :: "bytes decoder"
  dec_compact_u32 :: "u32 decoder"
  dec_btree_u64_u128 :: "(u64 \<times> u128) list decoder"

record encoding =
  enc_u8 :: "u8 encoder"
  enc_u32 :: "u32 encoder"
  enc_u64 :: "u64 encoder"
  enc_u128 :: "u128 encoder"
  enc_bytes32 :: "bytes encoder"
  enc_compact_u32 :: "u32 encoder"
  enc_btree_u64_u128 :: "(u64 \<times> u128) list encoder"

subsection \<open>Sequencing decoders\<close>

definition dec_return :: "'a \<Rightarrow> 'a decoder" where
  "dec_return x input = Ok (x, input)"

definition dec_fail :: "scale_error \<Rightarrow> 'a decoder" where
  "dec_fail e input = Err e"

definition dec_bind :: "'a decoder \<Rightarrow> ('a \<Rightarrow> 'b decoder) \<Rightarrow> 'b decoder" where
  "dec_bind d f input = bind_result (d input) (\<lambda>(x, rest). f x rest)"

definition dec_then :: "'a decoder \<Rightarrow> 'b decoder \<Rightarrow> 'b decoder" where
  "dec_then d e = dec_bind d (\<lambda>_. e)"

text \<open>\<open>reads d bs x\<close>: the decoder consumes exactly \<open>bs\<close> and returns \<open>x\<close>, whatever follows.\<close>

definition reads :: "'a decoder \<Rightarrow> bytes \<Rightarrow> 'a \<Rightarrow> bool" where
  "reads d bs x \<longleftrightarrow> (\<forall>rest. d (bs @ rest) = Ok (x, rest))"

lemma reads_return: "reads (dec_return x) [] x"
  by (simp add: reads_def dec_return_def)

lemma reads_bind: "reads d bs x \<Longrightarrow> reads (f x) cs y \<Longrightarrow> reads (dec_bind d f) (bs @ cs) y"
  by (simp add: reads_def dec_bind_def)

lemma reads_then: "reads d bs x \<Longrightarrow> reads e cs y \<Longrightarrow> reads (dec_then d e) (bs @ cs) y"
  unfolding dec_then_def by (rule reads_bind)

lemma reads_bind_return: "reads d bs x \<Longrightarrow> reads (dec_bind d (\<lambda>x. dec_return (f x))) bs (f x)"
  by (simp add: reads_def dec_bind_def dec_return_def)

lemma readsD: "reads d bs x \<Longrightarrow> d (bs @ rest) = Ok (x, rest)"
  by (simp add: reads_def)

subsection \<open>The interface\<close>

locale scale_codec =
  fixes C :: codec and E :: encoding
  assumes u8: "reads (dec_u8 C) (enc_u8 E a) a"
    and u32: "reads (dec_u32 C) (enc_u32 E b) b"
    and u64: "reads (dec_u64 C) (enc_u64 E c) c"
    and u128: "reads (dec_u128 C) (enc_u128 E d) d"
    and bytes32: "length bs = 32 \<Longrightarrow> reads (dec_bytes32 C) (enc_bytes32 E bs) bs"
    and compact_u32: "reads (dec_compact_u32 C) (enc_compact_u32 E n) n"
    and btree: "sorted_wrt (<) (map fst kvs) \<Longrightarrow> length kvs < 2 ^ 32 \<Longrightarrow>
      reads (dec_btree_u64_u128 C) (enc_btree_u64_u128 E kvs) kvs"

subsection \<open>The SCALE format\<close>

primrec to_le :: "nat \<Rightarrow> nat \<Rightarrow> bytes" where
  "to_le 0 n = []"
| "to_le (Suc k) n = of_nat (n mod 256) # to_le k (n div 256)"

primrec of_le :: "bytes \<Rightarrow> nat" where
  "of_le [] = 0"
| "of_le (b # bs) = unat b + 256 * of_le bs"

lemma length_to_le [simp]: "length (to_le k n) = k"
  by (induction k arbitrary: n) auto

lemma of_le_to_le: "of_le (to_le k n) = n mod 256 ^ k"
proof (induction k arbitrary: n)
  case 0
  then show ?case by simp
next
  case (Suc k)
  have "unat (of_nat (n mod 256) :: u8) = n mod 256"
    by (rule unat_of_nat_small) (simp add: less_le_trans [OF mod_less_divisor])
  then have "of_le (to_le (Suc k) n) = n mod 256 + 256 * ((n div 256) mod 256 ^ k)"
    by (simp add: Suc)
  also have "\<dots> = n mod (256 * 256 ^ k)" by (simp add: mod_mult2_eq)
  finally show ?case by simp
qed

definition dec_le :: "nat \<Rightarrow> nat decoder" where
  "dec_le k input = (if length input < k then Err (Scale_Error ''Not enough data to fill buffer'')
     else Ok (of_le (take k input), drop k input))"

lemma reads_le: "n < 256 ^ k \<Longrightarrow> reads (dec_le k) (to_le k n) n"
  by (simp add: reads_def dec_le_def of_le_to_le)

definition dec_word :: "nat \<Rightarrow> 'a::len word decoder" where
  "dec_word k = dec_bind (dec_le k) (\<lambda>n. dec_return (of_nat n))"

definition enc_word :: "nat \<Rightarrow> 'a::len word encoder" where
  "enc_word k w = to_le k (unat w)"

lemma reads_word:
  assumes "2 ^ LENGTH('a) \<le> (256 :: nat) ^ k"
  shows "reads (dec_word k) (enc_word k w) (w :: 'a::len word)"
proof -
  have "unat w < 256 ^ k"
    by (rule less_le_trans [OF _ assms]) (rule unsigned_less)
  from reads_bind_return [OF reads_le [OF this], of "of_nat :: nat \<Rightarrow> 'a word"]
  show ?thesis by (simp add: dec_word_def enc_word_def)
qed

definition scale_bytes32 :: "bytes decoder" where
  "scale_bytes32 input = (if length input < 32 then Err (Scale_Error ''Not enough data to fill buffer'')
     else Ok (take 32 input, drop 32 input))"

definition enc_compact :: "u32 encoder" where
  "enc_compact w = (let n = unat w in
     if n < 64 then to_le 1 (4 * n) else if n < 2 ^ 14 then to_le 2 (4 * n + 1)
     else if n < 2 ^ 30 then to_le 4 (4 * n + 2) else to_le 1 3 @ to_le 4 n)"

definition dec_compact :: "u32 decoder" where
  "dec_compact input = (case input of [] \<Rightarrow> Err (Scale_Error ''Not enough data to fill buffer'')
     | b # rest \<Rightarrow>
        (let m = unat b mod 4; d = (\<lambda>k. dec_bind (dec_le k) (\<lambda>n. dec_return (of_nat (n div 4)))) in
         if m = 0 then d 1 input else if m = 1 then d 2 input else if m = 2 then d 4 input
         else if unat b = 3 then dec_bind (dec_le 4) (\<lambda>n. dec_return (of_nat n)) rest
         else Err (Scale_Error ''unexpected prefix decoding Compact<u32>'')))"

lemma to_le_head: "to_le (Suc k) n = of_nat (n mod 256) # to_le k (n div 256)"
  by simp

lemma unat_byte: "unat (of_nat (n mod 256) :: u8) = n mod 256"
  by (rule unat_of_nat_small) (simp add: less_le_trans [OF mod_less_divisor])

lemma mod_256_mod_4: "(n mod 256) mod 4 = n mod (4 :: nat)"
  by (simp add: mod_mod_cancel)

lemma reads_compact_mode:
  assumes "4 * unat w + r < 256 ^ K" and "r < 3" and K: "K = (if r = 0 then 1 else if r = 1 then 2 else 4)"
  shows "reads dec_compact (to_le K (4 * unat w + r)) w"
  unfolding reads_def
proof
  fix rest
  obtain k where k: "K = Suc k" using K by (cases K) (auto split: if_splits)
  let ?n = "4 * unat w + r"
  have head: "to_le (Suc k) ?n @ rest = of_nat (?n mod 256) # (to_le k (?n div 256) @ rest)" by simp
  have m: "unat (of_nat (?n mod 256) :: u8) mod 4 = r"
    unfolding unat_byte mod_256_mod_4 using assms(2) by simp
  have "dec_le (Suc k) (to_le (Suc k) ?n @ rest) = Ok (?n, rest)"
    using assms(1) unfolding k by (intro readsD reads_le)
  moreover have "?n div 4 = unat w" using assms(2) by simp
  ultimately have "dec_bind (dec_le (Suc k)) (\<lambda>n. dec_return (of_nat (n div 4)))
      (of_nat (?n mod 256) # (to_le k (?n div 256) @ rest)) = Ok (w, rest)"
    by (simp add: dec_bind_def dec_return_def)
  then show "dec_compact (to_le K ?n @ rest) = Ok (w, rest)"
    unfolding k head dec_compact_def list.case Let_def m
    using assms(2) K [unfolded k] by (auto split: if_splits)
qed

lemma reads_compact: "reads dec_compact (enc_compact w) w"
proof -
  have w: "unat w < 2 ^ 32" using unsigned_less [of w] by simp
  consider "unat w < 64" | "64 \<le> unat w" "unat w < 2 ^ 14"
    | "2 ^ 14 \<le> unat w" "unat w < 2 ^ 30" | "2 ^ 30 \<le> unat w" by linarith
  then show ?thesis
  proof cases
    case 1
    then show ?thesis
      using reads_compact_mode [of w 0 1] by (simp add: enc_compact_def)
  next
    case 2
    then show ?thesis
      using reads_compact_mode [of w 1 2] by (simp add: enc_compact_def)
  next
    case 3
    then show ?thesis
      using reads_compact_mode [of w 2 4] by (simp add: enc_compact_def)
  next
    case 4
    have "dec_le 4 (to_le 4 (unat w) @ rest) = Ok (unat w, rest)" for rest
      using w by (intro readsD reads_le) simp
    with 4 show ?thesis
      by (simp add: reads_def enc_compact_def dec_compact_def dec_bind_def dec_return_def)
  qed
qed

primrec dec_entries :: "nat \<Rightarrow> (u64 \<times> u128) list decoder" where
  "dec_entries 0 = dec_return []"
| "dec_entries (Suc n) = dec_bind (dec_word 8) (\<lambda>k. dec_bind (dec_word 16) (\<lambda>v.
     dec_bind (dec_entries n) (\<lambda>kvs. dec_return ((k, v) # kvs))))"

definition dec_btree :: "(u64 \<times> u128) list decoder" where
  "dec_btree = dec_bind dec_compact (\<lambda>n. dec_bind (dec_entries (unat n)) (\<lambda>kvs.
     dec_return (map (\<lambda>k. (k, the (map_of (rev kvs) k))) (sorted_list_of_set (fst ` set kvs)))))"

definition enc_btree :: "(u64 \<times> u128) list encoder" where
  "enc_btree kvs = enc_compact (of_nat (length kvs)) @
     concat (map (\<lambda>(k, v). enc_word 8 k @ enc_word 16 v) kvs)"

lemma reads_entries:
  "reads (dec_entries (length kvs)) (concat (map (\<lambda>(k, v). enc_word 8 k @ enc_word 16 v) kvs)) kvs"
proof (induction kvs)
  case Nil
  then show ?case by (simp add: reads_return)
next
  case (Cons kv kvs)
  obtain k v where kv: "kv = (k, v)" by (cases kv)
  have k: "reads (dec_word 8) (enc_word 8 k) k" and v: "reads (dec_word 16) (enc_word 16 v) v"
    by (simp_all add: reads_word)
  have "reads (dec_bind (dec_word 8) (\<lambda>k. dec_bind (dec_word 16) (\<lambda>v.
      dec_bind (dec_entries (length kvs)) (\<lambda>kvs. dec_return ((k, v) # kvs)))))
     (enc_word 8 k @ enc_word 16 v @ concat (map (\<lambda>(k, v). enc_word 8 k @ enc_word 16 v) kvs)) ((k, v) # kvs)"
    by (rule reads_bind [OF k], rule reads_bind [OF v], rule reads_bind_return [OF Cons])
  then show ?case by (simp add: kv)
qed

lemma map_sorted_entries:
  assumes "sorted_wrt (<) (map fst kvs)"
  shows "map (\<lambda>k. (k, the (map_of (rev kvs) k))) (sorted_list_of_set (fst ` set kvs)) = kvs"
proof -
  have d: "distinct (map fst kvs)" and s: "sorted (map fst kvs)"
    using assms by (simp_all add: strict_sorted_iff)
  have "sorted_list_of_set (fst ` set kvs) = map fst kvs"
    using sorted_list_of_set.idem_if_sorted_distinct [OF s d] by simp
  moreover have "the (map_of (rev kvs) (fst kv)) = snd kv" if "kv \<in> set kvs" for kv
  proof -
    have "map_of (rev kvs) (fst kv) = Some (snd kv)"
      using that d by (intro map_of_is_SomeI) (simp_all add: rev_map [symmetric])
    then show ?thesis by simp
  qed
  ultimately show ?thesis by (simp add: map_idI)
qed

lemma reads_btree:
  assumes "sorted_wrt (<) (map fst kvs)" and "length kvs < 2 ^ 32"
  shows "reads dec_btree (enc_btree kvs) kvs"
proof -
  have n: "unat (of_nat (length kvs) :: u32) = length kvs"
    using assms(2) by (intro unat_of_nat_small) simp
  have "reads (dec_bind (dec_entries (unat (of_nat (length kvs) :: u32))) (\<lambda>kvs.
      dec_return (map (\<lambda>k. (k, the (map_of (rev kvs) k))) (sorted_list_of_set (fst ` set kvs)))))
     (concat (map (\<lambda>(k, v). enc_word 8 k @ enc_word 16 v) kvs))
     (map (\<lambda>k. (k, the (map_of (rev kvs) k))) (sorted_list_of_set (fst ` set kvs)))"
    unfolding n by (rule reads_bind_return) (rule reads_entries)
  then show ?thesis
    unfolding dec_btree_def enc_btree_def map_sorted_entries [OF assms(1)]
    by (rule reads_bind [OF reads_compact])
qed

definition scale :: codec where
  "scale = \<lparr>dec_u8 = dec_word 1, dec_u32 = dec_word 4, dec_u64 = dec_word 8, dec_u128 = dec_word 16,
     dec_bytes32 = scale_bytes32, dec_compact_u32 = dec_compact, dec_btree_u64_u128 = dec_btree\<rparr>"

definition scale_enc :: encoding where
  "scale_enc = \<lparr>enc_u8 = enc_word 1, enc_u32 = enc_word 4, enc_u64 = enc_word 8,
     enc_u128 = enc_word 16, enc_bytes32 = id, enc_compact_u32 = enc_compact,
     enc_btree_u64_u128 = enc_btree\<rparr>"

interpretation scale_format: scale_codec scale scale_enc
  by unfold_locales
    (simp_all add: scale_def scale_enc_def reads_word reads_compact reads_btree,
     simp add: reads_def scale_bytes32_def)

end
