(* ===== verification/Shared_Types.thy ===== *)
theory Shared_Types
  imports Scale_Codec
begin

section \<open>Types of the shared chain client\<close>

text \<open>
  The error type of \<open>shared/src/error.rs\<close> and the block data types of
  \<open>shared/src/subspace.rs\<close>. The payloads of errors of third-party crates are opaque
  strings. A block carries no handle to its client: the operations that use the handle take
  the node's answers as an argument.
\<close>

datatype shared_error =
    Subxt string
  | SubscriptionClosed
  | Rpc string
  | ConnectTimeout
  | MissingBlockHashFromCache hash
  | MissingBlockBody hash
  | MissingBlockHeaderForNumber u32
  | MissingBlockHeaderForHash hash
  | Storage string
  | Scale scale_error
  | Config string

text \<open>What receiving from a broadcast channel can fail with.\<close>

datatype recv_error = Closed | Lagged u64

text \<open>A block header: \<open>SubstrateHeader\<close> on the wire, \<open>generic::Header\<close> in the cache.\<close>

record header =
  hd_parent_hash :: hash
  hd_number :: u32
  hd_state_root :: hash
  hd_extrinsics_root :: hash
  hd_digest :: bytes

record hash_and_number =
  hn_number :: u32
  hn_hash :: hash

record block_ext =
  be_number :: u32
  be_hash :: hash
  be_parent_hash :: hash
  be_state_root :: hash
  be_extrinsics_root :: hash

record reorg_data =
  rd_enacted :: "hash_and_number list"
  rd_retracted :: "hash_and_number list"
  rd_common_block :: hash_and_number

record blocks_ext =
  bx_blocks :: "block_ext list"
  bx_maybe_reorg_data :: "reorg_data option"

text \<open>
  The header codec of the third-party crates: the block hash of a header, and the
  re-decoding of an encoded digest into the runtime's digest type.
\<close>

record header_lib =
  hl_hash :: "header \<Rightarrow> hash"
  hl_digest :: "bytes \<Rightarrow> bytes option"

definition stored_header :: "header \<Rightarrow> bytes \<Rightarrow> header" where
  "stored_header h d = \<lparr>hd_parent_hash = hd_parent_hash h, hd_number = hd_number h,
     hd_state_root = hd_state_root h, hd_extrinsics_root = hd_extrinsics_root h, hd_digest = d\<rparr>"

lemma stored_header_sel [simp]:
  "hd_parent_hash (stored_header h d) = hd_parent_hash h"
  "hd_number (stored_header h d) = hd_number h"
  "hd_state_root (stored_header h d) = hd_state_root h"
  "hd_extrinsics_root (stored_header h d) = hd_extrinsics_root h"
  by (simp_all add: stored_header_def)

lemma stored_header_same [simp]: "stored_header h (hd_digest h) = h"
  by (simp add: stored_header_def)

end
