(* ===== verification/Headers_Cache.thy ===== *)
theory Headers_Cache
  imports Shared_Types
begin

section \<open>The header metadata cache\<close>

text \<open>
  \<open>HeadersMetadataCache\<close> of \<open>shared/src/subspace.rs\<close>: the headers by hash and, for
  pruning, the hashes by block number. The invariant \<open>cache_ok\<close> says that the two maps
  describe the same headers; both operations that write the cache keep it. Pruning is
  characterised exactly: \<open>remove_header_until n\<close> removes the unbroken run of numbers that
  ends at \<open>n\<close> and nothing else.
\<close>

record headers_metadata_cache =
  block_header_data :: "hash \<rightharpoonup> header"
  block_number_hashes :: "u32 \<rightharpoonup> hash set"

definition default_cache :: headers_metadata_cache where
  "default_cache = \<lparr>block_header_data = Map.empty, block_number_hashes = Map.empty\<rparr>"

subsection \<open>Operations\<close>

definition or_default :: "hash set option \<Rightarrow> hash set" where
  "or_default x = (case x of None \<Rightarrow> {} | Some s \<Rightarrow> s)"

definition cache_insert :: "hash \<Rightarrow> header \<Rightarrow> headers_metadata_cache \<Rightarrow> headers_metadata_cache" where
  "cache_insert k h c = c\<lparr>block_header_data := (block_header_data c)(k \<mapsto> h),
     block_number_hashes := (block_number_hashes c)
       (hd_number h \<mapsto> insert k (or_default (block_number_hashes c (hd_number h))))\<rparr>"

definition add_header ::
  "header_lib \<Rightarrow> header \<Rightarrow> (headers_metadata_cache, hash, shared_error) prog" where
  "add_header L h c = (case hl_digest L (hd_digest h) of
     None \<Rightarrow> (Panic ''Digest is always valid'', c)
   | Some d \<Rightarrow>
       (let h' = stored_header h d; k = hl_hash L h'
        in (Ok k, cache_insert k h' c)))"

definition drop_number :: "u32 \<Rightarrow> hash set \<Rightarrow> headers_metadata_cache \<Rightarrow> headers_metadata_cache" where
  "drop_number n hs c = c\<lparr>block_header_data := (\<lambda>h. if h \<in> hs then None else block_header_data c h),
     block_number_hashes := (block_number_hashes c)(n := None)\<rparr>"

text \<open>
  The pruning loop. It steps down with a saturating subtraction, so at number 0 it asks for
  number 0 a second time and stops because the entry is gone.
\<close>

function remove_header_until :: "u32 \<Rightarrow> headers_metadata_cache \<Rightarrow> headers_metadata_cache" where
  "remove_header_until n c = (case block_number_hashes c n of
     None \<Rightarrow> c
   | Some hs \<Rightarrow> remove_header_until (saturating_sub n 1) (drop_number n hs c))"
  by pat_completeness auto
termination
  by (relation "measure (\<lambda>(n, c). 2 * unat n + (if block_number_hashes c n = None then 0 else 1))")
    (auto simp: drop_number_def dest: saturating_sub_one_less)

declare remove_header_until.simps [simp del]

definition get_header :: "headers_metadata_cache \<Rightarrow> hash \<Rightarrow> (header, shared_error) result" where
  "get_header c k = ok_or (block_header_data c k) (MissingBlockHashFromCache k)"

text \<open>The \<open>HeaderMetadata\<close> view the tree-route computation reads: number and parent.\<close>

record cached_header_metadata =
  chm_hash :: hash
  chm_number :: u32
  chm_parent :: hash

definition header_metadata ::
  "headers_metadata_cache \<Rightarrow> hash \<Rightarrow> (cached_header_metadata, shared_error) result" where
  "header_metadata c k =
     ok_or (map_option (\<lambda>h. \<lparr>chm_hash = k, chm_number = hd_number h, chm_parent = hd_parent_hash h\<rparr>)
       (block_header_data c k)) (MissingBlockHashFromCache k)"

subsection \<open>The invariant\<close>

text \<open>
  \<open>U\<close> is the set of headers the node ever serves, on which the block hash is assumed
  injective where a lemma needs it (collision resistance of the block hash).
\<close>

definition cache_ok :: "header_lib \<Rightarrow> header set \<Rightarrow> headers_metadata_cache \<Rightarrow> bool" where
  "cache_ok L U c \<longleftrightarrow>
     (\<forall>k h. block_header_data c k = Some h \<longrightarrow> h \<in> U \<and> hl_hash L h = k \<and>
        (\<exists>hs. block_number_hashes c (hd_number h) = Some hs \<and> k \<in> hs)) \<and>
     (\<forall>n hs k. block_number_hashes c n = Some hs \<and> k \<in> hs \<longrightarrow>
        (\<exists>h. block_header_data c k = Some h \<and> hd_number h = n))"

lemma cache_okD:
  assumes "cache_ok L U c"
  shows "block_header_data c k = Some h \<Longrightarrow> h \<in> U"
    and "block_header_data c k = Some h \<Longrightarrow> hl_hash L h = k"
    and "block_header_data c k = Some h \<Longrightarrow>
           \<exists>hs. block_number_hashes c (hd_number h) = Some hs \<and> k \<in> hs"
    and "block_number_hashes c n = Some hs \<Longrightarrow> k \<in> hs \<Longrightarrow>
           \<exists>h. block_header_data c k = Some h \<and> hd_number h = n"
  using assms unfolding cache_ok_def by blast+

lemma default_cache_ok: "cache_ok L U default_cache"
  by (simp add: cache_ok_def default_cache_def)

lemma cache_insert_ok:
  assumes inj: "inj_on (hl_hash L) U" and c: "cache_ok L U c" and h: "h \<in> U" and k: "k = hl_hash L h"
  shows "cache_ok L U (cache_insert k h c)"
proof -
  have old: "h' = h" if "block_header_data c k = Some h'" for h'
    using cache_okD(1,2) [OF c that] h k inj by (auto dest: inj_onD)
  have idx: "\<exists>hs'. block_number_hashes (cache_insert k h c) n = Some hs' \<and> x \<in> hs'"
    if "block_number_hashes c n = Some hs" "x \<in> hs" for n hs x
    using that by (auto simp: cache_insert_def or_default_def)
  have member: "\<exists>g. block_header_data (cache_insert k h c) x = Some g \<and> hd_number g = n"
    if "block_number_hashes c n = Some hs" "x \<in> hs" for n hs x
    using cache_okD(4) [OF c that] old by (auto simp: cache_insert_def)
  show ?thesis
    unfolding cache_ok_def
  proof (intro conjI allI impI; (elim conjE)?)
    fix x g
    assume g: "block_header_data (cache_insert k h c) x = Some g"
    show "g \<in> U" and "hl_hash L g = x"
      using g h k cache_okD(1,2) [OF c] by (auto simp: cache_insert_def split: if_splits)
    show "\<exists>hs. block_number_hashes (cache_insert k h c) (hd_number g) = Some hs \<and> x \<in> hs"
    proof (cases "x = k")
      case True
      with g show ?thesis by (auto simp: cache_insert_def)
    next
      case False
      with g have "block_header_data c x = Some g" by (simp add: cache_insert_def)
      then show ?thesis using cache_okD(3) [OF c] idx by blast
    qed
  next
    fix n hs x
    assume hs: "block_number_hashes (cache_insert k h c) n = Some hs" and x: "x \<in> hs"
    show "\<exists>g. block_header_data (cache_insert k h c) x = Some g \<and> hd_number g = n"
    proof (cases "x = k \<and> n = hd_number h")
      case True
      then show ?thesis by (simp add: cache_insert_def)
    next
      case False
      with hs x obtain hs' where "block_number_hashes c n = Some hs'" "x \<in> hs'"
        by (auto simp: cache_insert_def or_default_def split: if_splits option.splits)
      then show ?thesis by (rule member)
    qed
  qed
qed

lemma add_header_ok:
  assumes "inj_on (hl_hash L) U" "cache_ok L U c"
    and "\<And>d. hl_digest L (hd_digest h) = Some d \<Longrightarrow> stored_header h d \<in> U"
  shows "cache_ok L U (snd (add_header L h c))"
  using assms by (auto simp: add_header_def Let_def cache_insert_ok split: option.split)

lemma cache_ok_number:
  assumes c: "cache_ok L U c" and n: "block_number_hashes c n = Some hs"
    and k: "block_header_data c k = Some h"
  shows "hd_number h = n \<longleftrightarrow> k \<in> hs"
proof
  assume "hd_number h = n"
  then show "k \<in> hs" using cache_okD(3) [OF c k] n by auto
next
  assume "k \<in> hs"
  then show "hd_number h = n" using cache_okD(4) [OF c n] k by fastforce
qed

lemma drop_number_ok:
  assumes c: "cache_ok L U c" and n: "block_number_hashes c n = Some hs"
  shows "cache_ok L U (drop_number n hs c)"
proof -
  note num = cache_ok_number [OF c n]
  show ?thesis
    using num cache_okD [OF c] unfolding cache_ok_def drop_number_def
    by (fastforce split: if_splits)
qed

lemma remove_header_until_ok:
  "cache_ok L U c \<Longrightarrow> cache_ok L U (remove_header_until n c)"
proof (induction n c rule: remove_header_until.induct)
  case (1 n c)
  then show ?case
    by (subst remove_header_until.simps) (auto split: option.split intro: drop_number_ok)
qed

subsection \<open>What pruning removes\<close>

text \<open>The numbers of the unbroken run of cached numbers that ends at \<open>n\<close>.\<close>

definition in_run :: "headers_metadata_cache \<Rightarrow> u32 \<Rightarrow> u32 \<Rightarrow> bool" where
  "in_run c n m \<longleftrightarrow> m \<le> n \<and> (\<forall>k. m \<le> k \<and> k \<le> n \<longrightarrow> block_number_hashes c k \<noteq> None)"

lemma in_run_absent: "block_number_hashes c n = None \<Longrightarrow> \<not> in_run c n m"
  by (auto simp: in_run_def)

lemma in_run_step:
  assumes n: "block_number_hashes c n = Some hs"
  shows "in_run c n m \<longleftrightarrow>
    m = n \<or> n \<noteq> 0 \<and> in_run (drop_number n hs c) (saturating_sub n 1) m"
proof (cases "n = 0")
  case True
  with n show ?thesis by (auto simp: in_run_def)
next
  case False
  then have s: "unat (saturating_sub n 1) = unat n - 1" "0 < unat n"
    by (auto simp: unat_saturating_sub_one unat_gt_0)
  have le: "k \<le> saturating_sub n 1 \<longleftrightarrow> k \<le> n \<and> k \<noteq> n" for k
    using s by (auto simp: word_le_nat_alt word_unat_eq_iff)
  show ?thesis
    using False n by (auto simp: in_run_def le drop_number_def)
qed

lemma block_number_hashes_remove:
  "block_number_hashes (remove_header_until n c) m =
     (if in_run c n m then None else block_number_hashes c m)"
proof (induction n c rule: remove_header_until.induct)
  case (1 n c)
  show ?case
  proof (cases "block_number_hashes c n")
    case None
    then show ?thesis by (simp add: remove_header_until.simps [of n c] in_run_absent)
  next
    case (Some hs)
    let ?c = "drop_number n hs c"
    have "block_number_hashes (remove_header_until n c) m =
        (if in_run ?c (saturating_sub n 1) m then None else block_number_hashes ?c m)"
      using 1 [OF Some] Some by (simp add: remove_header_until.simps [of n c])
    moreover have "n = 0 \<Longrightarrow> \<not> in_run ?c (saturating_sub n 1) m"
      by (simp add: in_run_def drop_number_def saturating_sub_def)
    ultimately show ?thesis
      using in_run_step [OF Some, of m] by (auto simp: drop_number_def)
  qed
qed

text \<open>The headers that go are those of the removed numbers; all others stay as they were.\<close>

lemma block_header_data_remove:
  assumes "cache_ok L U c"
  shows "block_header_data (remove_header_until n c) k =
     (case block_header_data c k of None \<Rightarrow> None
      | Some h \<Rightarrow> if in_run c n (hd_number h) then None else Some h)"
  using assms
proof (induction n c rule: remove_header_until.induct)
  case (1 n c)
  show ?case
  proof (cases "block_number_hashes c n")
    case None
    then show ?thesis
      by (auto simp: remove_header_until.simps [of n c] in_run_absent split: option.split)
  next
    case (Some hs)
    let ?c = "drop_number n hs c"
    have ok: "cache_ok L U ?c" using "1.prems" Some by (rule drop_number_ok)
    have unfold: "remove_header_until n c = remove_header_until (saturating_sub n 1) ?c"
      by (simp add: remove_header_until.simps [of n c] Some)
    note num = cache_ok_number [OF "1.prems" Some]
    have zero: "n = 0 \<Longrightarrow> \<not> in_run ?c (saturating_sub n 1) m" for m
      by (simp add: in_run_def drop_number_def saturating_sub_def)
    show ?thesis
    proof (cases "block_header_data c k")
      case None
      then show ?thesis
        using "1.IH" [OF Some ok] by (simp add: unfold) (simp add: drop_number_def)
    next
      case (Some h)
      then show ?thesis
        using "1.IH" [OF \<open>block_number_hashes c n = Some hs\<close> ok] num [OF Some] zero
          in_run_step [OF \<open>block_number_hashes c n = Some hs\<close>, of "hd_number h"]
        by (auto simp: unfold) (auto simp: drop_number_def)
    qed
  qed
qed

subsection \<open>Properties\<close>

text \<open>
  Adding a header and pruning keep the two maps of the cache consistent, whatever was
  cached before: every header is filed under its own hash and indexed under its number, and
  the index lists nothing else.
\<close>

theorem cache_operations_keep_invariant:
  assumes "inj_on (hl_hash L) U" and "cache_ok L U c"
    and "\<And>d. hl_digest L (hd_digest h) = Some d \<Longrightarrow> stored_header h d \<in> U"
  shows "cache_ok L U (snd (add_header L h c)) \<and>
    cache_ok L U (remove_header_until n (snd (add_header L h c)))"
  using add_header_ok [OF assms] remove_header_until_ok by blast

definition ex_cached :: "hash \<Rightarrow> u32 \<Rightarrow> header" where
  "ex_cached k n = \<lparr>hd_parent_hash = 0, hd_number = n, hd_state_root = k, hd_extrinsics_root = 0,
     hd_digest = []\<rparr>"

definition ex_gap_cache :: headers_metadata_cache where
  "ex_gap_cache = cache_insert 50 (ex_cached 50 5) (cache_insert 40 (ex_cached 40 4)
     (cache_insert 20 (ex_cached 20 2) default_cache))"

definition ex_cache_lib :: header_lib where
  "ex_cache_lib = \<lparr>hl_hash = hd_state_root, hl_digest = Some\<rparr>"

lemma ex_gap_inj: "inj_on (hl_hash ex_cache_lib) {ex_cached 50 5, ex_cached 40 4, ex_cached 20 2}"
  by (simp add: ex_cache_lib_def ex_cached_def)

lemma ex_gap_ok: "cache_ok ex_cache_lib {ex_cached 50 5, ex_cached 40 4, ex_cached 20 2} ex_gap_cache"
  unfolding ex_gap_cache_def
  by (intro cache_insert_ok [OF ex_gap_inj] default_cache_ok)
    (simp_all add: ex_cache_lib_def ex_cached_def)

theorem cache_operations_keep_invariant_witness:
  "cache_ok ex_cache_lib {ex_cached 50 5, ex_cached 40 4, ex_cached 20 2}
     (remove_header_until 5 (snd (add_header ex_cache_lib (ex_cached 40 4) ex_gap_cache)))"
  using cache_operations_keep_invariant [OF ex_gap_inj ex_gap_ok, of "ex_cached 40 4" 5]
  by (simp add: ex_cache_lib_def ex_cached_def stored_header_def)

text \<open>
  Pruning up to a number removes exactly the headers of the unbroken run of cached numbers
  that ends there: a header goes if and only if every number from its own up to the given one
  is cached; the number index loses exactly these numbers.
\<close>

theorem prune_exact:
  assumes "cache_ok L U c"
  shows "block_number_hashes (remove_header_until n c) m =
      (if m \<le> n \<and> (\<forall>j. m \<le> j \<and> j \<le> n \<longrightarrow> block_number_hashes c j \<noteq> None) then None
       else block_number_hashes c m) \<and>
    block_header_data (remove_header_until n c) k =
      (case block_header_data c k of None \<Rightarrow> None
       | Some h \<Rightarrow> if hd_number h \<le> n \<and>
           (\<forall>j. hd_number h \<le> j \<and> j \<le> n \<longrightarrow> block_number_hashes c j \<noteq> None) then None else Some h)"
  unfolding in_run_def [symmetric] block_number_hashes_remove block_header_data_remove [OF assms]
  by simp

theorem prune_exact_witness:
  "block_number_hashes (remove_header_until 5 ex_gap_cache) 4 = None \<and>
   block_header_data (remove_header_until 5 ex_gap_cache) 20 = Some (ex_cached 20 2)"
proof -
  have n4: "\<forall>j. 4 \<le> j \<and> j \<le> (5::u32) \<longrightarrow> block_number_hashes ex_gap_cache j \<noteq> None"
  proof (intro allI impI)
    fix j :: u32
    assume "4 \<le> j \<and> j \<le> 5"
    then have "j = 4 \<or> j = 5" by unat_arith
    then show "block_number_hashes ex_gap_cache j \<noteq> None"
      by (auto simp: ex_gap_cache_def cache_insert_def ex_cached_def)
  qed
  have n3: "block_number_hashes ex_gap_cache 3 = None" "(2::u32) \<le> 3" "(3::u32) \<le> 5"
    by (simp_all add: ex_gap_cache_def cache_insert_def ex_cached_def default_cache_def)
  have k: "block_header_data ex_gap_cache 20 = Some (ex_cached 20 2)" "hd_number (ex_cached 20 2) = 2"
    by (simp_all add: ex_gap_cache_def cache_insert_def ex_cached_def)
  then have "\<not> (\<forall>j. (2::u32) \<le> j \<and> j \<le> 5 \<longrightarrow> block_number_hashes ex_gap_cache j \<noteq> None)"
    using n3 by blast
  then show ?thesis
    using prune_exact [OF ex_gap_ok, of 5 4 20] n4 k by simp
qed

text \<open>
  Pruning never reaches below a number that is not cached: headers under a gap in the
  cached numbers stay in the cache for good, however far behind the best block they are.
\<close>

theorem prune_stops_at_gap:
  assumes "block_number_hashes c g = None" and "m \<le> g" and "g \<le> n"
  shows "block_number_hashes (remove_header_until n c) m = block_number_hashes c m"
  using assms by (auto simp: block_number_hashes_remove in_run_def)

theorem prune_stops_at_gap_witness:
  "block_number_hashes (remove_header_until 5 ex_gap_cache) 2 = Some {20}"
  using prune_stops_at_gap [of ex_gap_cache 3 2 5]
  by (simp add: ex_gap_cache_def cache_insert_def ex_cached_def default_cache_def or_default_def)

end
