(* ===== verification/Tree_Route.thy ===== *)
theory Tree_Route
  imports Headers_Cache
begin

section \<open>Paths of blocks and the tree-route interface\<close>

text \<open>
  \<open>sp_blockchain::tree_route\<close> is third-party code that the listener calls with the header
  cache as its metadata source. It is a parameter of the model; what the listener relies on
  is the locale \<open>tree_route_spec\<close>: a returned route consists of two parent-linked paths
  from the common block, one down to the old best block and one to the new one, and a
  returned error is an error of the metadata source. The locale is interpreted on an
  executable route computation, \<open>climb_route\<close>, that follows the documented algorithm.
\<close>

record tree_route =
  tr_retracted :: "hash_and_number list"
  tr_common_block :: hash_and_number
  tr_enacted :: "hash_and_number list"

type_synonym metadata = "hash \<Rightarrow> (cached_header_metadata, shared_error) result"
type_synonym route_fun = "metadata \<Rightarrow> hash \<Rightarrow> hash \<Rightarrow> (tree_route, shared_error) result"

subsection \<open>Paths\<close>

text \<open>Blocks known to a metadata source, and parent links between them.\<close>

definition m_known :: "metadata \<Rightarrow> hash_and_number \<Rightarrow> bool" where
  "m_known M x \<longleftrightarrow> (\<exists>m. M (hn_hash x) = Ok m \<and> chm_number m = hn_number x)"

definition m_child :: "metadata \<Rightarrow> hash_and_number \<Rightarrow> hash_and_number \<Rightarrow> bool" where
  "m_child M p x \<longleftrightarrow> (\<exists>m. M (hn_hash x) = Ok m \<and> chm_parent m = hn_hash p)"

definition m_path :: "metadata \<Rightarrow> hash_and_number list \<Rightarrow> bool" where
  "m_path M xs \<longleftrightarrow> (\<forall>x \<in> set xs. m_known M x) \<and> successively (m_child M) xs"

definition meta_ok :: "metadata \<Rightarrow> bool" where
  "meta_ok M \<longleftrightarrow> (\<forall>k m. M k = Ok m \<longrightarrow> chm_hash m = k)"

lemma m_path_Cons:
  "m_path M (x # xs) \<longleftrightarrow> m_known M x \<and> (xs = [] \<or> m_child M x (hd xs)) \<and> m_path M xs"
  by (cases xs) (auto simp: m_path_def)

lemma m_path_Nil [simp]: "m_path M []"
  by (simp add: m_path_def)

lemma m_path_single [simp]: "m_path M [x] \<longleftrightarrow> m_known M x"
  by (simp add: m_path_def)

lemma m_path_append:
  "m_path M (xs @ ys) \<longleftrightarrow> m_path M xs \<and> m_path M ys \<and>
     (xs = [] \<or> ys = [] \<or> m_child M (last xs) (hd ys))"
  by (auto simp: m_path_def successively_append_iff)

lemma m_path_last: "m_path M xs \<Longrightarrow> xs \<noteq> [] \<Longrightarrow> m_known M (last xs)"
  by (simp add: m_path_def)

lemma m_known_unique: "m_known M x \<Longrightarrow> m_known M y \<Longrightarrow> hn_hash x = hn_hash y \<Longrightarrow> x = y"
  by (auto simp: m_known_def intro: hash_and_number.equality)

text \<open>Two paths to the same block agree as far back as the shorter one goes.\<close>

lemma m_path_agree:
  assumes "m_path M (xs @ [z])" "m_path M (ys @ [z])" "length xs \<le> length ys"
  shows "\<exists>us. ys = us @ xs"
  using assms
proof (induction xs arbitrary: ys z rule: rev_induct)
  case Nil
  then show ?case by simp
next
  case (snoc x xs)
  then obtain y ys' where ys: "ys = ys' @ [y]" by (cases ys rule: rev_cases) auto
  have x: "m_path M (xs @ [x])" "m_child M x z" "m_known M x"
    using snoc.prems(1) by (auto simp: m_path_append m_path_Cons)
  have y: "m_path M (ys' @ [y])" "m_child M y z" "m_known M y"
    using snoc.prems(2) ys by (auto simp: m_path_append m_path_Cons)
  have "x = y"
    using x(2,3) y(2,3) m_known_unique by (auto simp: m_child_def)
  moreover have "length xs \<le> length ys'" using snoc.prems(3) ys by simp
  ultimately obtain us where "ys' = us @ xs"
    using snoc.IH [OF x(1), of ys'] y(1) by auto
  with ys \<open>x = y\<close> show ?case by simp
qed

text \<open>
  Cutting the retracted blocks off a path to the old best block and appending the enacted
  ones gives a path to the new best block.
\<close>

lemma path_switch:
  assumes old: "m_path M (c # R)" "last (c # R) = last v" and new: "m_path M (c # E)" "E \<noteq> []"
    and v: "m_path M v" "v \<noteq> []"
  shows "m_path M (take (length v - length R) v @ E)"
proof -
  have en: "m_path M E" "m_child M c (hd E)" using new by (auto simp: m_path_Cons)
  show ?thesis
  proof (cases "length R < length v")
    case False
    then show ?thesis using en by simp
  next
    case True
    obtain vs z where vz: "v = vs @ [z]" using v(2) by (cases v rule: rev_cases) auto
    obtain ps z' where pz: "c # R = ps @ [z']" by (cases "c # R" rule: rev_cases) auto
    have "z' = z" using old(2) vz pz by simp
    with old pz have "m_path M (ps @ [z])" by simp
    moreover have "m_path M (vs @ [z])" using v(1) vz by simp
    moreover have lens: "length ps = length R"
      using pz by (metis length_Cons length_append_singleton nat.inject)
    moreover have "length ps \<le> length vs" using True lens vz by simp
    ultimately obtain us where us: "vs = us @ ps" using m_path_agree by blast
    then have veq: "v = us @ c # R" using vz pz \<open>z' = z\<close> by simp
    then have "m_path M (us @ [c])" using v(1) by (simp add: m_path_append m_path_Cons)
    with en have "m_path M ((us @ [c]) @ E)" by (subst m_path_append) simp
    then show ?thesis using veq by simp
  qed
qed

subsection \<open>The interface\<close>

locale tree_route_spec =
  fixes TR :: route_fun
  assumes route_Ok: "meta_ok M \<Longrightarrow> TR M src dst = Ok t \<Longrightarrow>
      m_path M (tr_common_block t # rev (tr_retracted t)) \<and>
      hn_hash (last (tr_common_block t # rev (tr_retracted t))) = src \<and>
      m_path M (tr_common_block t # tr_enacted t) \<and>
      hn_hash (last (tr_common_block t # tr_enacted t)) = dst"
    and route_Err: "meta_ok M \<Longrightarrow> TR M src dst = Err e \<Longrightarrow> \<exists>k. M k = Err e"
begin

lemma no_retraction_extends:
  assumes "meta_ok M" "TR M src dst = Ok t" "tr_retracted t = []"
  shows "hn_hash (tr_common_block t) = src"
  using route_Ok [OF assms(1,2)] assms(3) by simp

lemma last_enacted_is_target:
  assumes "meta_ok M" "TR M src dst = Ok t" "tr_enacted t \<noteq> []"
  shows "hn_hash (last (tr_enacted t)) = dst"
  using route_Ok [OF assms(1,2)] assms(3) by simp

end

subsection \<open>An executable route computation\<close>

text \<open>
  The walk towards the common ancestor: the higher of the two blocks steps to its parent, both
  do at equal heights. The fuel bounds the number of steps.
\<close>

definition hn_of :: "cached_header_metadata \<Rightarrow> hash_and_number" where
  "hn_of m = \<lparr>hn_number = chm_number m, hn_hash = chm_hash m\<rparr>"

fun climb :: "nat \<Rightarrow> metadata \<Rightarrow> cached_header_metadata \<Rightarrow> cached_header_metadata \<Rightarrow>
    hash_and_number list \<Rightarrow> hash_and_number list \<Rightarrow> (tree_route, shared_error) result" where
  "climb 0 M f t rs es = Panic ''route too long''"
| "climb (Suc n) M f t rs es =
     (if chm_hash f = chm_hash t then
        Ok \<lparr>tr_retracted = rs, tr_common_block = hn_of f, tr_enacted = es\<rparr>
      else if chm_number f < chm_number t then
        bind_result (M (chm_parent t)) (\<lambda>t'. climb n M f t' rs (hn_of t # es))
      else if chm_number t < chm_number f then
        bind_result (M (chm_parent f)) (\<lambda>f'. climb n M f' t (rs @ [hn_of f]) es)
      else
        bind_result (M (chm_parent t)) (\<lambda>t'.
          bind_result (M (chm_parent f)) (\<lambda>f'.
            climb n M f' t' (rs @ [hn_of f]) (hn_of t # es))))"

definition climb_route :: "nat \<Rightarrow> route_fun" where
  "climb_route n M src dst =
     bind_result (M src) (\<lambda>f. bind_result (M dst) (\<lambda>t. climb n M f t [] []))"

lemma hn_of_known: "meta_ok M \<Longrightarrow> M k = Ok m \<Longrightarrow> m_known M (hn_of m) \<and> hn_hash (hn_of m) = k"
  by (auto simp: meta_ok_def m_known_def hn_of_def)

lemma hn_of_child:
  "meta_ok M \<Longrightarrow> M k = Ok m \<Longrightarrow> M (chm_parent m) = Ok p \<Longrightarrow> m_child M (hn_of p) (hn_of m)"
  by (auto simp: meta_ok_def m_child_def hn_of_def)

lemma climb_Ok:
  assumes "meta_ok M" "climb n M f t rs es = Ok r" "M a = Ok f" "M b = Ok t"
    and "m_path M (hn_of f # rev rs)" "hn_hash (last (hn_of f # rev rs)) = src"
    and "m_path M (hn_of t # es)" "hn_hash (last (hn_of t # es)) = dst"
  shows "m_path M (tr_common_block r # rev (tr_retracted r)) \<and>
      hn_hash (last (tr_common_block r # rev (tr_retracted r))) = src \<and>
      m_path M (tr_common_block r # tr_enacted r) \<and>
      hn_hash (last (tr_common_block r # tr_enacted r)) = dst"
  using assms
proof (induction n M f t rs es arbitrary: a b rule: climb.induct)
  case (1 M f t rs es)
  then show ?case by simp
next
  case (2 n M f t rs es)
  note known = hn_of_known [OF "2.prems"(1)] and child = hn_of_child [OF "2.prems"(1)]
  consider "chm_hash f = chm_hash t" | "chm_hash f \<noteq> chm_hash t" "chm_number f < chm_number t"
    | "chm_hash f \<noteq> chm_hash t" "chm_number t < chm_number f"
    | "chm_hash f \<noteq> chm_hash t" "chm_number f = chm_number t"
    by (meson linorder_neqE)
  then show ?case
  proof cases
    case 1
    then have "a = b" using "2.prems"(1,3,4) by (auto simp: meta_ok_def)
    with "2.prems" 1 show ?thesis by auto
  next
    case c: 2
    then obtain t' where t': "M (chm_parent t) = Ok t'" "climb n M f t' rs (hn_of t # es) = Ok r"
      using "2.prems"(2) by auto
    then show ?thesis
      using "2.IH"(1) [OF c "2.prems"(1) t'(2) "2.prems"(3) t'(1)] "2.prems" known child
      by (simp add: m_path_Cons)
  next
    case c: 3
    then have nlt: "\<not> chm_number f < chm_number t" by simp
    with c obtain f' where f': "M (chm_parent f) = Ok f'" "climb n M f' t (rs @ [hn_of f]) es = Ok r"
      using "2.prems"(2) by auto
    then show ?thesis
      using "2.IH"(2) [OF c(1) nlt c(2) "2.prems"(1) f'(2) f'(1) "2.prems"(4)] "2.prems" known child
      by (simp add: m_path_Cons)
  next
    case c: 4
    then obtain f' t' where ft: "M (chm_parent t) = Ok t'" "M (chm_parent f) = Ok f'"
      "climb n M f' t' (rs @ [hn_of f]) (hn_of t # es) = Ok r"
      using "2.prems"(2) by auto
    then show ?thesis
      using "2.IH"(3) [OF c(1) _ _ "2.prems"(1) ft(3) ft(2) ft(1)] c "2.prems" known child
      by (simp add: m_path_Cons)
  qed
qed

lemma climb_Err: "climb n M f t rs es = Err e \<Longrightarrow> \<exists>k. M k = Err e"
proof (induction n M f t rs es rule: climb.induct)
  case (1 M f t rs es)
  then show ?case by simp
next
  case (2 n M f t rs es)
  then show ?case
    by (cases "M (chm_parent t)"; cases "M (chm_parent f)") (auto split: if_splits)
qed

interpretation climb: tree_route_spec "climb_route n" for n
proof unfold_locales
  fix M src dst t
  assume M: "meta_ok M" and "climb_route n M src dst = Ok t"
  then obtain f g where fg: "M src = Ok f" "M dst = Ok g" "climb n M f g [] [] = Ok t"
    by (auto simp: climb_route_def)
  show "m_path M (tr_common_block t # rev (tr_retracted t)) \<and>
      hn_hash (last (tr_common_block t # rev (tr_retracted t))) = src \<and>
      m_path M (tr_common_block t # tr_enacted t) \<and>
      hn_hash (last (tr_common_block t # tr_enacted t)) = dst"
    using climb_Ok [OF M fg(3) fg(1,2)] hn_of_known [OF M fg(1)] hn_of_known [OF M fg(2)] by simp
next
  fix M src dst e
  assume "climb_route n M src dst = Err e"
  then show "\<exists>k. M k = Err e"
    by (cases "M src"; cases "M dst") (auto simp: climb_route_def dest: climb_Err)
qed

subsection \<open>The cache as a metadata source\<close>

lemma meta_ok_header_metadata [simp]: "meta_ok (header_metadata c)"
  by (auto simp: meta_ok_def header_metadata_def)

text \<open>The headers of a universe \<open>U\<close> as a metadata source, the limit of every cache over \<open>U\<close>.\<close>

definition universe_metadata :: "header_lib \<Rightarrow> header set \<Rightarrow> metadata" where
  "universe_metadata L U k = (if \<exists>h \<in> U. hl_hash L h = k then
       (let h = the_inv_into U (hl_hash L) k in
        Ok \<lparr>chm_hash = k, chm_number = hd_number h, chm_parent = hd_parent_hash h\<rparr>)
     else Err (MissingBlockHashFromCache k))"

lemma header_metadata_universe:
  assumes "cache_ok L U c" "inj_on (hl_hash L) U" "header_metadata c k = Ok m"
  shows "universe_metadata L U k = Ok m"
proof -
  obtain h where h: "block_header_data c k = Some h"
      "m = \<lparr>chm_hash = k, chm_number = hd_number h, chm_parent = hd_parent_hash h\<rparr>"
    using assms(3) by (auto simp: header_metadata_def)
  with cache_okD(1,2) [OF assms(1)] have "h \<in> U" "hl_hash L h = k" by auto
  with assms(2) have "the_inv_into U (hl_hash L) k = h" by (metis the_inv_into_f_f)
  with h \<open>h \<in> U\<close> \<open>hl_hash L h = k\<close> show ?thesis by (auto simp: universe_metadata_def)
qed

lemma m_path_mono:
  "(\<And>k m. M k = Ok m \<Longrightarrow> M' k = Ok m) \<Longrightarrow> m_path M xs \<Longrightarrow> m_path M' xs"
  unfolding m_path_def m_known_def m_child_def
  by (auto elim!: successively_mono)

end
