(* ===== verification/Block_Listener.thy ===== *)
theory Block_Listener
  imports Tree_Route
begin

section \<open>Following the chain: the block listener\<close>

text \<open>
  \<open>SubspaceBlockProvider\<close> and the listening half of \<open>Subspace\<close> in
  \<open>shared/src/subspace.rs\<close>. The node is a parameter: a record of the answers of its RPC
  methods at one moment, so that every received block comes with the node's view at that
  moment. The listener's state is the header cache, the current best block and the log of
  the messages it sent to the broadcast channel. \<open>recursive_tree_route\<close> may call the node
  any number of times, so it and everything above it return an option, \<open>None\<close> being a call
  that does not return.
\<close>

subsection \<open>The node and the block provider\<close>

record node =
  rpc_block_hash :: "u32 option \<Rightarrow> (hash option, shared_error) result"
  rpc_header :: "hash \<Rightarrow> (header option, shared_error) result"

definition block_ext_of :: "hash \<Rightarrow> header \<Rightarrow> block_ext" where
  "block_ext_of k h = \<lparr>be_number = hd_number h, be_hash = k, be_parent_hash = hd_parent_hash h,
     be_state_root = hd_state_root h, be_extrinsics_root = hd_extrinsics_root h\<rparr>"

definition block_ext_at_hash :: "node \<Rightarrow> hash \<Rightarrow> (block_ext, shared_error) result" where
  "block_ext_at_hash N k = bind_result (rpc_header N k) (\<lambda>r.
     bind_result (ok_or r (MissingBlockHeaderForHash k)) (\<lambda>h. Ok (block_ext_of k h)))"

definition block_ext_at_number :: "node \<Rightarrow> u32 \<Rightarrow> (block_ext, shared_error) result" where
  "block_ext_at_number N n = bind_result (rpc_block_hash N (Some n)) (\<lambda>r.
     bind_result (ok_or r (MissingBlockHeaderForNumber n)) (block_ext_at_hash N))"

definition block_ext_latest :: "node \<Rightarrow> (block_ext, shared_error) result" where
  "block_ext_latest N = bind_result (rpc_block_hash N None) (\<lambda>r.
     bind_result (ok_or r (MissingBlockHeaderForNumber 0)) (block_ext_at_hash N))"

definition is_canonical_block :: "node \<Rightarrow> u32 \<Rightarrow> hash \<Rightarrow> (bool, shared_error) result" where
  "is_canonical_block N n k = bind_result (rpc_block_hash N (Some n)) (\<lambda>r.
     bind_result (ok_or r (MissingBlockHeaderForNumber n)) (\<lambda>h. Ok (k = h)))"

definition get_block_ext :: "headers_metadata_cache \<Rightarrow> hash \<Rightarrow> (block_ext, shared_error) result" where
  "get_block_ext c k = bind_result (get_header c k) (\<lambda>h. Ok (block_ext_of k h))"

subsection \<open>Tree route with missing headers fetched\<close>

definition fetch_header :: "node \<Rightarrow> hash \<Rightarrow> (header, shared_error) result" where
  "fetch_header N k =
     bind_result (rpc_header N k) (\<lambda>r. ok_or r (MissingBlockHeaderForHash k))"

partial_function (option) recursive_tree_route ::
  "header_lib \<Rightarrow> route_fun \<Rightarrow> node \<Rightarrow> hash \<Rightarrow> hash \<Rightarrow> headers_metadata_cache \<Rightarrow>
     ((tree_route, shared_error) result \<times> headers_metadata_cache) option" where
  "recursive_tree_route L TR N src dst c =
     (case TR (header_metadata c) src dst of
        Ok t \<Rightarrow> Some (Ok t, c)
      | Panic p \<Rightarrow> Some (Panic p, c)
      | Err e \<Rightarrow>
          (case e of
             MissingBlockHashFromCache k \<Rightarrow>
               (case fetch_header N k of
                  Err e' \<Rightarrow> Some (Err e', c)
                | Panic p \<Rightarrow> Some (Panic p, c)
                | Ok h \<Rightarrow>
                    (case add_header L h c of
                       (Ok _, c') \<Rightarrow> recursive_tree_route L TR N src dst c'
                     | (Err e', c') \<Rightarrow> Some (Err e', c')
                     | (Panic p, c') \<Rightarrow> Some (Panic p, c')))
           | _ \<Rightarrow> Some (Err e, c)))"

subsection \<open>One received block\<close>

record sub_block =
  sb_hash :: hash
  sb_number :: u32
  sb_header :: header

record listener =
  ls_cache :: headers_metadata_cache
  ls_best :: hash_and_number
  ls_sent :: "blocks_ext list"

definition CACHE_HEADER_DEPTH :: u32 where
  "CACHE_HEADER_DEPTH = 100"

definition reorg_of :: "tree_route \<Rightarrow> reorg_data option" where
  "reorg_of t = (if tr_retracted t = [] then None
     else Some \<lparr>rd_enacted = butlast (tr_enacted t), rd_retracted = rev (tr_retracted t),
       rd_common_block = tr_common_block t\<rparr>)"

text \<open>What follows the route: collect the enacted blocks, move the best block, broadcast, prune.\<close>

definition enact_route :: "u32 \<Rightarrow> tree_route \<Rightarrow> (listener, unit, shared_error) prog" where
  "enact_route n t st =
     (if tr_enacted t = [] \<and> tr_retracted t = [] then (Ok (), st)
      else if tr_enacted t = [] then (Ok (), st)
      else
        (case try_collect (map (\<lambda>x. get_block_ext (ls_cache st) (hn_hash x)) (tr_enacted t)) of
           Err e \<Rightarrow> (Err e, st)
         | Panic p \<Rightarrow> (Panic p, st)
         | Ok blocks \<Rightarrow>
             (Ok (), \<lparr>ls_cache = remove_header_until (saturating_sub n CACHE_HEADER_DEPTH) (ls_cache st),
                ls_best = last (tr_enacted t),
                ls_sent = ls_sent st @ [\<lparr>bx_blocks = blocks, bx_maybe_reorg_data = reorg_of t\<rparr>]\<rparr>)))"

definition listen_step ::
  "header_lib \<Rightarrow> route_fun \<Rightarrow> node \<Rightarrow> sub_block \<Rightarrow> listener \<Rightarrow>
     ((unit, shared_error) result \<times> listener) option" where
  "listen_step L TR N b st =
     (case add_header L (sb_header b) (ls_cache st) of
        (Panic p, c) \<Rightarrow> Some (Panic p, st\<lparr>ls_cache := c\<rparr>)
      | (Err e, c) \<Rightarrow> Some (Err e, st\<lparr>ls_cache := c\<rparr>)
      | (Ok k, c) \<Rightarrow>
          if k \<noteq> sb_hash b then Some (Panic ''assertion failed'', st\<lparr>ls_cache := c\<rparr>)
          else (case is_canonical_block N (sb_number b) (sb_hash b) of
             Err e \<Rightarrow> Some (Err e, st\<lparr>ls_cache := c\<rparr>)
           | Panic p \<Rightarrow> Some (Panic p, st\<lparr>ls_cache := c\<rparr>)
           | Ok canonical \<Rightarrow>
               if \<not> canonical then Some (Ok (), st\<lparr>ls_cache := c\<rparr>)
               else (case recursive_tree_route L TR N (hn_hash (ls_best st)) (sb_hash b) c of
                  None \<Rightarrow> None
                | Some (Err e, c') \<Rightarrow> Some (Err e, st\<lparr>ls_cache := c'\<rparr>)
                | Some (Panic p, c') \<Rightarrow> Some (Panic p, st\<lparr>ls_cache := c'\<rparr>)
                | Some (Ok t, c') \<Rightarrow> Some (enact_route (sb_number b) t (st\<lparr>ls_cache := c'\<rparr>)))))"

subsection \<open>A subscription\<close>

text \<open>
  A subscription is the list of what the stream yields, each item with the node's view at the
  time; the end of the list is the end of the stream.
\<close>

type_synonym sub_item = "node \<times> (sub_block, shared_error) result"

fun listen_for_blocks ::
  "header_lib \<Rightarrow> route_fun \<Rightarrow> sub_item list \<Rightarrow> listener \<Rightarrow>
     ((unit, shared_error) result \<times> listener) option" where
  "listen_for_blocks L TR [] st = Some (Err SubscriptionClosed, st)"
| "listen_for_blocks L TR ((N, Err e) # items) st = Some (Err e, st)"
| "listen_for_blocks L TR ((N, Panic p) # items) st = Some (Panic p, st)"
| "listen_for_blocks L TR ((N, Ok b) # items) st =
     (case listen_step L TR N b st of
        None \<Rightarrow> None
      | Some (Ok _, st') \<Rightarrow> listen_for_blocks L TR items st'
      | Some (Err e, st') \<Rightarrow> Some (Err e, st')
      | Some (Panic p, st') \<Rightarrow> Some (Panic p, st'))"

text \<open>Waiting for the first canonical block of a subscription.\<close>

fun await_canonical ::
  "sub_item list \<Rightarrow> (node \<times> hash, shared_error) result \<times> sub_item list" where
  "await_canonical [] = (Err SubscriptionClosed, [])"
| "await_canonical ((N, Err e) # items) = (Err e, items)"
| "await_canonical ((N, Panic p) # items) = (Panic p, items)"
| "await_canonical ((N, Ok b) # items) =
     (case is_canonical_block N (sb_number b) (sb_hash b) of
        Ok True \<Rightarrow> (Ok (N, sb_hash b), items)
      | Ok False \<Rightarrow> await_canonical items
      | Err e \<Rightarrow> (Err e, items)
      | Panic p \<Rightarrow> (Panic p, items))"

definition canonical_header :: "node \<Rightarrow> u32 \<Rightarrow> (header, shared_error) result" where
  "canonical_header N n = bind_result (rpc_block_hash N (Some n)) (\<lambda>r.
     bind_result (ok_or r (MissingBlockHeaderForNumber n)) (fetch_header N))"

definition add_headers ::
  "header_lib \<Rightarrow> header list \<Rightarrow> (headers_metadata_cache, unit, shared_error) prog" where
  "add_headers L hs = for_prog hs (\<lambda>h. then_prog (add_header L h) (ret ()))"

definition load_from ::
  "header_lib \<Rightarrow> node \<Rightarrow> hash \<Rightarrow> (headers_metadata_cache, hash_and_number, shared_error) prog" where
  "load_from L N latest_hash =
     bind_prog (lift_result (fetch_header N latest_hash)) (\<lambda>latest_head.
       bind_prog (lift_result (try_collect (map (canonical_header N)
           (range_incl (saturating_sub (hd_number latest_head) CACHE_HEADER_DEPTH)
              (hd_number latest_head))))) (\<lambda>headers.
         then_prog (add_headers L headers)
           (ret \<lparr>hn_number = hd_number latest_head, hn_hash = latest_hash\<rparr>)))"

definition load_header_metadata_cache ::
  "header_lib \<Rightarrow> sub_item list \<Rightarrow> headers_metadata_cache \<Rightarrow>
     ((hash_and_number, shared_error) result \<times> headers_metadata_cache) \<times> sub_item list" where
  "load_header_metadata_cache L items c =
     (case await_canonical items of
        (Ok (N, k), rest) \<Rightarrow> (load_from L N k c, rest)
      | (Err e, rest) \<Rightarrow> ((Err e, c), rest)
      | (Panic p, rest) \<Rightarrow> ((Panic p, c), rest))"

subsection \<open>Re-subscribing\<close>

text \<open>The errors after which the listener subscribes again.\<close>

fun reconnects :: "shared_error \<Rightarrow> bool" where
  "reconnects (Subxt _) = True"
| "reconnects (Rpc _) = True"
| "reconnects SubscriptionClosed = True"
| "reconnects (MissingBlockHeaderForNumber _) = True"
| "reconnects (MissingBlockHeaderForHash _) = True"
| "reconnects _ = False"

text \<open>
  The outer loop over successive subscriptions. Each element is the outcome of one
  \<open>subscribe_all\<close> call, whose own error the source propagates. The state that survives a
  re-subscription is the cache; the log of sent messages belongs to the channel.
\<close>

datatype 'a run = Returned 'a | Awaiting | Diverged

fun listen_for_all_blocks ::
  "header_lib \<Rightarrow> route_fun \<Rightarrow> (sub_item list, shared_error) result list \<Rightarrow>
     headers_metadata_cache \<times> blocks_ext list \<Rightarrow>
     (unit, shared_error) result run \<times> (headers_metadata_cache \<times> blocks_ext list)" where
  "listen_for_all_blocks L TR [] s = (Awaiting, s)"
| "listen_for_all_blocks L TR (Err e # subs) s = (Returned (Err e), s)"
| "listen_for_all_blocks L TR (Panic p # subs) s = (Returned (Panic p), s)"
| "listen_for_all_blocks L TR (Ok items # subs) (c, sent) =
     (case load_header_metadata_cache L items c of
        ((Panic p, c'), rest) \<Rightarrow> (Returned (Panic p), (c', sent))
      | ((Err e, c'), rest) \<Rightarrow>
          if reconnects e then listen_for_all_blocks L TR subs (c', sent)
          else (Returned (Err e), (c', sent))
      | ((Ok best, c'), rest) \<Rightarrow>
          (case listen_for_blocks L TR rest \<lparr>ls_cache = c', ls_best = best, ls_sent = sent\<rparr> of
             None \<Rightarrow> (Diverged, (c', sent))
           | Some (Ok u, st) \<Rightarrow> (Returned (Ok u), (ls_cache st, ls_sent st))
           | Some (Panic p, st) \<Rightarrow> (Returned (Panic p), (ls_cache st, ls_sent st))
           | Some (Err e, st) \<Rightarrow>
               if reconnects e then listen_for_all_blocks L TR subs (ls_cache st, ls_sent st)
               else (Returned (Err e), (ls_cache st, ls_sent st))))"

end
