(* ===== verification/Listener_Correct.thy ===== *)
theory Listener_Correct
  imports Block_Listener
begin

section \<open>Correctness of the block listener\<close>

text \<open>
  The listener promises its consumers a consistent account of the canonical chain. The
  abstract specification is a \<^emph>\<open>chain view\<close>: a parent-linked list of blocks ending in the
  best block. A consumer that applies each message to its view, dropping the retracted blocks
  and appending the enacted ones, always holds such a view of the listener's best block
  (\<open>listen_for_blocks_view\<close>). Around it: every message carries at least one block, the cache
  invariant survives every outcome, and the fetch-and-retry loop terminates.
\<close>

subsection \<open>What the node may serve\<close>

text \<open>
  \<open>U\<close> is the set of headers that exist on the chain and its forks; the block hash is
  injective on it and every header the node serves is one of it.
\<close>

definition serves :: "header_lib \<Rightarrow> header set \<Rightarrow> node \<Rightarrow> bool" where
  "serves L U N \<longleftrightarrow> (\<forall>k h d. rpc_header N k = Ok (Some h) \<and> hl_digest L (hd_digest h) = Some d
     \<longrightarrow> stored_header h d \<in> U)"

definition item_ok :: "header_lib \<Rightarrow> header set \<Rightarrow> sub_item \<Rightarrow> bool" where
  "item_ok L U i \<longleftrightarrow> serves L U (fst i) \<and>
     (\<forall>b d. snd i = Ok b \<and> hl_digest L (hd_digest (sb_header b)) = Some d
        \<longrightarrow> stored_header (sb_header b) d \<in> U)"

lemma add_header_Ok:
  "add_header L h c = (Ok k, c') \<Longrightarrow>
     \<exists>d. hl_digest L (hd_digest h) = Some d \<and> k = hl_hash L (stored_header h d) \<and>
       c' = cache_insert k (stored_header h d) c"
  by (auto simp: add_header_def Let_def split: option.splits)

lemma fetch_header_Ok [simp]: "fetch_header N k = Ok h \<longleftrightarrow> rpc_header N k = Ok (Some h)"
  by (auto simp: fetch_header_def)

subsection \<open>The fetch-and-retry loop\<close>

text \<open>Induction over the retries of a call that returns.\<close>

lemma tree_route_induct [consumes 1, case_names route failed panic retry]:
  assumes ret: "recursive_tree_route L TR N src dst c = Some (r, c')"
    and route: "\<And>c. (\<And>k. TR (header_metadata c) src dst \<noteq> Err (MissingBlockHashFromCache k)) \<Longrightarrow>
      Q c (TR (header_metadata c) src dst) c"
    and failed: "\<And>c k e. TR (header_metadata c) src dst = Err (MissingBlockHashFromCache k) \<Longrightarrow>
      fetch_header N k = Err e \<Longrightarrow> Q c (Err e) c"
    and panic: "\<And>c p. Q c (Panic p) c"
    and retry: "\<And>c k h k' c1 r c'. TR (header_metadata c) src dst = Err (MissingBlockHashFromCache k) \<Longrightarrow>
      fetch_header N k = Ok h \<Longrightarrow> add_header L h c = (Ok k', c1) \<Longrightarrow> Q c1 r c' \<Longrightarrow> Q c r c'"
  shows "Q c r c'"
proof -
  define P where "P = (\<lambda>L' TR' N' src' dst' c (x :: (tree_route, shared_error) result \<times> headers_metadata_cache).
     L' = L \<longrightarrow> TR' = TR \<longrightarrow> N' = N \<longrightarrow> src' = src \<longrightarrow> dst' = dst \<longrightarrow> Q c (fst x) (snd x))"
  have "P L TR N src dst c (r, c')"
  proof (rule recursive_tree_route.raw_induct [where P = P, OF _ ret])
    fix rec L' TR' N' src' dst' c x
    assume IH: "\<And>L TR N src dst c y. rec L TR N src dst c = Some y \<Longrightarrow> P L TR N src dst c y"
      and eq: "(case TR' (header_metadata c) src' dst' of
        Ok t \<Rightarrow> Some (Ok t, c)
      | Err e \<Rightarrow>
          (case e of
             MissingBlockHashFromCache k \<Rightarrow>
               (case fetch_header N' k of
                  Ok h \<Rightarrow>
                    (case add_header L' h c of
                       (Ok _, c') \<Rightarrow> rec L' TR' N' src' dst' c'
                     | (Err e', c') \<Rightarrow> Some (Err e', c')
                     | (Panic p, c') \<Rightarrow> Some (Panic p, c'))
                | Err e' \<Rightarrow> Some (Err e', c)
                | Panic p \<Rightarrow> Some (Panic p, c))
           | _ \<Rightarrow> Some (Err e, c))
      | Panic p \<Rightarrow> Some (Panic p, c)) = Some x"
    show "P L' TR' N' src' dst' c x"
      unfolding P_def
    proof (intro impI)
      assume same: "L' = L" "TR' = TR" "N' = N" "src' = src" "dst' = dst"
      note eq = eq [unfolded same]
      show "Q c (fst x) (snd x)"
      proof (cases "\<exists>k. TR (header_metadata c) src dst = Err (MissingBlockHashFromCache k)")
        case False
        then have "x = (TR (header_metadata c) src dst, c)"
          using eq by (auto split: result.splits shared_error.splits)
        with route [of c] False show ?thesis by simp
      next
        case True
        then obtain k where k: "TR (header_metadata c) src dst = Err (MissingBlockHashFromCache k)" ..
        show ?thesis
        proof (cases "fetch_header N k")
          case (Ok h)
          obtain y c1 where add: "add_header L h c = (y, c1)" by fastforce
          show ?thesis
          proof (cases y)
            case y: (Ok k')
            with eq k Ok add have "rec L TR N src dst c1 = Some x" by simp
            from IH [OF this] have "Q c1 (fst x) (snd x)" by (simp add: P_def)
            with retry [OF k Ok] add y show ?thesis by simp
          qed (use eq k Ok add panic in \<open>auto simp: add_header_def Let_def split: option.splits\<close>)
        qed (use eq k failed [OF k] panic in auto)
      qed
    qed
  qed
  then show ?thesis by (simp add: P_def)
qed

text \<open>On return the route is one over the final cache, which has only grown and is still sound.\<close>

lemma recursive_tree_route_Some:
  assumes ret: "recursive_tree_route L TR N src dst c = Some (r, c')"
    and inj: "inj_on (hl_hash L) U" and sv: "serves L U N" and ok: "cache_ok L U c"
  shows "cache_ok L U c' \<and> (\<forall>t. r = Ok t \<longrightarrow> TR (header_metadata c') src dst = Ok t)"
  using ret ok
proof (induction rule: tree_route_induct)
  case (retry c k h k' c1 r c')
  have "cache_ok L U c1"
    using add_header_ok [OF inj retry.prems, of h] retry.hyps(2,3) sv by (auto simp: serves_def)
  with retry show ?case by blast
qed auto

text \<open>
  The loop ends: when the route computation asks only for hashes of a finite set \<open>A\<close> and the
  node serves the header of each of them, each retry adds one of these headers to the cache.
\<close>

lemma recursive_tree_route_returns:
  assumes "finite A" and inj: "inj_on (hl_hash L) U" and sv: "serves L U N" and "cache_ok L U c"
    and asks: "\<And>c. cache_ok L U c \<Longrightarrow>
      (\<exists>t. TR (header_metadata c) src dst = Ok t) \<or>
      (\<exists>k \<in> A. TR (header_metadata c) src dst = Err (MissingBlockHashFromCache k) \<and>
         block_header_data c k = None)"
    and node: "\<And>k. k \<in> A \<Longrightarrow> \<exists>h d. rpc_header N k = Ok (Some h) \<and>
      hl_digest L (hd_digest h) = Some d \<and> hl_hash L (stored_header h d) = k"
  shows "\<exists>t c'. recursive_tree_route L TR N src dst c = Some (Ok t, c')"
  using \<open>cache_ok L U c\<close>
proof (induction "card {k \<in> A. block_header_data c k = None}" arbitrary: c rule: less_induct)
  case less
  show ?case
  proof (cases "\<exists>t. TR (header_metadata c) src dst = Ok t")
    case True
    then show ?thesis by (auto simp: recursive_tree_route.simps [of L TR N src dst c])
  next
    case False
    then obtain k where k: "k \<in> A" "TR (header_metadata c) src dst = Err (MissingBlockHashFromCache k)"
      "block_header_data c k = None" using asks [OF less.prems] by blast
    then obtain h d where h: "rpc_header N k = Ok (Some h)" "hl_digest L (hd_digest h) = Some d"
      "hl_hash L (stored_header h d) = k" using node by blast
    define c' where "c' = cache_insert k (stored_header h d) c"
    have fetch: "fetch_header N k = Ok h" using h by simp
    have add: "add_header L h c = (Ok k, c')"
      using h by (simp add: add_header_def Let_def c'_def)
    have ok: "cache_ok L U c'"
      using cache_insert_ok [OF inj less.prems] h sv by (auto simp: c'_def serves_def)
    have "{x \<in> A. block_header_data c' x = None} \<subset> {x \<in> A. block_header_data c x = None}"
      using k by (auto simp: c'_def cache_insert_def)
    then have "card {x \<in> A. block_header_data c' x = None} < card {x \<in> A. block_header_data c x = None}"
      by (intro psubset_card_mono) (use \<open>finite A\<close> in auto)
    from less.hyps [OF this ok] show ?thesis
      by (simp add: recursive_tree_route.simps [of L TR N src dst c] k(2) fetch add)
  qed
qed

subsection \<open>Chain views\<close>

definition hn_of_ext :: "block_ext \<Rightarrow> hash_and_number" where
  "hn_of_ext b = \<lparr>hn_number = be_number b, hn_hash = be_hash b\<rparr>"

text \<open>The number of blocks a message tells its consumer to take back.\<close>

definition retracted_of :: "blocks_ext \<Rightarrow> nat" where
  "retracted_of m = (case bx_maybe_reorg_data m of None \<Rightarrow> 0 | Some r \<Rightarrow> length (rd_retracted r))"

definition apply_msg :: "hash_and_number list \<Rightarrow> blocks_ext \<Rightarrow> hash_and_number list" where
  "apply_msg v m = take (length v - retracted_of m) v @ map hn_of_ext (bx_blocks m)"

definition chain_view :: "header_lib \<Rightarrow> header set \<Rightarrow> hash_and_number list \<Rightarrow> hash_and_number \<Rightarrow> bool" where
  "chain_view L U v best \<longleftrightarrow> m_path (universe_metadata L U) v \<and> v \<noteq> [] \<and> last v = best"

lemma get_block_ext_known:
  assumes "m_known (header_metadata c) x" "get_block_ext c (hn_hash x) = Ok b"
  shows "hn_of_ext b = x"
  using assms
  by (auto simp: m_known_def header_metadata_def get_block_ext_def get_header_def hn_of_ext_def
      block_ext_of_def)

lemma collect_blocks:
  assumes "\<forall>x \<in> set xs. m_known (header_metadata c) x"
    and "try_collect (map (\<lambda>x. get_block_ext c (hn_hash x)) xs) = Ok bs"
  shows "map hn_of_ext bs = xs"
proof -
  from assms(2) have "list_all2 (\<lambda>x b. get_block_ext c (hn_hash x) = Ok b) xs bs"
    by (simp add: try_collect_map_iff)
  then show ?thesis using assms(1)
    by (induction rule: list_all2_induct) (auto dest: get_block_ext_known)
qed

lemma retracted_of_reorg [simp]:
  "retracted_of \<lparr>bx_blocks = bs, bx_maybe_reorg_data = reorg_of t\<rparr> = length (tr_retracted t)"
  by (simp add: retracted_of_def reorg_of_def)

text \<open>Every cached header is known to be the universe's.\<close>

lemma m_path_universe:
  "cache_ok L U c \<Longrightarrow> inj_on (hl_hash L) U \<Longrightarrow> m_path (header_metadata c) xs \<Longrightarrow>
     m_path (universe_metadata L U) xs"
  using header_metadata_universe m_path_mono by blast

lemma enact_route_view:
  assumes TR: "tree_route_spec TR" and inj: "inj_on (hl_hash L) U"
    and ok: "cache_ok L U (ls_cache st)" and v: "chain_view L U v (ls_best st)"
    and t: "TR (header_metadata (ls_cache st)) (hn_hash (ls_best st)) k = Ok t"
    and run: "enact_route n t st = (r, st')"
  shows "\<exists>ms. ls_sent st' = ls_sent st @ ms \<and> cache_ok L U (ls_cache st') \<and>
    chain_view L U (foldl apply_msg v ms) (ls_best st')"
proof (cases "ls_sent st' = ls_sent st")
  case True
  then have "st' = st" using run by (auto simp: enact_route_def split: if_splits result.splits)
  with v ok show ?thesis by (intro exI [of _ "[]"]) simp
next
  case False
  let ?M = "header_metadata (ls_cache st)" and ?UM = "universe_metadata L U"
  from False run obtain bs where en: "tr_enacted t \<noteq> []"
    and bs: "try_collect (map (\<lambda>x. get_block_ext (ls_cache st) (hn_hash x)) (tr_enacted t)) = Ok bs"
    and st': "st' = \<lparr>ls_cache = remove_header_until (saturating_sub n CACHE_HEADER_DEPTH) (ls_cache st),
         ls_best = last (tr_enacted t),
         ls_sent = ls_sent st @ [\<lparr>bx_blocks = bs, bx_maybe_reorg_data = reorg_of t\<rparr>]\<rparr>"
    by (auto simp: enact_route_def split: if_splits result.splits)
  note r = tree_route_spec.route_Ok [OF TR meta_ok_header_metadata t]
  have enacted: "map hn_of_ext bs = tr_enacted t"
    using r bs by (intro collect_blocks [of _ "ls_cache st"]) (auto simp: m_path_def)
  note up = m_path_universe [OF ok inj]
  let ?old = "tr_common_block t # rev (tr_retracted t)"
  have old: "m_path ?UM ?old" using r up by blast
  have "m_known ?UM (last ?old)" "m_known ?UM (last v)"
    using m_path_last [OF old] m_path_last [of _ v] v by (auto simp: chain_view_def)
  moreover have "hn_hash (last ?old) = hn_hash (last v)"
    using r v by (simp add: chain_view_def)
  ultimately have "last ?old = last v" by (rule m_known_unique)
  then have "m_path ?UM (take (length v - length (rev (tr_retracted t))) v @ tr_enacted t)"
    using path_switch [OF old] r up en v by (auto simp: chain_view_def)
  then have "chain_view L U (apply_msg v \<lparr>bx_blocks = bs, bx_maybe_reorg_data = reorg_of t\<rparr>) (ls_best st')"
    using en by (simp add: chain_view_def apply_msg_def enacted st')
  then show ?thesis
    using ok st' remove_header_until_ok
    by (intro exI [of _ "[\<lparr>bx_blocks = bs, bx_maybe_reorg_data = reorg_of t\<rparr>]"]) simp
qed

subsection \<open>One block, one subscription\<close>

lemma listen_step_view:
  assumes TR: "tree_route_spec TR" and inj: "inj_on (hl_hash L) U" and item: "item_ok L U (N, Ok b)"
    and ok: "cache_ok L U (ls_cache st)" and v: "chain_view L U v (ls_best st)"
    and run: "listen_step L TR N b st = Some (r, st')"
  shows "\<exists>ms. ls_sent st' = ls_sent st @ ms \<and> cache_ok L U (ls_cache st') \<and>
    chain_view L U (foldl apply_msg v ms) (ls_best st')"
proof -
  obtain x c where add: "add_header L (sb_header b) (ls_cache st) = (x, c)" by fastforce
  have c: "cache_ok L U c"
    using add_header_ok [OF inj ok, of "sb_header b"] add item by (auto simp: item_ok_def)
  have quiet: ?thesis if "\<exists>c'. cache_ok L U c' \<and> st' = st\<lparr>ls_cache := c'\<rparr>"
    using that v by (auto intro!: exI [of _ "[]"])
  show ?thesis
  proof (cases "x = Ok (sb_hash b) \<and> is_canonical_block N (sb_number b) (sb_hash b) = Ok True")
    case False
    then have "st' = st\<lparr>ls_cache := c\<rparr>"
      using run add by (auto simp: listen_step_def split: result.splits if_splits)
    with c show ?thesis by (intro quiet) blast
  next
    case True
    let ?src = "hn_hash (ls_best st)"
    obtain y c' where rt: "recursive_tree_route L TR N ?src (sb_hash b) c = Some (y, c')"
      using run add True by (auto simp: listen_step_def split: option.splits)
    have c': "cache_ok L U c'" and t: "\<And>t. y = Ok t \<Longrightarrow> TR (header_metadata c') ?src (sb_hash b) = Ok t"
      using recursive_tree_route_Some [OF rt inj _ c] item by (auto simp: item_ok_def)
    show ?thesis
    proof (cases y)
      case (Ok t')
      then have "enact_route (sb_number b) t' (st\<lparr>ls_cache := c'\<rparr>) = (r, st')"
        using run add True rt by (simp add: listen_step_def)
      then show ?thesis
        using enact_route_view [OF TR inj, of "st\<lparr>ls_cache := c'\<rparr>" v "sb_hash b" t'] c' t [OF Ok] v
        by simp
    qed (use run add True rt c' in \<open>intro quiet, force simp: listen_step_def\<close>)+
  qed
qed

lemma listen_for_blocks_view_gen:
  assumes TR: "tree_route_spec TR" and inj: "inj_on (hl_hash L) U"
    and items: "\<forall>i \<in> set items. item_ok L U i"
    and ok: "cache_ok L U (ls_cache st)" and v: "chain_view L U v (ls_best st)"
    and run: "listen_for_blocks L TR items st = Some (r, st')"
  shows "\<exists>ms. ls_sent st' = ls_sent st @ ms \<and> cache_ok L U (ls_cache st') \<and>
    chain_view L U (foldl apply_msg v ms) (ls_best st')"
  using items ok v run
proof (induction items arbitrary: st v)
  case Nil
  then show ?case by (auto intro: exI [of _ "[]"])
next
  case (Cons i items)
  show ?case
  proof (cases "snd i")
    case (Ok b)
    then obtain N where i: "i = (N, Ok b)" by (cases i) auto
    obtain y st1 where step: "listen_step L TR N b st = Some (y, st1)"
      using Cons.prems(4) i by (auto split: option.splits)
    obtain ms where ms: "ls_sent st1 = ls_sent st @ ms" "cache_ok L U (ls_cache st1)"
        "chain_view L U (foldl apply_msg v ms) (ls_best st1)"
      using listen_step_view [OF TR inj _ _ _ step, of v] Cons.prems i by auto
    show ?thesis
    proof (cases y)
      case (Ok u)
      with Cons.prems(4) step i have "listen_for_blocks L TR items st1 = Some (r, st')" by simp
      with Cons.IH [OF _ ms(2,3)] Cons.prems(1)
      obtain ms' where "ls_sent st' = ls_sent st1 @ ms'" "cache_ok L U (ls_cache st')"
        "chain_view L U (foldl apply_msg (foldl apply_msg v ms) ms') (ls_best st')" by auto
      with ms(1) show ?thesis by (intro exI [of _ "ms @ ms'"]) simp
    qed (use Cons.prems(4) step ms i in auto)
  qed (use Cons.prems in \<open>cases i; auto intro: exI [of _ "[]"]\<close>)+
qed

subsection \<open>Well-formed messages\<close>

text \<open>
  What every consumer of the channel relies on: a message has a block, and reorg data, when
  present, has retracted blocks and all enacted blocks but the new best one.
\<close>

definition msg_wf :: "blocks_ext \<Rightarrow> bool" where
  "msg_wf m \<longleftrightarrow> bx_blocks m \<noteq> [] \<and>
     (case bx_maybe_reorg_data m of None \<Rightarrow> True
      | Some r \<Rightarrow> rd_retracted r \<noteq> [] \<and> map hn_hash (rd_enacted r) = butlast (map be_hash (bx_blocks m)))"

lemma collect_hashes:
  assumes "try_collect (map (\<lambda>x. get_block_ext c (hn_hash x)) xs) = Ok bs"
  shows "map be_hash bs = map hn_hash xs"
proof -
  from assms have "list_all2 (\<lambda>x b. get_block_ext c (hn_hash x) = Ok b) xs bs"
    by (simp add: try_collect_map_iff)
  then show ?thesis
    by (induction rule: list_all2_induct) (auto simp: get_block_ext_def block_ext_of_def)
qed

lemma enact_route_wf:
  assumes "list_all msg_wf (ls_sent st)"
  shows "list_all msg_wf (ls_sent (snd (enact_route n t st)))"
proof (cases "tr_enacted t = []")
  case True
  with assms show ?thesis by (simp add: enact_route_def)
next
  case False
  show ?thesis
  proof (cases "try_collect (map (\<lambda>x. get_block_ext (ls_cache st) (hn_hash x)) (tr_enacted t))")
    case (Ok bs)
    from collect_hashes [OF Ok] have h: "map be_hash bs = map hn_hash (tr_enacted t)" .
    with False have "bs \<noteq> []" by auto
    then show ?thesis
      using assms False Ok h by (simp add: enact_route_def msg_wf_def reorg_of_def map_butlast)
  qed (use assms False in \<open>simp_all add: enact_route_def\<close>)
qed

lemma listen_step_wf:
  assumes "list_all msg_wf (ls_sent st)" "listen_step L TR N b st = Some (r, st')"
  shows "list_all msg_wf (ls_sent st')"
proof -
  have "ls_sent st' = ls_sent st \<or> (\<exists>n t c. enact_route n t (st\<lparr>ls_cache := c\<rparr>) = (r, st'))"
    using assms(2) unfolding listen_step_def
    by (auto split: result.splits if_splits option.splits prod.splits)
  moreover have "list_all msg_wf (ls_sent (snd (enact_route n t (st\<lparr>ls_cache := c\<rparr>))))" for n t c
    using assms(1) by (intro enact_route_wf) simp
  ultimately show ?thesis using assms(1) by (metis snd_conv)
qed

lemma listen_for_blocks_wf:
  "list_all msg_wf (ls_sent st) \<Longrightarrow> listen_for_blocks L TR items st = Some (r, st') \<Longrightarrow>
     list_all msg_wf (ls_sent st')"
  by (induction L TR items st rule: listen_for_blocks.induct)
    (auto split: option.splits result.splits dest: listen_step_wf)

text \<open>What holds of cache and channel across every load and every subscription holds throughout.\<close>

lemma listen_for_all_blocks_inv:
  assumes load: "\<And>items c sent x c' rest.
      load_header_metadata_cache L items c = ((x, c'), rest) \<Longrightarrow> P (c, sent) \<Longrightarrow> P (c', sent)"
    and listen: "\<And>rest st r st'. listen_for_blocks L TR rest st = Some (r, st') \<Longrightarrow>
      P (ls_cache st, ls_sent st) \<Longrightarrow> P (ls_cache st', ls_sent st')"
    and start: "P s"
  shows "P (snd (listen_for_all_blocks L TR subs s))"
  using start
proof (induction subs arbitrary: s)
  case Nil
  then show ?case by simp
next
  case (Cons sub subs)
  obtain c sent where s: "s = (c, sent)" by fastforce
  show ?case
  proof (cases sub)
    case (Ok items)
    obtain x c' rest where l: "load_header_metadata_cache L items c = ((x, c'), rest)"
      by (metis surj_pair)
    have P': "P (c', sent)" using load [OF l] Cons.prems s by simp
    show ?thesis
    proof (cases x)
      case x: (Ok best)
      let ?st = "\<lparr>ls_cache = c', ls_best = best, ls_sent = sent\<rparr>"
      show ?thesis
      proof (cases "listen_for_blocks L TR rest ?st")
        case None
        with Ok s l x P' show ?thesis by simp
      next
        case (Some y)
        obtain r st' where y: "y = (r, st')" by fastforce
        have "P (ls_cache st', ls_sent st')"
          using listen [of rest ?st r st'] Some y P' by simp
        then show ?thesis using Ok s l x Some y Cons.IH by (cases r) auto
      qed
    qed (use Ok s l P' Cons.IH in auto)
  qed (use Cons.prems s in auto)
qed

lemma listen_for_all_blocks_wf:
  "list_all msg_wf (snd s) \<Longrightarrow> list_all msg_wf (snd (snd (listen_for_all_blocks L TR subs s)))"
  by (rule listen_for_all_blocks_inv [where P = "\<lambda>s. list_all msg_wf (snd s)"])
    (auto dest: listen_for_blocks_wf)

subsection \<open>Loading the cache\<close>

lemma add_headers_present:
  assumes inj: "inj_on (hl_hash L) U" and "cache_ok L U c"
    and U: "\<And>h d. h \<in> set hs \<Longrightarrow> hl_digest L (hd_digest h) = Some d \<Longrightarrow> stored_header h d \<in> U"
    and run: "add_headers L hs c = (Ok u, c')"
  shows "cache_ok L U c' \<and> block_header_data c \<subseteq>\<^sub>m block_header_data c' \<and>
     (\<forall>h \<in> set hs. \<exists>d. hl_digest L (hd_digest h) = Some d \<and>
        block_header_data c' (hl_hash L (stored_header h d)) = Some (stored_header h d))"
  using assms(2) U run
proof (induction hs arbitrary: c)
  case Nil
  then show ?case by (simp add: add_headers_def)
next
  case (Cons h hs)
  then obtain k c1 where c1: "add_header L h c = (Ok k, c1)" "add_headers L hs c1 = (Ok u, c')"
    by (auto simp: add_headers_def then_prog_def bind_prog_Ok_iff)
  then obtain d where d: "hl_digest L (hd_digest h) = Some d" "k = hl_hash L (stored_header h d)"
      "c1 = cache_insert k (stored_header h d) c"
    using add_header_Ok by blast
  then have mem: "stored_header h d \<in> U" using Cons.prems(2) by auto
  have ok1: "cache_ok L U c1" using cache_insert_ok [OF inj Cons.prems(1) mem] d by simp
  have "h' = stored_header h d" if "block_header_data c k = Some h'" for h'
    using cache_okD(1,2) [OF Cons.prems(1) that] d mem inj by (auto dest: inj_onD)
  then have sub: "block_header_data c \<subseteq>\<^sub>m block_header_data c1"
    using d by (auto simp: map_le_def cache_insert_def)
  have here: "block_header_data c1 k = Some (stored_header h d)"
    using d by (simp add: cache_insert_def)
  from Cons.IH [OF ok1 _ c1(2)] Cons.prems(2)
  have rest: "cache_ok L U c'" "block_header_data c1 \<subseteq>\<^sub>m block_header_data c'"
    "\<forall>h \<in> set hs. \<exists>d. hl_digest L (hd_digest h) = Some d \<and>
        block_header_data c' (hl_hash L (stored_header h d)) = Some (stored_header h d)"
    by auto
  have "block_header_data c' k = Some (stored_header h d)"
    using rest(2) here by (metis domI map_le_def)
  with rest d sub show ?case by (auto intro: map_le_trans)
qed

subsection \<open>A small chain with a fork\<close>

text \<open>
  The concrete chain on which the properties below are exercised: block 1, its children 2 and
  3, and block 4 on top of 3. The example hash of a header is its state root.
\<close>

definition ex_header :: "hash \<Rightarrow> hash \<Rightarrow> u32 \<Rightarrow> header" where
  "ex_header k p n = \<lparr>hd_parent_hash = p, hd_number = n, hd_state_root = k,
     hd_extrinsics_root = 0, hd_digest = []\<rparr>"

definition ex_lib :: header_lib where
  "ex_lib = \<lparr>hl_hash = hd_state_root, hl_digest = Some\<rparr>"

definition ex_chain :: "header set" where
  "ex_chain = {ex_header 1 0 1, ex_header 2 1 2, ex_header 3 1 2, ex_header 4 3 3}"

definition ex_node :: "(u32 \<Rightarrow> hash option) \<Rightarrow> node" where
  "ex_node canon = \<lparr>rpc_block_hash = (\<lambda>n. Ok (case n of None \<Rightarrow> None | Some m \<Rightarrow> canon m)),
     rpc_header = (\<lambda>k. Ok (if k = 1 then Some (ex_header 1 0 1) else if k = 2 then Some (ex_header 2 1 2)
       else if k = 3 then Some (ex_header 3 1 2) else if k = 4 then Some (ex_header 4 3 3) else None))\<rparr>"

definition ex_block :: "header \<Rightarrow> sub_block" where
  "ex_block h = \<lparr>sb_hash = hd_state_root h, sb_number = hd_number h, sb_header = h\<rparr>"

definition ex_items :: "sub_item list" where
  "ex_items = [(ex_node [2 \<mapsto> 2], Ok (ex_block (ex_header 2 1 2))),
     (ex_node [2 \<mapsto> 3, 3 \<mapsto> 4], Ok (ex_block (ex_header 4 3 3)))]"

definition ex_listener :: listener where
  "ex_listener = \<lparr>ls_cache = cache_insert 1 (ex_header 1 0 1) default_cache,
     ls_best = \<lparr>hn_number = 1, hn_hash = 1\<rparr>, ls_sent = []\<rparr>"

lemmas ex_defs = ex_header_def ex_lib_def ex_node_def ex_block_def ex_items_def ex_listener_def

lemma ex_inj: "inj_on (hl_hash ex_lib) ex_chain"
  by (simp add: ex_lib_def ex_chain_def ex_header_def)

lemma ex_stored: "h \<in> ex_chain \<Longrightarrow> stored_header h (hd_digest h) \<in> ex_chain"
  by simp

lemma ex_serves: "serves ex_lib ex_chain (ex_node canon)"
  by (auto simp: serves_def ex_lib_def ex_node_def ex_chain_def stored_header_def ex_header_def
      split: if_splits)

lemma ex_items_ok: "\<forall>i \<in> set ex_items. item_ok ex_lib ex_chain i"
  by (auto simp: ex_items_def item_ok_def ex_serves)
    (auto simp: ex_lib_def ex_block_def ex_chain_def stored_header_def ex_header_def)

lemma ex_cache_ok: "cache_ok ex_lib ex_chain (ls_cache ex_listener)"
  unfolding ex_listener_def
  using cache_insert_ok [OF ex_inj default_cache_ok, of "ex_header 1 0 1" 1]
  by (simp add: ex_chain_def) (simp add: ex_lib_def ex_header_def)

lemma ex_view: "chain_view ex_lib ex_chain [ls_best ex_listener] (ls_best ex_listener)"
proof -
  have "m_known (header_metadata (ls_cache ex_listener)) (ls_best ex_listener)"
    by (simp add: m_known_def header_metadata_def ex_listener_def cache_insert_def ex_header_def)
  then have "m_path (header_metadata (ls_cache ex_listener)) [ls_best ex_listener]" by simp
  from m_path_universe [OF ex_cache_ok ex_inj this] show ?thesis
    by (simp add: chain_view_def)
qed

definition ex_route :: route_fun where
  "ex_route = climb_route (Suc (Suc (Suc (Suc 0))))"

lemma ex_route_spec: "tree_route_spec ex_route"
  unfolding ex_route_def by (rule climb.tree_route_spec_axioms)

lemma ex_run:
  "\<exists>st'. listen_for_blocks ex_lib ex_route ex_items ex_listener =
       Some (Err SubscriptionClosed, st') \<and>
     ls_best st' = \<lparr>hn_number = 3, hn_hash = 4\<rparr> \<and> map retracted_of (ls_sent st') = [0, 1]"
  by (simp add: ex_items_def ex_listener_def ex_block_def ex_node_def ex_lib_def ex_header_def
      listen_step_def add_header_def Let_def stored_header_def is_canonical_block_def
      recursive_tree_route.simps ex_route_def climb_route_def header_metadata_def cache_insert_def
      default_cache_def hn_of_def fetch_header_def enact_route_def get_block_ext_def
      get_header_def retracted_of_def reorg_of_def remove_header_until.simps saturating_sub_def
      CACHE_HEADER_DEPTH_def)

subsection \<open>Properties\<close>

text \<open>
  C1: a consumer that starts with a chain view of the listener's best block and applies every
  message of a subscription to it (take back the retracted blocks, append the enacted ones)
  holds a parent-linked chain ending in the listener's best block when the subscription ends,
  whatever forks, reorgs, fetched headers and errors occurred on the way; the header cache is
  still consistent.
\<close>

theorem listener_chain_view:
  assumes "tree_route_spec TR" and "inj_on (hl_hash L) U" and "\<forall>i \<in> set items. item_ok L U i"
    and "cache_ok L U (ls_cache st)" and "chain_view L U v (ls_best st)"
    and "listen_for_blocks L TR items st = Some (r, st')"
  shows "\<exists>ms. ls_sent st' = ls_sent st @ ms \<and> cache_ok L U (ls_cache st') \<and>
    chain_view L U (foldl apply_msg v ms) (ls_best st')"
  using assms by (rule listen_for_blocks_view_gen)

theorem listener_chain_view_witness:
  "\<exists>st' ms. listen_for_blocks ex_lib ex_route ex_items ex_listener = Some (Err SubscriptionClosed, st') \<and>
     ls_sent st' = ms \<and> length ms = 2 \<and>
     chain_view ex_lib ex_chain (foldl apply_msg [ls_best ex_listener] ms) \<lparr>hn_number = 3, hn_hash = 4\<rparr>"
proof -
  obtain st' where run: "listen_for_blocks ex_lib ex_route ex_items ex_listener =
      Some (Err SubscriptionClosed, st')" and st': "ls_best st' = \<lparr>hn_number = 3, hn_hash = 4\<rparr>"
      "map retracted_of (ls_sent st') = [0, 1]"
    using ex_run by (elim exE conjE)
  have "length (ls_sent st') = length (map retracted_of (ls_sent st'))" by simp
  then have len: "length (ls_sent st') = 2" unfolding st'(2) by simp
  have "ls_sent ex_listener = []" by (simp add: ex_listener_def)
  then obtain ms where "ls_sent st' = ms"
      "chain_view ex_lib ex_chain (foldl apply_msg [ls_best ex_listener] ms) (ls_best st')"
    using listener_chain_view [OF ex_route_spec ex_inj ex_items_ok ex_cache_ok ex_view run] by auto
  with run st'(1) len show ?thesis by (intro exI [of _ st'] exI [of _ ms]) simp
qed

text \<open>
  C32: every message the listener ever broadcasts, over any number of subscriptions and
  whatever the node answers, carries at least one block; when it carries reorg data, that
  data has at least one retracted block and lists the hashes of all carried blocks but the
  last.
\<close>

theorem listener_messages_wf:
  "list_all msg_wf (snd (snd (listen_for_all_blocks L TR subs (default_cache, []))))"
  by (rule listen_for_all_blocks_wf) simp

text \<open>
  C21: fetching missing headers and retrying the tree route terminates with a route: the route
  computation asks, over sound caches, only for uncached hashes of a finite set whose headers
  the node serves.
\<close>

theorem missing_headers_are_fetched:
  assumes "finite A" and "inj_on (hl_hash L) U" and "serves L U N" and "cache_ok L U c"
    and "\<And>c. cache_ok L U c \<Longrightarrow>
      (\<exists>t. TR (header_metadata c) src dst = Ok t) \<or>
      (\<exists>k \<in> A. TR (header_metadata c) src dst = Err (MissingBlockHashFromCache k) \<and>
         block_header_data c k = None)"
    and "\<And>k. k \<in> A \<Longrightarrow> \<exists>h d. rpc_header N k = Ok (Some h) \<and>
      hl_digest L (hd_digest h) = Some d \<and> hl_hash L (stored_header h d) = k"
  shows "\<exists>t c'. recursive_tree_route L TR N src dst c = Some (Ok t, c')"
  using assms by (rule recursive_tree_route_returns)

lemma ex_in_cache:
  assumes "cache_ok ex_lib ex_chain c" "block_header_data c k = Some h"
  shows "h \<in> ex_chain" "hd_state_root h = k"
  using cache_okD(1,2) [OF assms(1,2)] by (auto simp: ex_lib_def)

lemma ex_asks:
  assumes "cache_ok ex_lib ex_chain c"
  shows "(\<exists>t. ex_route (header_metadata c) 2 4 = Ok t) \<or>
      (\<exists>k \<in> {1, 2, 3, 4}. ex_route (header_metadata c) 2 4 = Err (MissingBlockHashFromCache k) \<and>
         block_header_data c k = None)"
proof -
  have meta: "header_metadata c k = Err (MissingBlockHashFromCache k) \<and> block_header_data c k = None \<or>
      header_metadata c k = Ok \<lparr>chm_hash = k, chm_number = n, chm_parent = p\<rparr>"
    if "\<And>h. h \<in> ex_chain \<Longrightarrow> hd_state_root h = k \<Longrightarrow> h = ex_header k p n" for k p n
  proof (cases "block_header_data c k")
    case None
    then show ?thesis by (simp add: header_metadata_def)
  next
    case (Some h)
    then have "h = ex_header k p n" using that ex_in_cache [OF assms] by blast
    with Some show ?thesis by (simp add: header_metadata_def ex_header_def)
  qed
  have "header_metadata c 1 = Err (MissingBlockHashFromCache 1) \<and> block_header_data c 1 = None \<or>
      header_metadata c 1 = Ok \<lparr>chm_hash = 1, chm_number = 1, chm_parent = 0\<rparr>"
    "header_metadata c 2 = Err (MissingBlockHashFromCache 2) \<and> block_header_data c 2 = None \<or>
      header_metadata c 2 = Ok \<lparr>chm_hash = 2, chm_number = 2, chm_parent = 1\<rparr>"
    "header_metadata c 3 = Err (MissingBlockHashFromCache 3) \<and> block_header_data c 3 = None \<or>
      header_metadata c 3 = Ok \<lparr>chm_hash = 3, chm_number = 2, chm_parent = 1\<rparr>"
    "header_metadata c 4 = Err (MissingBlockHashFromCache 4) \<and> block_header_data c 4 = None \<or>
      header_metadata c 4 = Ok \<lparr>chm_hash = 4, chm_number = 3, chm_parent = 3\<rparr>"
    by (rule meta; auto simp: ex_chain_def ex_header_def)+
  then show ?thesis
    unfolding ex_route_def climb_route_def
    by (elim disjE conjE) simp_all
qed

theorem missing_headers_are_fetched_witness:
  "\<exists>t c'. recursive_tree_route ex_lib ex_route (ex_node Map.empty) 2 4 default_cache = Some (Ok t, c')"
proof (rule missing_headers_are_fetched [where A = "{1, 2, 3, 4}", OF _ ex_inj ex_serves default_cache_ok])
  show "(\<exists>t. ex_route (header_metadata c) 2 4 = Ok t) \<or>
      (\<exists>k \<in> {1, 2, 3, 4}. ex_route (header_metadata c) 2 4 = Err (MissingBlockHashFromCache k) \<and>
         block_header_data c k = None)" if "cache_ok ex_lib ex_chain c" for c
    using that by (rule ex_asks)
next
  fix k :: hash
  assume "k \<in> {1, 2, 3, 4}"
  then show "\<exists>h d. rpc_header (ex_node Map.empty) k = Ok (Some h) \<and>
      hl_digest ex_lib (hd_digest h) = Some d \<and> hl_hash ex_lib (stored_header h d) = k"
    by (auto simp: ex_node_def ex_lib_def ex_header_def)
qed simp_all

subsection \<open>Errors of a subscription\<close>

text \<open>
  The errors of the RPC methods and of the block stream are converted to \<open>Rpc\<close> and \<open>Subxt\<close> by
  the \<open>From\<close> instances of \<open>error.rs\<close>.
\<close>

definition rpc_errors :: "node \<Rightarrow> bool" where
  "rpc_errors N \<longleftrightarrow> (\<forall>n e. rpc_block_hash N n = Err e \<longrightarrow> (\<exists>m. e = Rpc m)) \<and>
     (\<forall>k e. rpc_header N k = Err e \<longrightarrow> (\<exists>m. e = Rpc m))"

definition stream_errors :: "sub_item \<Rightarrow> bool" where
  "stream_errors i \<longleftrightarrow> rpc_errors (fst i) \<and> (\<forall>e. snd i = Err e \<longrightarrow> (\<exists>m. e = Subxt m))"

text \<open>What a subscription can fail with: the connection, the end of the stream, data the node has not got yet.\<close>

inductive transient :: "shared_error \<Rightarrow> bool" where
  "transient (Subxt m)" | "transient (Rpc m)" | "transient SubscriptionClosed"
| "transient (MissingBlockHeaderForNumber n)" | "transient (MissingBlockHeaderForHash k)"

lemma fetch_header_transient: "rpc_errors N \<Longrightarrow> fetch_header N k = Err e \<Longrightarrow> transient e"
  by (auto simp: fetch_header_def rpc_errors_def result_Err_iffs(1) ok_or_Err_iff transient.simps)

lemma is_canonical_transient: "rpc_errors N \<Longrightarrow> is_canonical_block N n k = Err e \<Longrightarrow> transient e"
  by (auto simp: is_canonical_block_def rpc_errors_def result_Err_iffs(1) ok_or_Err_iff transient.simps)

lemma canonical_header_transient: "rpc_errors N \<Longrightarrow> canonical_header N n = Err e \<Longrightarrow> transient e"
  using fetch_header_transient [of N]
  by (auto simp: canonical_header_def rpc_errors_def result_Err_iffs(1) ok_or_Err_iff transient.simps)

lemma add_headers_no_Err: "fst (add_headers L hs c) \<noteq> Err e"
proof (induction hs arbitrary: c)
  case (Cons h hs)
  then show ?case
    by (cases "hl_digest L (hd_digest h)")
      (simp_all add: add_headers_def then_prog_def bind_prog_def add_header_def ret_def Let_def)
qed (simp add: add_headers_def ret_def)

lemma load_from_transient:
  assumes "load_from L N k c = (Err e, c')" and "rpc_errors N"
  shows "transient e"
proof (cases "fetch_header N k")
  case (Ok h)
  let ?ns = "range_incl (saturating_sub (hd_number h) CACHE_HEADER_DEPTH) (hd_number h)"
  show ?thesis
  proof (cases "try_collect (map (canonical_header N) ?ns)")
    case (Err e')
    from try_collect_Err [OF this] have "transient e'" using canonical_header_transient [OF assms(2)] by auto
    with Err Ok assms(1) show ?thesis by (simp add: load_from_def bind_prog_def lift_result_def del: fetch_header_Ok)
  next
    case hs: (Ok hs)
    with Ok assms(1) add_headers_no_Err [of L hs c] show ?thesis
      by (cases "add_headers L hs c"; cases "fst (add_headers L hs c)")
        (auto simp: load_from_def bind_prog_def then_prog_def lift_result_def ret_def simp del: fetch_header_Ok)
  qed (use Ok assms(1) in \<open>simp add: load_from_def bind_prog_def lift_result_def del: fetch_header_Ok\<close>)
next
  case (Err e')
  with assms fetch_header_transient [OF assms(2) Err] show ?thesis by (simp add: load_from_def bind_prog_def lift_result_def del: fetch_header_Ok)
qed (use assms(1) in \<open>simp add: load_from_def bind_prog_def lift_result_def del: fetch_header_Ok\<close>)

lemma await_canonical_items:
  "await_canonical items = (r, rest) \<Longrightarrow> list_all stream_errors items \<Longrightarrow>
    list_all stream_errors rest \<and> (\<forall>e. r = Err e \<longrightarrow> transient e) \<and> (\<forall>N k. r = Ok (N, k) \<longrightarrow> rpc_errors N)"
proof (induction items arbitrary: r rest rule: await_canonical.induct)
  case (4 N b items)
  then show ?case
    by (cases "is_canonical_block N (sb_number b) (sb_hash b)")
      (auto simp: stream_errors_def split: bool.splits dest: is_canonical_transient)
qed (auto simp: stream_errors_def transient.simps)

lemma load_transient:
  assumes "load_header_metadata_cache L items c = ((r, c'), rest)" and "list_all stream_errors items"
  shows "list_all stream_errors rest \<and> (\<forall>e. r = Err e \<longrightarrow> transient e)"
proof -
  obtain x rest' where aw: "await_canonical items = (x, rest')" by fastforce
  from await_canonical_items [OF this assms(2)] assms(1) aw show ?thesis
    by (cases x) (auto simp: load_header_metadata_cache_def dest: load_from_transient)
qed

context tree_route_spec
begin

lemma tree_route_transient:
  assumes "recursive_tree_route L TR N src dst c = Some (Err e, c')" and "rpc_errors N"
  shows "transient e"
proof -
  have "\<forall>e. r = Err e \<longrightarrow> transient e" if "recursive_tree_route L TR N src dst c = Some (r, c')" for r c'
    using that
  proof (induction rule: tree_route_induct)
    case (route c)
    show ?case
    proof (intro allI impI)
      fix e assume e: "TR (header_metadata c) src dst = Err e"
      from route_Err [OF meta_ok_header_metadata this] obtain k where "e = MissingBlockHashFromCache k"
        by (auto simp: header_metadata_def ok_or_Err_iff)
      with route e show "transient e" by blast
    qed
  qed (use fetch_header_transient [OF assms(2)] in auto)
  with assms(1) show ?thesis by blast
qed

lemma tree_route_Ok:
  assumes "recursive_tree_route L TR N src dst c = Some (Ok t, c')"
  shows "TR (header_metadata c') src dst = Ok t"
proof -
  have "\<forall>t. r = Ok t \<longrightarrow> TR (header_metadata c') src dst = Ok t" if "recursive_tree_route L TR N src dst c = Some (r, c')" for r c'
    using that by (induction rule: tree_route_induct) auto
  with assms show ?thesis by blast
qed

lemma enact_no_Err:
  assumes "TR (header_metadata (ls_cache st)) src dst = Ok t"
  shows "fst (enact_route n t st) \<noteq> Err e"
proof -
  have "m_path (header_metadata (ls_cache st)) (tr_common_block t # tr_enacted t)"
    using route_Ok [OF meta_ok_header_metadata assms] by blast
  then have "\<exists>b. get_block_ext (ls_cache st) (hn_hash x) = Ok b" if "x \<in> set (tr_enacted t)" for x
    using that by (auto simp: m_path_def m_known_def header_metadata_def get_block_ext_def get_header_def)
  then have "try_collect (map (\<lambda>x. get_block_ext (ls_cache st) (hn_hash x)) (tr_enacted t)) \<noteq> Err e"
    using try_collect_Err by fastforce
  then show ?thesis by (auto simp: enact_route_def split: result.splits)
qed

lemma listen_step_transient:
  assumes "listen_step L TR N b st = Some (Err e, st')" and "rpc_errors N"
  shows "transient e"
proof -
  obtain k c where add: "add_header L (sb_header b) (ls_cache st) = (Ok k, c)" "k = sb_hash b"
    using assms(1) by (auto simp: listen_step_def add_header_def Let_def split: option.splits if_splits)
  show ?thesis
  proof (cases "is_canonical_block N (sb_number b) (sb_hash b)")
    case (Ok canonical)
    with assms(1) add obtain r c' where rt: "recursive_tree_route L TR N (hn_hash (ls_best st)) (sb_hash b) c = Some (r, c')"
      and canonical: "canonical"
      by (auto simp: listen_step_def split: if_splits option.splits)
    show ?thesis
    proof (cases r)
      case r: (Ok t)
      from tree_route_Ok [OF rt [unfolded r]] have "TR (header_metadata (ls_cache (st\<lparr>ls_cache := c'\<rparr>))) (hn_hash (ls_best st)) (sb_hash b) = Ok t"
        by simp
      from enact_no_Err [OF this] have "enact_route (sb_number b) t (st\<lparr>ls_cache := c'\<rparr>) \<noteq> (Err e, st')"
        by (metis fst_conv)
      with assms(1) add Ok canonical rt r show ?thesis by (simp add: listen_step_def)
    next
      case r: (Err e')
      with assms add Ok canonical rt tree_route_transient [OF rt [unfolded r]] show ?thesis by (simp add: listen_step_def)
    qed (use assms(1) add Ok canonical rt in \<open>simp add: listen_step_def\<close>)
  next
    case (Err e')
    with assms add is_canonical_transient [OF assms(2)] show ?thesis by (simp add: listen_step_def)
  qed (use assms(1) add in \<open>simp add: listen_step_def\<close>)
qed

lemma listen_transient:
  "listen_for_blocks L TR items st = Some (r, st') \<Longrightarrow> list_all stream_errors items \<Longrightarrow>
    (\<exists>e. r = Err e \<and> transient e) \<or> (\<exists>p. r = Panic p)"
proof (induction items arbitrary: st)
  case (Cons i items)
  obtain N x where i: "i = (N, x)" by fastforce
  show ?case
  proof (cases x)
    case (Ok b)
    with Cons.prems i obtain y st1 where step: "listen_step L TR N b st = Some (y, st1)"
      by (auto split: option.splits)
    with Ok Cons i listen_step_transient [of L N b st _ st1] show ?thesis
      by (cases y) (auto simp: stream_errors_def)
  qed (use Cons.prems i in \<open>auto simp: stream_errors_def intro: transient.intros\<close>)
qed (auto intro: transient.intros)

lemma listener_ends:
  assumes "fst (listen_for_all_blocks L TR subs s) = Returned r"
    and "\<forall>items. Ok items \<in> set subs \<longrightarrow> list_all stream_errors items"
  shows "(\<exists>e. r = Err e \<and> Err e \<in> set subs) \<or> (\<exists>p. r = Panic p)"
  using assms
proof (induction subs arbitrary: s)
  case (Cons sub subs)
  obtain c sent where s: "s = (c, sent)" by fastforce
  have reconnects: "reconnects e" if "transient e" for e using that by cases simp_all
  show ?case
  proof (cases sub)
    case (Ok items)
    with Cons.prems(2) have items: "list_all stream_errors items" by simp
    obtain x c' rest where load: "load_header_metadata_cache L items c = ((x, c'), rest)" by (metis surj_pair)
    note ok = load_transient [OF load items]
    show ?thesis
    proof (cases x)
      case x: (Ok best)
      let ?st = "\<lparr>ls_cache = c', ls_best = best, ls_sent = sent\<rparr>"
      from Cons.prems(1) s Ok load x obtain y st where run: "listen_for_blocks L TR rest ?st = Some (y, st)"
        by (auto split: option.splits)
      from listen_transient [OF run] ok reconnects Cons s Ok load x run show ?thesis by (cases y) auto
    next
      case (Err e)
      with ok reconnects Cons s Ok load show ?thesis by auto
    qed (use Cons.prems s Ok load in auto)
  qed (use Cons.prems s in auto)
qed simp

end

text \<open>
  C36: lost connections do not end the listener. When RPC calls fail with \<open>Rpc\<close> errors and streams
  with \<open>Subxt\<close> errors, as the conversions of \<open>error.rs\<close> have it, and routes are those of the
  tree-route function, then however often calls fail, streams break off or end, and blocks are
  missing, the listener returns only if subscribing again fails, with that error, or on a panic.
\<close>

theorem listener_survives_disconnects:
  assumes "tree_route_spec TR" and "\<forall>items. Ok items \<in> set subs \<longrightarrow> list_all stream_errors items"
    and "fst (listen_for_all_blocks L TR subs s) = Returned r"
  shows "(\<exists>e. r = Err e \<and> Err e \<in> set subs) \<or> (\<exists>p. r = Panic p)"
  using tree_route_spec.listener_ends [OF assms(1,3,2)] .

theorem listener_survives_disconnects_witness:
  "fst (listen_for_all_blocks ex_lib ex_route [Ok [], Ok [(ex_node Map.empty, Err (Subxt ''lost''))], Err (Subxt ''refused'')]
     (default_cache, [])) = Returned (Err (Subxt ''refused''))"
proof -
  let ?subs = "[Ok [], Ok [(ex_node Map.empty, Err (Subxt ''lost''))], Err (Subxt ''refused'')]"
  have run: "fst (listen_for_all_blocks ex_lib ex_route ?subs (default_cache, [])) = Returned (Err (Subxt ''refused''))"
    by (simp add: load_header_metadata_cache_def)
  have "stream_errors (ex_node Map.empty, Err (Subxt ''lost''))"
    by (simp add: stream_errors_def rpc_errors_def ex_node_def)
  then have "\<forall>items. Ok items \<in> set ?subs \<longrightarrow> list_all stream_errors items" by simp
  from listener_survives_disconnects [OF ex_route_spec this run] run show ?thesis by simp
qed

end
