(* ===== verification/Alert_Types.thy ===== *)
theory Alert_Types
  imports Shared_Types
begin

section \<open>Alerts and monitored events\<close>

text \<open>
  The data types of the alerter: the events of \<open>alerter/src/event_types.rs\<close>, the alert
  payloads of \<open>slots.rs\<close> and \<open>stall_and_reorg.rs\<close>, the \<open>Alert\<close> type of
  \<open>slack.rs\<close> and the error type of \<open>error.rs\<close>. A duration is a number of nanoseconds;
  the standard library bounds it by \<open>DURATION_MAX\<close>, saturating or panicking there as each
  operation says. Account identifiers are 256-bit words.
\<close>

type_synonym duration = nat
type_synonym instant = nat
type_synonym account_id = "256 word"

definition DURATION_MAX :: duration where
  "DURATION_MAX = (2 ^ 64 - 1) * 1000000000 + 999999999"

definition saturating_add :: "duration \<Rightarrow> duration \<Rightarrow> duration" where
  "saturating_add a b = min (a + b) DURATION_MAX"

definition add_duration :: "duration \<Rightarrow> duration \<Rightarrow> (duration, 'e) result" where
  "add_duration a b = (if a + b \<le> DURATION_MAX then Ok (a + b)
     else Panic ''overflow when adding durations'')"

definition from_secs :: "nat \<Rightarrow> duration" where
  "from_secs s = s * 1000000000"

subsection \<open>Monitored events\<close>

datatype transfer_direction = Sender | Receiver

datatype transfer_type = Transfer | Withdraw | Deposit

record transfer_known_account_event =
  tk_direction :: transfer_direction
  tk_transfer_type :: transfer_type
  tk_name :: string
  tk_address :: string
  tk_amount :: u128

record low_balance_event =
  lb_name :: string
  lb_address :: string
  lb_balance :: u128
  lb_threshold :: u128

datatype slashed_reason = InvalidBundle u32 | BadExecutionReceipt hash

record operator_offline =
  oo_operator_id :: u64
  oo_domain_id :: u32
  oo_submitted_bundles :: u64
  oo_expected_bundles :: u64
  oo_min_required_bundles :: u64

datatype event =
    EvTransfer transfer_known_account_event
  | EvLowBalance low_balance_event
  | EvDomainRuntimeUpgraded u32
  | EvDomainInstantiated u32
  | EvFraudProofProcessed u32 "u32 option"
  | EvOperatorSlashed u64 slashed_reason
  | EvOperatorOffline operator_offline
  | EvSudo
  | EvCodeUpdated

subsection \<open>Alert payloads\<close>

record timekeeper_stall =
  ts_last_slot :: u64
  ts_duration :: duration

record timekeeper_recovery =
  tr_slot :: u64
  tr_duration :: duration

record slow_slot =
  sl_slot :: u64
  sl_previous_slot :: u64
  sl_slot_time :: duration
  sl_threshold :: duration

record avg_slow_slot =
  as_slot :: u64
  as_slot_count :: nat
  as_avg_slot_time :: duration
  as_threshold :: duration

record chain_stall =
  cs_last_block :: hash_and_number
  cs_duration :: duration

record chain_recovery =
  cr_best_block :: hash_and_number
  cr_duration :: duration

record chain_reorg =
  co_best_block :: hash_and_number
  co_common_block :: hash_and_number
  co_enacted :: "hash_and_number list"
  co_retracted :: "hash_and_number list"

datatype alert =
    AlertEvent event
  | AlertChainStall chain_stall
  | AlertChainRecovery chain_recovery
  | AlertReorg chain_reorg
  | AlertTimekeeperStall timekeeper_stall
  | AlertTimekeeperRecovery timekeeper_recovery
  | AlertSlowSlot slow_slot
  | AlertAvgSlowSlots avg_slow_slot

subsection \<open>Errors and channels\<close>

datatype alerter_error =
    A_Join string
  | A_Reqwest string
  | A_Rpc string
  | A_Scale string
  | A_BroadRecvErr recv_error
  | A_Io string
  | A_Toml string
  | A_Config string
  | A_Slack string
  | A_App string
  | A_Subspace shared_error

text \<open>
  One iteration's input of a monitor that waits on its channel with a timeout: the timeout
  elapsed, or the channel answered.
\<close>

datatype 'm wait = Elapsed | Received "('m, recv_error) result"

end
