(* ===== verification/Stall_Reorg.thy ===== *)
theory Stall_Reorg
  imports Alert_Types
begin

section \<open>Chain stalls and reorgs\<close>

text \<open>
  \<open>watch_chain_stall_and_reorg\<close> of \<open>alerter/src/stall_and_reorg.rs\<close>: a loop that waits
  for the listener's messages with a timeout. Its state is the accumulated length of the
  stall, if one is on, the last best block, and the log of the alerts it sent.
\<close>

record stall_config =
  non_block_import_threshold :: duration
  reorg_depth_threshold :: nat

record stall_state =
  timeout_fired :: "duration option"
  maybe_last_best_block :: "hash_and_number option"
  stall_alerts :: "alert list"

definition stall_init :: stall_state where
  "stall_init = \<lparr>timeout_fired = None, maybe_last_best_block = None, stall_alerts = []\<rparr>"

subsection \<open>One iteration\<close>

definition block_hn :: "block_ext \<Rightarrow> hash_and_number" where
  "block_hn b = \<lparr>hn_number = be_number b, hn_hash = be_hash b\<rparr>"

definition recovery_alerts :: "duration option \<Rightarrow> hash_and_number \<Rightarrow> alert list" where
  "recovery_alerts last_timeout best = (case last_timeout of None \<Rightarrow> []
     | Some t \<Rightarrow> [AlertChainRecovery \<lparr>cr_best_block = best, cr_duration = t\<rparr>])"

definition reorg_alerts :: "nat \<Rightarrow> reorg_data option \<Rightarrow> hash_and_number \<Rightarrow> alert list" where
  "reorg_alerts threshold rd best = (case rd of None \<Rightarrow> []
     | Some r \<Rightarrow> if threshold \<le> length (rd_retracted r)
         then [AlertReorg \<lparr>co_best_block = best, co_common_block = rd_common_block r,
           co_enacted = rd_enacted r, co_retracted = rd_retracted r\<rparr>]
         else [])"

definition on_blocks :: "stall_config \<Rightarrow> blocks_ext \<Rightarrow> (stall_state, unit, alerter_error) prog" where
  "on_blocks cfg m st =
     (case bx_blocks m of
        [] \<Rightarrow> (Panic ''There is always at least one block imported; qed'', st\<lparr>timeout_fired := None\<rparr>)
      | _ \<Rightarrow>
          (let best = block_hn (last (bx_blocks m))
           in (Ok (), \<lparr>timeout_fired = None, maybe_last_best_block = Some best,
                stall_alerts = stall_alerts st @ recovery_alerts (timeout_fired st) best
                  @ reorg_alerts (reorg_depth_threshold cfg) (bx_maybe_reorg_data m) best\<rparr>)))"

definition on_timeout :: "stall_config \<Rightarrow> stall_state \<Rightarrow> stall_state" where
  "on_timeout cfg st =
     (let d = (case timeout_fired st of None \<Rightarrow> non_block_import_threshold cfg
                | Some t \<Rightarrow> saturating_add t (non_block_import_threshold cfg))
      in st\<lparr>timeout_fired := Some d,
           stall_alerts := stall_alerts st @
             (case maybe_last_best_block st of None \<Rightarrow> []
              | Some b \<Rightarrow> [AlertChainStall \<lparr>cs_last_block = b, cs_duration = d\<rparr>])\<rparr>)"

fun stall_step :: "stall_config \<Rightarrow> blocks_ext wait \<Rightarrow> (stall_state, unit, alerter_error) prog" where
  "stall_step cfg Elapsed st = (Ok (), on_timeout cfg st)"
| "stall_step cfg (Received (Ok m)) st = on_blocks cfg m st"
| "stall_step cfg (Received (Err e)) st = (Err (A_BroadRecvErr e), st)"
| "stall_step cfg (Received (Panic p)) st = (Panic p, st)"

text \<open>The loop over the inputs received so far: it goes on until an iteration fails.\<close>

definition watch_chain_stall_and_reorg ::
  "stall_config \<Rightarrow> blocks_ext wait list \<Rightarrow> (stall_state, unit, alerter_error) prog" where
  "watch_chain_stall_and_reorg cfg inputs = for_prog inputs (stall_step cfg)"

subsection \<open>Lemmas\<close>

lemma watch_append_Ok:
  "watch_chain_stall_and_reorg cfg xs st = (Ok (), st') \<Longrightarrow>
     watch_chain_stall_and_reorg cfg (xs @ ys) st = watch_chain_stall_and_reorg cfg ys st'"
  by (simp add: watch_chain_stall_and_reorg_def for_prog_append then_prog_Ok)

text \<open>The length of a stall after \<open>k\<close> timeouts in a row.\<close>

definition stall_len :: "stall_config \<Rightarrow> nat \<Rightarrow> duration" where
  "stall_len cfg k = (if k \<le> 1 then k * non_block_import_threshold cfg
     else min (k * non_block_import_threshold cfg) DURATION_MAX)"

lemma stall_len_Suc:
  "0 < k \<Longrightarrow> non_block_import_threshold cfg \<le> DURATION_MAX \<Longrightarrow>
     saturating_add (stall_len cfg k) (non_block_import_threshold cfg) = stall_len cfg (Suc k)"
  by (auto simp: stall_len_def saturating_add_def min_def)

lemma timeouts_run:
  assumes "timeout_fired st = None" "maybe_last_best_block st = Some b"
    and "non_block_import_threshold cfg \<le> DURATION_MAX"
  shows "watch_chain_stall_and_reorg cfg (replicate k Elapsed) st =
    (Ok (), st\<lparr>timeout_fired := (if k = 0 then None else Some (stall_len cfg k)),
       stall_alerts := stall_alerts st @
         map (\<lambda>i. AlertChainStall \<lparr>cs_last_block = b, cs_duration = stall_len cfg i\<rparr>) [1..<Suc k]\<rparr>)"
proof (induction k)
  case 0
  then show ?case using assms by (simp add: watch_chain_stall_and_reorg_def)
next
  case (Suc k)
  let ?st = "st\<lparr>timeout_fired := (if k = 0 then None else Some (stall_len cfg k)),
       stall_alerts := stall_alerts st @
         map (\<lambda>i. AlertChainStall \<lparr>cs_last_block = b, cs_duration = stall_len cfg i\<rparr>) [1..<Suc k]\<rparr>"
  have "replicate (Suc k) Elapsed = replicate k Elapsed @ [Elapsed]"
    by (simp add: replicate_append_same)
  then have "watch_chain_stall_and_reorg cfg (replicate (Suc k) Elapsed) st =
      watch_chain_stall_and_reorg cfg [Elapsed] ?st"
    using watch_append_Ok [OF Suc] by metis
  also have "\<dots> = (Ok (), on_timeout cfg ?st)"
    by (simp add: watch_chain_stall_and_reorg_def then_prog_def bind_prog_def)
  also have "on_timeout cfg ?st = st\<lparr>timeout_fired := Some (stall_len cfg (Suc k)),
       stall_alerts := stall_alerts st @
         map (\<lambda>i. AlertChainStall \<lparr>cs_last_block = b, cs_duration = stall_len cfg i\<rparr>) [1..<Suc (Suc k)]\<rparr>"
    using assms stall_len_Suc [of k cfg] by (auto simp: on_timeout_def Let_def stall_len_def)
  finally show ?case by simp
qed

subsection \<open>Properties\<close>

text \<open>
  C24: a stall of \<open>k\<close> silent periods after a block was seen raises one stall alert per period,
  the \<open>i\<close>-th reporting \<open>i\<close> times the threshold, and the next message raises exactly one
  recovery alert that reports the whole stall, then a reorg alert when it is due, and leaves
  the monitor with no stall pending.
\<close>

theorem stall_then_recovery:
  assumes "timeout_fired st = None" and "maybe_last_best_block st = Some b"
    and "k * non_block_import_threshold cfg \<le> DURATION_MAX"
    and "0 < k" and "bx_blocks m \<noteq> []"
  shows "watch_chain_stall_and_reorg cfg (replicate k Elapsed @ [Received (Ok m)]) st =
    (Ok (), \<lparr>timeout_fired = None, maybe_last_best_block = Some (block_hn (last (bx_blocks m))),
      stall_alerts = stall_alerts st @
        map (\<lambda>i. AlertChainStall \<lparr>cs_last_block = b,
          cs_duration = i * non_block_import_threshold cfg\<rparr>) [1..<Suc k] @
        [AlertChainRecovery \<lparr>cr_best_block = block_hn (last (bx_blocks m)),
          cr_duration = k * non_block_import_threshold cfg\<rparr>] @
        reorg_alerts (reorg_depth_threshold cfg) (bx_maybe_reorg_data m)
          (block_hn (last (bx_blocks m)))\<rparr>)"
proof -
  have le: "i * non_block_import_threshold cfg \<le> DURATION_MAX" if "i \<le> k" for i
    using mult_le_mono1 [OF that] assms(3) le_trans by blast
  then have len: "stall_len cfg i = i * non_block_import_threshold cfg" if "i \<le> k" for i
    using that by (simp add: stall_len_def)
  have thr: "non_block_import_threshold cfg \<le> DURATION_MAX" using le [of 1] assms(4) by simp
  have maps: "map (\<lambda>i. AlertChainStall \<lparr>cs_last_block = b, cs_duration = stall_len cfg i\<rparr>) [1..<Suc k] =
      map (\<lambda>i. AlertChainStall \<lparr>cs_last_block = b,
        cs_duration = i * non_block_import_threshold cfg\<rparr>) [1..<Suc k]"
    using len by (intro map_cong refl) auto
  show ?thesis
    unfolding watch_append_Ok [OF timeouts_run [OF assms(1,2) thr]] maps
    using assms len [of k]
    by (simp add: watch_chain_stall_and_reorg_def then_prog_def bind_prog_def on_blocks_def Let_def
        recovery_alerts_def split: list.split del: upt_Suc)
qed

definition ex_stall_cfg :: stall_config where
  "ex_stall_cfg = \<lparr>non_block_import_threshold = from_secs 60, reorg_depth_threshold = 6\<rparr>"

definition ex_msg :: "reorg_data option \<Rightarrow> blocks_ext" where
  "ex_msg rd = \<lparr>bx_blocks = [\<lparr>be_number = 8, be_hash = 80, be_parent_hash = 70, be_state_root = 0,
     be_extrinsics_root = 0\<rparr>], bx_maybe_reorg_data = rd\<rparr>"

theorem stall_then_recovery_witness:
  "stall_alerts (snd (watch_chain_stall_and_reorg ex_stall_cfg
      (replicate 2 Elapsed @ [Received (Ok (ex_msg None))])
      (stall_init\<lparr>maybe_last_best_block := Some \<lparr>hn_number = 7, hn_hash = 70\<rparr>\<rparr>))) =
   [AlertChainStall \<lparr>cs_last_block = \<lparr>hn_number = 7, hn_hash = 70\<rparr>, cs_duration = from_secs 60\<rparr>,
    AlertChainStall \<lparr>cs_last_block = \<lparr>hn_number = 7, hn_hash = 70\<rparr>, cs_duration = from_secs 120\<rparr>,
    AlertChainRecovery \<lparr>cr_best_block = \<lparr>hn_number = 8, hn_hash = 80\<rparr>, cr_duration = from_secs 120\<rparr>]"
proof -
  let ?st = "stall_init\<lparr>maybe_last_best_block := Some \<lparr>hn_number = 7, hn_hash = 70\<rparr>\<rparr>"
  have h: "timeout_fired ?st = None" "maybe_last_best_block ?st = Some \<lparr>hn_number = 7, hn_hash = 70\<rparr>"
    "2 * non_block_import_threshold ex_stall_cfg \<le> DURATION_MAX" "(0::nat) < 2"
    "bx_blocks (ex_msg None) \<noteq> []"
    by (simp_all add: stall_init_def ex_stall_cfg_def DURATION_MAX_def from_secs_def ex_msg_def)
  show ?thesis
    unfolding stall_then_recovery [OF h]
    by (simp add: stall_init_def ex_stall_cfg_def from_secs_def ex_msg_def block_hn_def
        reorg_alerts_def upt_rec [of _ 3])
qed

text \<open>
  A message raises a reorg alert exactly when it reports at least as many retracted blocks
  as the configured depth (the depth itself included), and the alert carries the message's
  common block, enacted and retracted blocks and its newest block.
\<close>

theorem reorg_alert_iff:
  assumes "bx_blocks m \<noteq> []"
  shows "AlertReorg a \<in> set (stall_alerts (snd (stall_step cfg (Received (Ok m)) st))) \<longleftrightarrow>
     AlertReorg a \<in> set (stall_alerts st) \<or>
     (\<exists>r. bx_maybe_reorg_data m = Some r \<and> reorg_depth_threshold cfg \<le> length (rd_retracted r) \<and>
        a = \<lparr>co_best_block = block_hn (last (bx_blocks m)), co_common_block = rd_common_block r,
          co_enacted = rd_enacted r, co_retracted = rd_retracted r\<rparr>)"
proof (cases "bx_blocks m")
  case Nil
  with assms show ?thesis by simp
next
  case (Cons x xs)
  then show ?thesis
    by (cases "bx_maybe_reorg_data m"; cases "timeout_fired st")
      (auto simp: on_blocks_def Let_def recovery_alerts_def reorg_alerts_def)
qed

theorem reorg_alert_iff_witness:
  "AlertReorg \<lparr>co_best_block = \<lparr>hn_number = 8, hn_hash = 80\<rparr>,
      co_common_block = \<lparr>hn_number = 1, hn_hash = 1\<rparr>, co_enacted = [],
      co_retracted = replicate 6 \<lparr>hn_number = 2, hn_hash = 2\<rparr>\<rparr>
   \<in> set (stall_alerts (snd (stall_step ex_stall_cfg (Received (Ok (ex_msg (Some
      \<lparr>rd_enacted = [], rd_retracted = replicate 6 \<lparr>hn_number = 2, hn_hash = 2\<rparr>,
        rd_common_block = \<lparr>hn_number = 1, hn_hash = 1\<rparr>\<rparr>)))) stall_init)))"
  by (subst reorg_alert_iff) (simp_all add: ex_msg_def ex_stall_cfg_def block_hn_def)

text \<open>
  The monitor never fails and never panics on messages that carry a block: it ends only
  when its channel is closed or it lagged behind, and then with that error.
\<close>

theorem stall_monitor_runs_on:
  assumes "list_all (\<lambda>i. case i of Received (Ok m) \<Rightarrow> bx_blocks m \<noteq> [] | Received _ \<Rightarrow> False
    | Elapsed \<Rightarrow> True) inputs"
  shows "fst (watch_chain_stall_and_reorg cfg inputs st) = Ok () \<and>
    fst (watch_chain_stall_and_reorg cfg (inputs @ [Received (Err e)]) st) = Err (A_BroadRecvErr e)"
proof -
  have "\<exists>st'. watch_chain_stall_and_reorg cfg inputs st = (Ok (), st')"
    using assms
  proof (induction inputs arbitrary: st)
    case Nil
    then show ?case by (simp add: watch_chain_stall_and_reorg_def)
  next
    case (Cons i inputs)
    then have "\<exists>st1. stall_step cfg i st = (Ok (), st1)"
      by (auto simp: on_blocks_def Let_def split: wait.splits result.splits list.splits)
    with Cons show ?case
      by (auto simp: watch_chain_stall_and_reorg_def then_prog_Ok)
  qed
  then obtain st' where run: "watch_chain_stall_and_reorg cfg inputs st = (Ok (), st')" ..
  show ?thesis
    unfolding watch_append_Ok [OF run] using run
    by (simp add: watch_chain_stall_and_reorg_def then_prog_def bind_prog_def)
qed

theorem stall_monitor_runs_on_witness:
  "fst (watch_chain_stall_and_reorg ex_stall_cfg ([Elapsed, Received (Ok (ex_msg None))]
     @ [Received (Err (Lagged 3))]) stall_init) = Err (A_BroadRecvErr (Lagged 3))"
proof -
  have "list_all (\<lambda>i. case i of Received (Ok m) \<Rightarrow> bx_blocks m \<noteq> [] | Received _ \<Rightarrow> False
      | Elapsed \<Rightarrow> True) [Elapsed, Received (Ok (ex_msg None))]"
    by (simp add: ex_msg_def)
  from stall_monitor_runs_on [OF this] show ?thesis by blast
qed

end
