(* ===== verification/Slots.thy ===== *)
theory Slots
  imports Alert_Types
begin

section \<open>The slot monitor\<close>

text \<open>
  \<open>monitor_slots\<close> of \<open>alerter/src/slots.rs\<close>: a loop that waits for the proofs of time
  gossiped by the network, with a timeout of thirty seconds. Its state is the length of the
  stall that is on, if any, the arrival time of the last slot, a window of the last 600 slots
  and the log of the alerts it sent.

  The window is a \<open>BoundedVec\<close> of a library the sources only call: its \<open>force_push\<close>
  is the parameter \<open>push\<close> of the definitions, and the locale \<open>bounded_window\<close> states
  what the monitor relies on: below its bound it appends, and at the bound the oldest element
  makes room.
\<close>

record gossip_proof =
  gp_slot :: u64
  gp_seed :: bytes
  gp_slot_iterations :: u32
  gp_checkpoints :: "bytes list"

record pot_info =
  pi_at :: instant
  pi_proof :: gossip_proof

record slot_details =
  sd_proof :: gossip_proof
  sd_duration :: duration

record slots_config =
  per_slot_threshold :: duration
  avg_slot_threshold :: duration

record slot_state =
  sm_timeout_fired :: "duration option"
  sm_last_instant :: instant
  sm_slots :: "slot_details list"
  sm_alerts :: "alert list"

type_synonym force_push = "slot_details list \<Rightarrow> slot_details \<Rightarrow> slot_details list"

definition SLOT_TIMEOUT :: duration where
  "SLOT_TIMEOUT = from_secs 30"

definition MAX_SLOTS :: nat where
  "MAX_SLOTS = 600"

definition slots_init :: "instant \<Rightarrow> slot_state" where
  "slots_init now = \<lparr>sm_timeout_fired = None, sm_last_instant = now, sm_slots = [], sm_alerts = []\<rparr>"

subsection \<open>One iteration\<close>

primrec sum_durations :: "duration \<Rightarrow> duration list \<Rightarrow> (duration, 'e) result" where
  "sum_durations acc [] = Ok acc"
| "sum_durations acc (d # ds) = bind_result (add_duration acc d) (\<lambda>a. sum_durations a ds)"

definition recovered :: "duration option \<Rightarrow> u64 \<Rightarrow> alert list" where
  "recovered last_timeout slot = (case last_timeout of None \<Rightarrow> []
     | Some t \<Rightarrow> [AlertTimekeeperRecovery \<lparr>tr_slot = slot, tr_duration = t\<rparr>])"

definition slow_slot_alerts :: "slots_config \<Rightarrow> u64 \<Rightarrow> u64 \<Rightarrow> duration \<Rightarrow> alert list" where
  "slow_slot_alerts cfg slot prev d = (if per_slot_threshold cfg < d
     then [AlertSlowSlot \<lparr>sl_slot = slot, sl_previous_slot = prev, sl_slot_time = d,
       sl_threshold = per_slot_threshold cfg\<rparr>] else [])"

definition avg_alerts :: "slots_config \<Rightarrow> u64 \<Rightarrow> nat \<Rightarrow> duration \<Rightarrow> alert list" where
  "avg_alerts cfg slot len avg = (if MAX_SLOTS \<le> len \<and> avg_slot_threshold cfg < avg
     then [AlertAvgSlowSlots \<lparr>as_slot = slot, as_slot_count = len, as_avg_slot_time = avg,
       as_threshold = avg_slot_threshold cfg\<rparr>] else [])"

text \<open>The accepted extension of the chain of slots by one.\<close>

definition extend_slots ::
  "force_push \<Rightarrow> slots_config \<Rightarrow> slot_details \<Rightarrow> pot_info \<Rightarrow> (slot_state, unit, alerter_error) prog" where
  "extend_slots push cfg last_slot info st =
     (let proof = pi_proof info;
          duration = pi_at info - sm_last_instant st;
          slots = push (sm_slots st) \<lparr>sd_proof = proof, sd_duration = duration\<rparr>;
          alerts = sm_alerts st @ recovered (sm_timeout_fired st) (gp_slot proof)
            @ slow_slot_alerts cfg (gp_slot proof) (gp_slot (sd_proof last_slot)) duration;
          st' = \<lparr>sm_timeout_fired = None, sm_last_instant = pi_at info, sm_slots = slots,
            sm_alerts = alerts\<rparr>
      in case sum_durations 0 (map sd_duration slots) of
           Ok dsum \<Rightarrow> (Ok (), st'\<lparr>sm_alerts := alerts @
             avg_alerts cfg (gp_slot proof) (length slots) (dsum div length slots)\<rparr>)
         | Err e \<Rightarrow> (Err e, st')
         | Panic p \<Rightarrow> (Panic p, st'))"

definition on_slot ::
  "force_push \<Rightarrow> slots_config \<Rightarrow> pot_info \<Rightarrow> (slot_state, unit, alerter_error) prog" where
  "on_slot push cfg info st =
     (case sm_slots st of
        [] \<Rightarrow> (Ok (), st\<lparr>sm_slots := push [] \<lparr>sd_proof = pi_proof info,
                 sd_duration = pi_at info - sm_last_instant st\<rparr>,
               sm_last_instant := pi_at info\<rparr>)
      | _ \<Rightarrow>
         (let last_slot = last (sm_slots st)
          in case add_checked (gp_slot (sd_proof last_slot)) 1 of
               Ok next_slot \<Rightarrow> if gp_slot (pi_proof info) \<noteq> next_slot then (Ok (), st)
                 else extend_slots push cfg last_slot info st
             | Err e \<Rightarrow> (Err e, st)
             | Panic p \<Rightarrow> (Panic p, st)))"

definition on_slot_timeout :: "slot_state \<Rightarrow> slot_state" where
  "on_slot_timeout st =
     (let d = (case sm_timeout_fired st of None \<Rightarrow> SLOT_TIMEOUT
                | Some t \<Rightarrow> saturating_add t SLOT_TIMEOUT)
      in st\<lparr>sm_timeout_fired := Some d,
           sm_alerts := sm_alerts st @
             (case sm_slots st of [] \<Rightarrow> []
              | _ \<Rightarrow> [AlertTimekeeperStall
                  \<lparr>ts_last_slot = gp_slot (sd_proof (last (sm_slots st))), ts_duration = d\<rparr>])\<rparr>)"

fun slot_step ::
  "force_push \<Rightarrow> slots_config \<Rightarrow> pot_info wait \<Rightarrow> (slot_state, unit, alerter_error) prog" where
  "slot_step push cfg Elapsed st = (Ok (), on_slot_timeout st)"
| "slot_step push cfg (Received (Ok info)) st = on_slot push cfg info st"
| "slot_step push cfg (Received (Err e)) st = (Err (A_BroadRecvErr e), st)"
| "slot_step push cfg (Received (Panic p)) st = (Panic p, st)"

definition monitor_slots ::
  "force_push \<Rightarrow> slots_config \<Rightarrow> pot_info wait list \<Rightarrow> (slot_state, unit, alerter_error) prog" where
  "monitor_slots push cfg inputs = for_prog inputs (slot_step push cfg)"

subsection \<open>Sums and averages of durations\<close>

lemma sum_durations_Ok_iff:
  "sum_durations acc ds = Ok t \<longleftrightarrow>
     t = acc + sum_list ds \<and> (ds = [] \<or> acc + sum_list ds \<le> DURATION_MAX)"
proof (induction ds arbitrary: acc)
  case Nil
  then show ?case by auto
next
  case (Cons d ds)
  show ?case
    by (auto simp: add_duration_def Cons.IH add.assoc)
qed

lemma sum_durations_not_Err [simp]: "sum_durations acc ds \<noteq> Err e"
  by (induction ds arbitrary: acc) (auto simp: add_duration_def)

subsection \<open>The window\<close>

definition window_ok :: "slot_details list \<Rightarrow> bool" where
  "window_ok xs \<longleftrightarrow> length xs \<le> MAX_SLOTS \<and>
     successively (\<lambda>a b. unat (gp_slot (sd_proof b)) = Suc (unat (gp_slot (sd_proof a)))) xs"

lemma add_checked_one_Ok:
  "add_checked (a :: 'a::len word) 1 = Ok b \<Longrightarrow> unat b = Suc (unat a)"
  by (auto simp: add_checked_Ok_iff)

lemma successively_tl: "successively P xs \<Longrightarrow> successively P (tl xs)"
  by (cases xs rule: list.exhaust) (auto simp: successively_Cons)

lemma last_tl_nonempty: "tl xs \<noteq> [] \<Longrightarrow> last (tl xs) = last xs"
  by (cases xs) auto

locale bounded_window =
  fixes push :: force_push
  assumes push_below: "length xs < MAX_SLOTS \<Longrightarrow> push xs x = xs @ [x]"
    and push_full: "length xs = MAX_SLOTS \<Longrightarrow> push xs x = tl xs @ [x]"
begin

lemma push_window:
  assumes "length xs \<le> MAX_SLOTS"
  shows "push xs x = drop (Suc (length xs) - MAX_SLOTS) xs @ [x]"
proof (cases "length xs < MAX_SLOTS")
  case True
  then show ?thesis by (simp add: push_below)
next
  case False
  with assms show ?thesis by (simp add: push_full drop_Suc)
qed

lemma push_window_ok:
  assumes "window_ok xs"
    and "xs \<noteq> [] \<Longrightarrow> unat (gp_slot (sd_proof x)) = Suc (unat (gp_slot (sd_proof (last xs))))"
  shows "window_ok (push xs x)"
proof (cases "length xs < MAX_SLOTS")
  case True
  with assms show ?thesis
    by (auto simp: push_below window_ok_def successively_append_iff)
next
  case False
  with assms have len: "length xs = MAX_SLOTS" by (simp add: window_ok_def)
  then have ne: "xs \<noteq> []" by (auto simp: MAX_SLOTS_def)
  have "successively (\<lambda>a b. unat (gp_slot (sd_proof b)) = Suc (unat (gp_slot (sd_proof a)))) (tl xs)"
    using assms(1) by (simp add: window_ok_def successively_tl)
  then show ?thesis
    using len assms(2) [OF ne] ne
    by (cases "tl xs = []")
      (auto simp: push_full window_ok_def successively_append_iff last_tl_nonempty MAX_SLOTS_def)
qed

lemma step_window_ok:
  assumes "window_ok (sm_slots st)"
  shows "window_ok (sm_slots (snd (slot_step push cfg i st)))"
proof (cases i)
  case Elapsed
  with assms show ?thesis by (simp add: on_slot_timeout_def Let_def)
next
  case (Received r)
  show ?thesis
  proof (cases r)
    case (Ok info)
    have first: "window_ok (push [] x)" for x
      using push_window_ok [of "[]" x] by (simp add: window_ok_def)
    show ?thesis
    proof (cases "sm_slots st")
      case Nil
      with Received Ok first show ?thesis by (simp add: on_slot_def)
    next
      case (Cons a as)
      let ?l = "last (sm_slots st)"
      show ?thesis
      proof (cases "add_checked (gp_slot (sd_proof ?l)) 1 = (Ok (gp_slot (pi_proof info)) :: (u64, alerter_error) result)")
        case True
        then have "unat (gp_slot (pi_proof info)) = Suc (unat (gp_slot (sd_proof ?l)))"
          by (rule add_checked_one_Ok)
        then have "window_ok (push (sm_slots st)
            \<lparr>sd_proof = pi_proof info, sd_duration = pi_at info - sm_last_instant st\<rparr>)"
          by (intro push_window_ok assms) simp
        with Received Ok Cons True show ?thesis
          by (auto simp: on_slot_def extend_slots_def Let_def split: result.splits)
      next
        case False
        with Received Ok Cons assms show ?thesis
          by (auto simp: on_slot_def Let_def split: result.splits)
      qed
    qed
  qed (use Received assms in auto)
qed

lemma monitor_window_ok:
  "window_ok (sm_slots st) \<Longrightarrow> window_ok (sm_slots (snd (monitor_slots push cfg inputs st)))"
proof -
  have "preserves (\<lambda>st. window_ok (sm_slots st)) (monitor_slots push cfg inputs)"
    unfolding monitor_slots_def
    by (rule preserves_for) (simp add: preserves_def step_window_ok)
  then show "window_ok (sm_slots st) \<Longrightarrow> ?thesis" by (rule preservesD)
qed

end

text \<open>The sliding window of the last 600 slots provides the interface.\<close>

definition sliding_push :: force_push where
  "sliding_push xs x = (if length xs < MAX_SLOTS then xs @ [x] else tl xs @ [x])"

interpretation sliding: bounded_window sliding_push
  by unfold_locales (simp_all add: sliding_push_def)

subsection \<open>Properties\<close>

text \<open>
  C35: whatever the network sends, the monitor's window never holds more than 600 slots and the
  slots in it are consecutive, in order and without a gap, also after an error or a panic.
\<close>

theorem slots_window_consecutive:
  assumes "bounded_window push"
  shows "window_ok (sm_slots (snd (monitor_slots push cfg inputs (slots_init now))))"
  by (rule bounded_window.monitor_window_ok [OF assms])
    (simp add: slots_init_def window_ok_def)

definition ex_slot :: "u64 \<Rightarrow> instant \<Rightarrow> pot_info wait" where
  "ex_slot n t = Received (Ok \<lparr>pi_at = t, pi_proof = \<lparr>gp_slot = n, gp_seed = [],
     gp_slot_iterations = 1, gp_checkpoints = []\<rparr>\<rparr>)"

definition ex_slots_cfg :: slots_config where
  "ex_slots_cfg = \<lparr>per_slot_threshold = 1200000000, avg_slot_threshold = 1100000000\<rparr>"

theorem slots_window_consecutive_witness:
  "window_ok (sm_slots (snd (monitor_slots sliding_push ex_slots_cfg
     [ex_slot 7 1000, Elapsed, ex_slot 8 2000, ex_slot 10 3000] (slots_init 0))))"
  by (rule slots_window_consecutive) (rule sliding.bounded_window_axioms)

text \<open>
  C23: a slot that extends the last one raises, in this order, a recovery alert exactly when a
  stall was pending, a slow-slot alert exactly when it took longer than the per-slot threshold,
  and an average alert exactly when the window holds 600 slots and the mean of their durations,
  rounded down, is above the average threshold; the window slides by one, the stall is over and
  the clock of the next slot starts at this one's arrival.
\<close>

theorem slot_extension_alerts:
  assumes "bounded_window push" and "length (sm_slots st) \<le> MAX_SLOTS" and "sm_slots st \<noteq> []"
    and "unat (gp_slot (pi_proof info)) = Suc (unat (gp_slot (sd_proof (last (sm_slots st)))))"
    and "sum_list (map sd_duration (sm_slots st)) + (pi_at info - sm_last_instant st) \<le> DURATION_MAX"
  shows "\<exists>window. window = drop (Suc (length (sm_slots st)) - MAX_SLOTS) (sm_slots st) @
        [\<lparr>sd_proof = pi_proof info, sd_duration = pi_at info - sm_last_instant st\<rparr>] \<and>
     slot_step push cfg (Received (Ok info)) st =
      (Ok (), \<lparr>sm_timeout_fired = None, sm_last_instant = pi_at info, sm_slots = window,
        sm_alerts = sm_alerts st @
          (case sm_timeout_fired st of None \<Rightarrow> []
           | Some t \<Rightarrow> [AlertTimekeeperRecovery \<lparr>tr_slot = gp_slot (pi_proof info), tr_duration = t\<rparr>]) @
          (if per_slot_threshold cfg < pi_at info - sm_last_instant st
           then [AlertSlowSlot \<lparr>sl_slot = gp_slot (pi_proof info),
             sl_previous_slot = gp_slot (sd_proof (last (sm_slots st))),
             sl_slot_time = pi_at info - sm_last_instant st,
             sl_threshold = per_slot_threshold cfg\<rparr>] else []) @
          (if length window = MAX_SLOTS \<and>
             avg_slot_threshold cfg < sum_list (map sd_duration window) div MAX_SLOTS
           then [AlertAvgSlowSlots \<lparr>as_slot = gp_slot (pi_proof info), as_slot_count = MAX_SLOTS,
             as_avg_slot_time = sum_list (map sd_duration window) div MAX_SLOTS,
             as_threshold = avg_slot_threshold cfg\<rparr>] else [])\<rparr>)"
proof -
  let ?x = "\<lparr>sd_proof = pi_proof info, sd_duration = pi_at info - sm_last_instant st\<rparr>"
  let ?k = "Suc (length (sm_slots st)) - MAX_SLOTS"
  let ?w = "drop ?k (sm_slots st) @ [?x]"
  let ?n = "gp_slot (sd_proof (last (sm_slots st)))"
  have push: "push (sm_slots st) ?x = ?w"
    by (rule bounded_window.push_window [OF assms(1,2)])
  have len: "length ?w \<le> MAX_SLOTS" using assms(2) by (simp add: MAX_SLOTS_def)
  have "sum_list (map sd_duration (sm_slots st)) =
      sum_list (map sd_duration (take ?k (sm_slots st))) + sum_list (map sd_duration (drop ?k (sm_slots st)))"
    by (metis append_take_drop_id map_append sum_list_append)
  then have "sum_list (map sd_duration ?w) \<le> DURATION_MAX" using assms(5) by simp
  then have sum: "sum_durations 0 (map sd_duration ?w) = (Ok (sum_list (map sd_duration ?w)) :: (duration, alerter_error) result)"
    by (simp add: sum_durations_Ok_iff del: map_append sum_list_append)
  have "gp_slot (pi_proof info) = ?n + 1"
    using assms(4) by (metis add.commute of_nat_Suc of_nat_unat ucast_id)
  then have next_slot: "add_checked ?n 1 = (Ok (gp_slot (pi_proof info)) :: (u64, alerter_error) result)"
    using assms(4) by (simp add: add_checked_Ok_iff)
  have "length ?w = MAX_SLOTS \<longleftrightarrow> MAX_SLOTS \<le> length ?w" using len by auto
  moreover obtain a as where "sm_slots st = a # as" using assms(3) by (auto simp: neq_Nil_conv)
  ultimately show ?thesis
    using next_slot sum push
    by (intro exI [of _ ?w])
      (auto simp: on_slot_def extend_slots_def Let_def recovered_def slow_slot_alerts_def avg_alerts_def
        simp del: map_append sum_list_append length_append)
qed

theorem slot_extension_alerts_witness:
  "\<exists>window st'. slot_step sliding_push ex_slots_cfg (ex_slot 8 2500000000)
     \<lparr>sm_timeout_fired = Some (from_secs 30), sm_last_instant = 1000000000,
       sm_slots = [\<lparr>sd_proof = \<lparr>gp_slot = 7, gp_seed = [], gp_slot_iterations = 1,
         gp_checkpoints = []\<rparr>, sd_duration = 0\<rparr>], sm_alerts = []\<rparr> =
     (Ok (), \<lparr>sm_timeout_fired = None, sm_last_instant = 2500000000, sm_slots = window,
       sm_alerts = [AlertTimekeeperRecovery \<lparr>tr_slot = 8, tr_duration = from_secs 30\<rparr>,
         AlertSlowSlot \<lparr>sl_slot = 8, sl_previous_slot = 7, sl_slot_time = 1500000000,
           sl_threshold = 1200000000\<rparr>]\<rparr>)"
proof -
  let ?info = "\<lparr>pi_at = 2500000000, pi_proof = \<lparr>gp_slot = 8, gp_seed = [],
     gp_slot_iterations = 1, gp_checkpoints = []\<rparr>\<rparr>"
  let ?st = "\<lparr>sm_timeout_fired = Some (from_secs 30), sm_last_instant = 1000000000,
       sm_slots = [\<lparr>sd_proof = \<lparr>gp_slot = 7, gp_seed = [], gp_slot_iterations = 1,
         gp_checkpoints = []\<rparr>, sd_duration = 0\<rparr>], sm_alerts = []\<rparr>"
  have h: "length (sm_slots ?st) \<le> MAX_SLOTS" "sm_slots ?st \<noteq> []"
    "unat (gp_slot (pi_proof ?info)) = Suc (unat (gp_slot (sd_proof (last (sm_slots ?st)))))"
    "sum_list (map sd_duration (sm_slots ?st)) + (pi_at ?info - sm_last_instant ?st) \<le> DURATION_MAX"
    by (simp_all add: MAX_SLOTS_def DURATION_MAX_def)
  from slot_extension_alerts [OF sliding.bounded_window_axioms h, of ex_slots_cfg]
  show ?thesis
    by (simp add: ex_slot_def ex_slots_cfg_def MAX_SLOTS_def)
qed

lemma deaf_step:
  assumes "sm_slots st \<noteq> []" and "n = gp_slot (sd_proof (last (sm_slots st)))" and "unat n + 1 < 2 ^ 64"
    and "case i of Elapsed \<Rightarrow> True
      | Received r \<Rightarrow> (case r of Ok info \<Rightarrow> gp_slot (pi_proof info) \<noteq> n + 1 | _ \<Rightarrow> False)"
  obtains st' ds where "slot_step push cfg i st = (Ok (), st')" "sm_slots st' = sm_slots st"
    "sm_last_instant st' = sm_last_instant st" "length ds = length (filter (\<lambda>i. i = Elapsed) [i])"
    "sm_alerts st' = sm_alerts st @ map (\<lambda>d. AlertTimekeeperStall \<lparr>ts_last_slot = n, ts_duration = d\<rparr>) ds"
proof -
  obtain a as where slots: "sm_slots st = a # as" using assms(1) by (auto simp: neq_Nil_conv)
  show thesis
  proof (cases i)
    case Elapsed
    with slots assms(2) show ?thesis
      by (intro that [of "on_slot_timeout st" "[case sm_timeout_fired st of None \<Rightarrow> SLOT_TIMEOUT
          | Some t \<Rightarrow> saturating_add t SLOT_TIMEOUT]"]) (auto simp: on_slot_timeout_def Let_def)
  next
    case (Received r)
    with assms(4) obtain info where info: "r = Ok info" "gp_slot (pi_proof info) \<noteq> n + 1"
      by (auto split: result.splits)
    have "add_checked n 1 = (Ok (n + 1) :: (u64, alerter_error) result)"
      using assms(3) by (simp add: add_checked_def)
    then show ?thesis
      using Received info slots assms(2) by (intro that [of st "[]"]) (auto simp: on_slot_def Let_def)
  qed
qed

text \<open>
  C38: once a slot number is missed the monitor is deaf: whatever slots arrive later, none of them
  is the successor of the last accepted one, so the window, the clock and the slow-slot
  and average alerts stay frozen for good; only stall alerts for the old slot are still
  raised.
\<close>

theorem missed_slot_freezes_monitor:
  assumes "sm_slots st \<noteq> []" and "n = gp_slot (sd_proof (last (sm_slots st)))"
    and "unat n + 1 < 2 ^ 64"
    and "list_all (\<lambda>i. case i of Elapsed \<Rightarrow> True
      | Received r \<Rightarrow> (case r of Ok info \<Rightarrow> gp_slot (pi_proof info) \<noteq> n + 1 | _ \<Rightarrow> False)) inputs"
  shows "\<exists>st' ds. monitor_slots push cfg inputs st = (Ok (), st') \<and>
    sm_slots st' = sm_slots st \<and> sm_last_instant st' = sm_last_instant st \<and>
    length ds = length (filter (\<lambda>i. i = Elapsed) inputs) \<and>
    sm_alerts st' = sm_alerts st @
      map (\<lambda>d. AlertTimekeeperStall \<lparr>ts_last_slot = n, ts_duration = d\<rparr>) ds"
  using assms
proof (induction inputs arbitrary: st)
  case Nil
  then show ?case by (simp add: monitor_slots_def)
next
  case (Cons i inputs)
  from Cons.prems(4) have "case i of Elapsed \<Rightarrow> True
      | Received r \<Rightarrow> (case r of Ok info \<Rightarrow> gp_slot (pi_proof info) \<noteq> n + 1 | _ \<Rightarrow> False)" by simp
  from deaf_step [OF Cons.prems(1-3) this, of push cfg] obtain st1 d where
    st1: "slot_step push cfg i st = (Ok (), st1)" "sm_slots st1 = sm_slots st"
    "sm_last_instant st1 = sm_last_instant st" "length d = length (filter (\<lambda>i. i = Elapsed) [i])"
    "sm_alerts st1 = sm_alerts st @ map (\<lambda>d. AlertTimekeeperStall \<lparr>ts_last_slot = n, ts_duration = d\<rparr>) d" .
  have "list_all (\<lambda>i. case i of Elapsed \<Rightarrow> True
      | Received r \<Rightarrow> (case r of Ok info \<Rightarrow> gp_slot (pi_proof info) \<noteq> n + 1 | _ \<Rightarrow> False)) inputs"
    using Cons.prems(4) by simp
  with Cons.IH [of st1] Cons.prems st1 obtain st2 ds where "monitor_slots push cfg inputs st1 = (Ok (), st2)"
    "sm_slots st2 = sm_slots st" "sm_last_instant st2 = sm_last_instant st"
    "length ds = length (filter (\<lambda>i. i = Elapsed) inputs)"
    "sm_alerts st2 = sm_alerts st1 @ map (\<lambda>d. AlertTimekeeperStall \<lparr>ts_last_slot = n, ts_duration = d\<rparr>) ds"
    by auto
  with st1 show ?case
    by (intro exI [of _ st2] exI [of _ "d @ ds"]) (auto simp: monitor_slots_def then_prog_Ok)
qed

theorem missed_slot_freezes_monitor_witness:
  "\<exists>st'. monitor_slots sliding_push ex_slots_cfg
      [ex_slot 9 3000000000, ex_slot 10 90000000000]
      \<lparr>sm_timeout_fired = None, sm_last_instant = 1000000000,
       sm_slots = [\<lparr>sd_proof = \<lparr>gp_slot = 7, gp_seed = [], gp_slot_iterations = 1,
         gp_checkpoints = []\<rparr>, sd_duration = 0\<rparr>], sm_alerts = []\<rparr> = (Ok (), st') \<and> sm_alerts st' = []"
proof -
  let ?st = "\<lparr>sm_timeout_fired = None, sm_last_instant = 1000000000,
       sm_slots = [\<lparr>sd_proof = \<lparr>gp_slot = 7, gp_seed = [], gp_slot_iterations = 1,
         gp_checkpoints = []\<rparr>, sd_duration = 0\<rparr>], sm_alerts = []\<rparr>"
  have h: "sm_slots ?st \<noteq> []" "7 = gp_slot (sd_proof (last (sm_slots ?st)))"
    "unat (7 :: u64) + 1 < 2 ^ 64"
    "list_all (\<lambda>i. case i of Elapsed \<Rightarrow> True
      | Received r \<Rightarrow> (case r of Ok info \<Rightarrow> gp_slot (pi_proof info) \<noteq> 7 + 1 | _ \<Rightarrow> False))
      [ex_slot 9 3000000000, ex_slot 10 90000000000]"
    by (simp_all add: ex_slot_def)
  from missed_slot_freezes_monitor [OF h, of sliding_push ex_slots_cfg]
  show ?thesis by (auto simp: ex_slot_def)
qed

end
