(* ===== verification/Rpc_Types.thy ===== *)
theory Rpc_Types
  imports Scale_Codec
begin

section \<open>Decoders of on-chain storage values\<close>

text \<open>
  The hand-written \<open>Decode\<close> implementations: \<open>indexer/src/rpc_types.rs\<close> (operators and
  withdrawals), \<open>StakingSummary\<close> of \<open>indexer/src/types.rs\<close>, and the account layout of
  \<open>shared/src/subspace.rs\<close>. Each skips the fields it does not keep. The on-chain layouts the
  comments of those files document are written here as encoders; the theorems say that each
  decoder reads its layout and keeps the right fields.
\<close>

subsection \<open>Operator status\<close>

datatype operator_status_compact =
  Registered | Deregistered | Slashed | PendingSlash | InvalidBundleStatus | Deactivated

primrec as_str :: "operator_status_compact \<Rightarrow> string" where
  "as_str Registered = ''registered''"
| "as_str Deregistered = ''deregistered''"
| "as_str Slashed = ''slashed''"
| "as_str PendingSlash = ''pending_slash''"
| "as_str InvalidBundleStatus = ''invalid_bundle''"
| "as_str Deactivated = ''deactivated''"

definition domain_epoch_skip :: "codec \<Rightarrow> unit decoder" where
  "domain_epoch_skip C = dec_then (dec_u32 C) (dec_then (dec_u32 C) (dec_return ()))"

definition decode_operator_status :: "codec \<Rightarrow> operator_status_compact decoder" where
  "decode_operator_status C = dec_bind (dec_u8 C) (\<lambda>variant.
     if variant = 0 then dec_return Registered
     else if variant = 1 then dec_then (domain_epoch_skip C) (dec_then (dec_u32 C) (dec_return Deregistered))
     else if variant = 2 then dec_return Slashed
     else if variant = 3 then dec_return PendingSlash
     else if variant = 4 then dec_then (dec_bytes32 C) (dec_return InvalidBundleStatus)
     else if variant = 5 then dec_then (dec_u32 C) (dec_return Deactivated)
     else dec_fail (Scale_Chained (''variant index: '' @ show_nat (unat variant))
       (Scale_Error ''Unknown OperatorStatus variant'')))"

subsection \<open>Withdrawals\<close>

record nominator_withdrawal =
  nw_shares :: u128
  nw_amount :: u128
  nw_storage_fee_refund :: u128

text \<open>The loop over the entries keeps the amount and refund of the last one.\<close>

primrec last_withdrawal :: "codec \<Rightarrow> nat \<Rightarrow> u128 \<times> u128 \<Rightarrow> (u128 \<times> u128) decoder" where
  "last_withdrawal C 0 acc = dec_return acc"
| "last_withdrawal C (Suc n) acc = dec_then (dec_u32 C)
     (dec_bind (dec_u128 C) (\<lambda>amount. dec_bind (dec_u128 C) (\<lambda>refund. last_withdrawal C n (amount, refund))))"

text \<open>The trailing \<open>withdrawal_in_shares\<close>, falling back to the last entry when it is absent.\<close>

definition decode_in_shares :: "codec \<Rightarrow> u128 \<times> u128 \<Rightarrow> nominator_withdrawal decoder" where
  "decode_in_shares C fallback = dec_bind (dec_u8 C) (\<lambda>variant.
     if variant = 0 then dec_return \<lparr>nw_shares = 0, nw_amount = fst fallback,
       nw_storage_fee_refund = snd fallback\<rparr>
     else dec_then (dec_u32 C) (dec_then (dec_u32 C) (dec_then (dec_u32 C)
       (dec_bind (dec_u128 C) (\<lambda>shares. dec_bind (dec_u128 C) (\<lambda>storage_fee_refund.
         dec_return \<lparr>nw_shares = shares, nw_amount = 0,
           nw_storage_fee_refund = storage_fee_refund\<rparr>))))))"

definition decode_nominator_withdrawal :: "codec \<Rightarrow> nominator_withdrawal decoder" where
  "decode_nominator_withdrawal C = dec_then (dec_u128 C) (dec_then (dec_u128 C)
     (dec_bind (dec_compact_u32 C) (\<lambda>len.
       dec_bind (last_withdrawal C (unat len) (0, 0)) (decode_in_shares C))))"

subsection \<open>Operators, staking summaries and accounts\<close>

record full_operator =
  fo_signing_key :: bytes
  fo_current_domain_id :: u32
  fo_minimum_nominator_stake :: u128
  fo_nomination_tax :: u8
  fo_current_total_stake :: u128
  fo_current_total_shares :: u128
  fo_status :: operator_status_compact
  fo_total_storage_fee_deposit :: u128

definition decode_full_operator :: "codec \<Rightarrow> full_operator decoder" where
  "decode_full_operator C =
     dec_bind (dec_bytes32 C) (\<lambda>signing_key.
     dec_bind (dec_u32 C) (\<lambda>current_domain_id.
     dec_then (dec_u32 C) (
     dec_bind (dec_u128 C) (\<lambda>minimum_nominator_stake.
     dec_bind (dec_u8 C) (\<lambda>nomination_tax.
     dec_bind (dec_u128 C) (\<lambda>current_total_stake.
     dec_bind (dec_u128 C) (\<lambda>current_total_shares.
     dec_bind (decode_operator_status C) (\<lambda>status.
     dec_then (dec_u128 C) (
     dec_then (dec_u128 C) (
     dec_bind (dec_u128 C) (\<lambda>total_storage_fee_deposit.
     dec_return \<lparr>fo_signing_key = signing_key, fo_current_domain_id = current_domain_id,
       fo_minimum_nominator_stake = minimum_nominator_stake, fo_nomination_tax = nomination_tax,
       fo_current_total_stake = current_total_stake, fo_current_total_shares = current_total_shares,
       fo_status = status, fo_total_storage_fee_deposit = total_storage_fee_deposit\<rparr>)))))))))))"

record staking_summary =
  ss_current_operators :: "(u64 \<times> u128) list"

definition decode_staking_summary :: "codec \<Rightarrow> staking_summary decoder" where
  "decode_staking_summary C = dec_then (dec_u32 C) (dec_then (dec_u128 C)
     (dec_bind (dec_btree_u64_u128 C) (\<lambda>ops. dec_return \<lparr>ss_current_operators = ops\<rparr>)))"

record storage_account_data =
  sa_free :: u128

record storage_account_info =
  si_data :: storage_account_data

definition decode_account_data :: "codec \<Rightarrow> storage_account_data decoder" where
  "decode_account_data C = dec_bind (dec_u128 C) (\<lambda>free.
     dec_then (dec_u128 C) (dec_then (dec_u128 C) (dec_then (dec_u128 C) (dec_return \<lparr>sa_free = free\<rparr>))))"

definition decode_account_info :: "codec \<Rightarrow> storage_account_info decoder" where
  "decode_account_info C = dec_then (dec_u32 C) (dec_then (dec_u32 C) (dec_then (dec_u32 C)
     (dec_then (dec_u32 C) (dec_bind (decode_account_data C) (\<lambda>d. dec_return \<lparr>si_data = d\<rparr>)))))"

subsection \<open>The documented layouts\<close>

datatype onchain_status =
    OsRegistered | OsDeregistered u32 u32 u32 | OsSlashed | OsPendingSlash
  | OsInvalidBundle bytes | OsDeactivated u32

fun status_wf :: "onchain_status \<Rightarrow> bool" where
  "status_wf (OsInvalidBundle h) \<longleftrightarrow> length h = 32"
| "status_wf _ \<longleftrightarrow> True"

primrec compact_status :: "onchain_status \<Rightarrow> operator_status_compact" where
  "compact_status OsRegistered = Registered"
| "compact_status (OsDeregistered d e u) = Deregistered"
| "compact_status OsSlashed = Slashed"
| "compact_status OsPendingSlash = PendingSlash"
| "compact_status (OsInvalidBundle h) = InvalidBundleStatus"
| "compact_status (OsDeactivated e) = Deactivated"

primrec enc_status :: "encoding \<Rightarrow> onchain_status \<Rightarrow> bytes" where
  "enc_status E OsRegistered = enc_u8 E 0"
| "enc_status E (OsDeregistered d e u) = enc_u8 E 1 @ (enc_u32 E d @ enc_u32 E e) @ enc_u32 E u"
| "enc_status E OsSlashed = enc_u8 E 2"
| "enc_status E OsPendingSlash = enc_u8 E 3"
| "enc_status E (OsInvalidBundle h) = enc_u8 E 4 @ enc_bytes32 E h"
| "enc_status E (OsDeactivated e) = enc_u8 E 5 @ enc_u32 E e"

record onchain_operator =
  oc_signing_key :: bytes
  oc_current_domain_id :: u32
  oc_next_domain_id :: u32
  oc_minimum_nominator_stake :: u128
  oc_nomination_tax :: u8
  oc_current_total_stake :: u128
  oc_current_total_shares :: u128
  oc_status :: onchain_status
  oc_deposits_in_epoch :: u128
  oc_withdrawals_in_epoch :: u128
  oc_total_storage_fee_deposit :: u128

definition enc_operator :: "encoding \<Rightarrow> onchain_operator \<Rightarrow> bytes" where
  "enc_operator E x = enc_bytes32 E (oc_signing_key x) @ enc_u32 E (oc_current_domain_id x) @
     enc_u32 E (oc_next_domain_id x) @ enc_u128 E (oc_minimum_nominator_stake x) @
     enc_u8 E (oc_nomination_tax x) @ enc_u128 E (oc_current_total_stake x) @
     enc_u128 E (oc_current_total_shares x) @ enc_status E (oc_status x) @
     enc_u128 E (oc_deposits_in_epoch x) @ enc_u128 E (oc_withdrawals_in_epoch x) @
     enc_u128 E (oc_total_storage_fee_deposit x)"

record withdrawal_entry =
  we_unlock_at :: u32
  we_amount :: u128
  we_refund :: u128

definition enc_entry :: "encoding \<Rightarrow> withdrawal_entry \<Rightarrow> bytes" where
  "enc_entry E w = enc_u32 E (we_unlock_at w) @ enc_u128 E (we_amount w) @ enc_u128 E (we_refund w)"

record withdrawal_in_shares =
  ws_domain_id :: u32
  ws_epoch :: u32
  ws_unlock_at :: u32
  ws_shares :: u128
  ws_refund :: u128

record onchain_withdrawal =
  ow_total_amount :: u128
  ow_total_fee :: u128
  ow_withdrawals :: "withdrawal_entry list"
  ow_in_shares :: "withdrawal_in_shares option"

primrec enc_in_shares :: "encoding \<Rightarrow> withdrawal_in_shares option \<Rightarrow> bytes" where
  "enc_in_shares E None = enc_u8 E 0"
| "enc_in_shares E (Some w) = enc_u8 E 1 @ enc_u32 E (ws_domain_id w) @ enc_u32 E (ws_epoch w) @
     enc_u32 E (ws_unlock_at w) @ enc_u128 E (ws_shares w) @ enc_u128 E (ws_refund w)"

definition enc_withdrawal :: "encoding \<Rightarrow> onchain_withdrawal \<Rightarrow> bytes" where
  "enc_withdrawal E x = enc_u128 E (ow_total_amount x) @ enc_u128 E (ow_total_fee x) @
     enc_compact_u32 E (of_nat (length (ow_withdrawals x))) @
     concat (map (enc_entry E) (ow_withdrawals x)) @ enc_in_shares E (ow_in_shares x)"

definition enc_account :: "encoding \<Rightarrow> u32 \<times> u32 \<times> u32 \<times> u32 \<Rightarrow> u128 \<times> u128 \<times> u128 \<times> u128 \<Rightarrow> bytes" where
  "enc_account E m d = (case m of (nonce, consumers, providers, sufficients) \<Rightarrow>
     case d of (free, reserved, frozen, flags) \<Rightarrow>
       enc_u32 E nonce @ enc_u32 E consumers @ enc_u32 E providers @ enc_u32 E sufficients @
       enc_u128 E free @ enc_u128 E reserved @ enc_u128 E frozen @ enc_u128 E flags)"

subsection \<open>Reading the layouts\<close>

lemma reads_then_return: "reads d bs x \<Longrightarrow> reads (dec_then d (dec_return y)) bs y"
  by (simp add: reads_def dec_then_def dec_bind_def dec_return_def)

context scale_codec
begin

lemmas prims = u8 u32 u64 u128 bytes32 compact_u32

lemma reads_skip_epoch: "reads (domain_epoch_skip C) (enc_u32 E d @ enc_u32 E e) ()"
  unfolding domain_epoch_skip_def
  by (rule reads_then [OF u32], rule reads_then_return [OF u32])

lemma reads_variant:
  assumes "reads (f v) bs y"
  shows "reads (dec_bind (dec_u8 C) f) (enc_u8 E v @ bs) y"
  by (rule reads_bind [where f = f, OF u8 assms])

lemma reads_variant_end:
  "reads (f v) [] y \<Longrightarrow> reads (dec_bind (dec_u8 C) f) (enc_u8 E v) y"
  using reads_variant [of f v "[]" y] by simp

lemma reads_status:
  assumes "status_wf s"
  shows "reads (decode_operator_status C) (enc_status E s) (compact_status s)"
proof (cases s)
  case (OsDeregistered d e u)
  have "reads (dec_then (domain_epoch_skip C) (dec_then (dec_u32 C) (dec_return Deregistered)))
      ((enc_u32 E d @ enc_u32 E e) @ enc_u32 E u) Deregistered"
    by (rule reads_then [OF reads_skip_epoch], rule reads_then_return [OF u32])
  then show ?thesis
    unfolding OsDeregistered enc_status.simps compact_status.simps decode_operator_status_def
    by (intro reads_variant) simp
qed (use assms in \<open>auto simp: decode_operator_status_def intro!: reads_variant reads_variant_end
    reads_return reads_then_return [OF u32] reads_then_return [OF bytes32]\<close>)

lemma reads_operator:
  assumes "length (oc_signing_key x) = 32" and "status_wf (oc_status x)"
  shows "reads (decode_full_operator C) (enc_operator E x)
    \<lparr>fo_signing_key = oc_signing_key x, fo_current_domain_id = oc_current_domain_id x,
     fo_minimum_nominator_stake = oc_minimum_nominator_stake x,
     fo_nomination_tax = oc_nomination_tax x, fo_current_total_stake = oc_current_total_stake x,
     fo_current_total_shares = oc_current_total_shares x, fo_status = compact_status (oc_status x),
     fo_total_storage_fee_deposit = oc_total_storage_fee_deposit x\<rparr>"
  unfolding decode_full_operator_def enc_operator_def
  by (rule reads_bind [OF bytes32 [OF assms(1)]] reads_bind [OF u32] reads_then [OF u32]
      reads_bind [OF u8] reads_bind [OF reads_status [OF assms(2)]] reads_then [OF u128]
      reads_bind_return [OF u128] reads_bind [OF u128])+

lemma reads_last_withdrawal:
  "reads (last_withdrawal C (length ws) acc) (concat (map (enc_entry E) ws))
     (if ws = [] then acc else (we_amount (last ws), we_refund (last ws)))"
proof (induction ws arbitrary: acc)
  case Nil
  then show ?case by (simp add: reads_return)
next
  case (Cons w ws)
  have "reads (last_withdrawal C (Suc (length ws)) acc)
      (enc_u32 E (we_unlock_at w) @ enc_u128 E (we_amount w) @ enc_u128 E (we_refund w) @
        concat (map (enc_entry E) ws))
      (if ws = [] then (we_amount w, we_refund w) else (we_amount (last ws), we_refund (last ws)))"
    unfolding last_withdrawal.simps
    by (rule reads_then [OF u32], rule reads_bind [OF u128], rule reads_bind [OF u128], rule Cons)
  then show ?case
    unfolding list.map concat.simps enc_entry_def [of E w] append_assoc by (simp split: if_splits)
qed

lemma reads_in_shares:
  "reads (decode_in_shares C acc) (enc_in_shares E x)
    (case x of
       Some w \<Rightarrow> \<lparr>nw_shares = ws_shares w, nw_amount = 0, nw_storage_fee_refund = ws_refund w\<rparr>
     | None \<Rightarrow> \<lparr>nw_shares = 0, nw_amount = fst acc, nw_storage_fee_refund = snd acc\<rparr>)"
proof (cases x)
  case None
  then show ?thesis
    by (auto simp: decode_in_shares_def intro!: reads_variant_end reads_return)
next
  case (Some w)
  have "reads (dec_then (dec_u32 C) (dec_then (dec_u32 C) (dec_then (dec_u32 C)
         (dec_bind (dec_u128 C) (\<lambda>shares. dec_bind (dec_u128 C) (\<lambda>storage_fee_refund.
           dec_return \<lparr>nw_shares = shares, nw_amount = 0,
             nw_storage_fee_refund = storage_fee_refund\<rparr>))))))
      (enc_u32 E (ws_domain_id w) @ enc_u32 E (ws_epoch w) @ enc_u32 E (ws_unlock_at w) @
         enc_u128 E (ws_shares w) @ enc_u128 E (ws_refund w))
      \<lparr>nw_shares = ws_shares w, nw_amount = 0, nw_storage_fee_refund = ws_refund w\<rparr>"
    by (rule reads_then [OF u32] reads_bind_return [OF u128] reads_bind [OF u128])+
  then show ?thesis
    unfolding Some enc_in_shares.simps option.case decode_in_shares_def
    by (intro reads_variant) simp
qed

lemma reads_withdrawal:
  assumes "length (ow_withdrawals x) < 2 ^ 32"
  shows "reads (decode_nominator_withdrawal C) (enc_withdrawal E x)
    (case ow_in_shares x of
       Some w \<Rightarrow> \<lparr>nw_shares = ws_shares w, nw_amount = 0, nw_storage_fee_refund = ws_refund w\<rparr>
     | None \<Rightarrow> if ow_withdrawals x = [] then \<lparr>nw_shares = 0, nw_amount = 0, nw_storage_fee_refund = 0\<rparr>
         else \<lparr>nw_shares = 0, nw_amount = we_amount (last (ow_withdrawals x)),
           nw_storage_fee_refund = we_refund (last (ow_withdrawals x))\<rparr>)"
proof -
  let ?ws = "ow_withdrawals x"
  let ?acc = "if ?ws = [] then (0, 0) else (we_amount (last ?ws), we_refund (last ?ws))"
  have n: "unat (of_nat (length ?ws) :: u32) = length ?ws"
    using assms by (intro unat_of_nat_small) simp
  have "reads (dec_bind (last_withdrawal C (unat (of_nat (length ?ws) :: u32)) (0, 0)) (decode_in_shares C))
     (concat (map (enc_entry E) ?ws) @ enc_in_shares E (ow_in_shares x))
     (case ow_in_shares x of
         Some w \<Rightarrow> \<lparr>nw_shares = ws_shares w, nw_amount = 0, nw_storage_fee_refund = ws_refund w\<rparr>
       | None \<Rightarrow> \<lparr>nw_shares = 0, nw_amount = fst ?acc, nw_storage_fee_refund = snd ?acc\<rparr>)"
    unfolding n by (rule reads_bind [OF reads_last_withdrawal reads_in_shares])
  then have "reads (decode_nominator_withdrawal C) (enc_withdrawal E x)
     (case ow_in_shares x of
         Some w \<Rightarrow> \<lparr>nw_shares = ws_shares w, nw_amount = 0, nw_storage_fee_refund = ws_refund w\<rparr>
       | None \<Rightarrow> \<lparr>nw_shares = 0, nw_amount = fst ?acc, nw_storage_fee_refund = snd ?acc\<rparr>)"
    unfolding decode_nominator_withdrawal_def enc_withdrawal_def
    by (intro reads_then [OF u128] reads_bind [OF compact_u32])
  then show ?thesis by (cases "ow_in_shares x") (auto split: if_splits)
qed

lemma reads_account:
  "reads (decode_account_info C) (enc_account E m (free, d)) \<lparr>si_data = \<lparr>sa_free = free\<rparr>\<rparr>"
proof -
  obtain a b c e where m: "m = (a, b, c, e)" by (cases m) auto
  obtain f g h where d: "d = (f, g, h)" by (cases d) auto
  have data: "reads (decode_account_data C) (enc_u128 E free @ enc_u128 E f @ enc_u128 E g @ enc_u128 E h)
      \<lparr>sa_free = free\<rparr>"
    unfolding decode_account_data_def
    by (rule reads_bind [OF u128], rule reads_then [OF u128], rule reads_then [OF u128],
        rule reads_then_return [OF u128])
  show ?thesis
    unfolding decode_account_info_def enc_account_def m d prod.case
    by (rule reads_then [OF u32] reads_bind_return [OF data])+
qed

lemma reads_summary:
  assumes "sorted_wrt (<) (map fst ops)" and "length ops < 2 ^ 32"
  shows "reads (decode_staking_summary C) (enc_u32 E epoch @ enc_u128 E stake @ enc_btree_u64_u128 E ops)
    \<lparr>ss_current_operators = ops\<rparr>"
  unfolding decode_staking_summary_def
  by (rule reads_then [OF u32], rule reads_then [OF u128], rule reads_bind_return [OF btree [OF assms]])

end

subsection \<open>Properties\<close>

text \<open>
  C40: the operator decoder reads the documented on-chain layout, whatever follows it: it keeps
  exactly the documented fields, skips the others, maps each of the six statuses to its
  compact form whatever payload the status carries, and leaves the rest of the input.
\<close>

theorem full_operator_roundtrip:
  assumes "scale_codec C E" and "length (oc_signing_key x) = 32" and "status_wf (oc_status x)"
  shows "decode_full_operator C (enc_operator E x @ rest) = Ok
    (\<lparr>fo_signing_key = oc_signing_key x, fo_current_domain_id = oc_current_domain_id x,
      fo_minimum_nominator_stake = oc_minimum_nominator_stake x,
      fo_nomination_tax = oc_nomination_tax x, fo_current_total_stake = oc_current_total_stake x,
      fo_current_total_shares = oc_current_total_shares x, fo_status = compact_status (oc_status x),
      fo_total_storage_fee_deposit = oc_total_storage_fee_deposit x\<rparr>, rest)"
  by (rule readsD [OF scale_codec.reads_operator [OF assms]])

definition ex_operator :: onchain_operator where
  "ex_operator = \<lparr>oc_signing_key = replicate 32 7, oc_current_domain_id = 0, oc_next_domain_id = 0,
     oc_minimum_nominator_stake = 1000, oc_nomination_tax = 5, oc_current_total_stake = 90,
     oc_current_total_shares = 80, oc_status = OsDeregistered 0 12 345, oc_deposits_in_epoch = 1,
     oc_withdrawals_in_epoch = 2, oc_total_storage_fee_deposit = 3\<rparr>"

theorem full_operator_roundtrip_witness:
  "\<exists>op. decode_full_operator scale (enc_operator scale_enc ex_operator @ [1, 2]) = Ok (op, [1, 2]) \<and>
     as_str (fo_status op) = ''deregistered'' \<and> fo_total_storage_fee_deposit op = 3"
proof -
  have h: "length (oc_signing_key ex_operator) = 32" "status_wf (oc_status ex_operator)"
    by (simp_all add: ex_operator_def)
  show ?thesis
    unfolding full_operator_roundtrip [OF scale_format.scale_codec_axioms h]
    by (simp add: ex_operator_def)
qed

text \<open>
  The withdrawal decoder returns the shares and refund of a withdrawal that is still in
  shares, with amount zero; otherwise it falls back to the amount and refund of the last queued
  entry, with shares zero, and to zeros when nothing is queued. All other fields are skipped.
\<close>

theorem nominator_withdrawal_fallback:
  assumes "scale_codec C E" and "length (ow_withdrawals x) < 2 ^ 32"
  shows "decode_nominator_withdrawal C (enc_withdrawal E x @ rest) = Ok
    (case ow_in_shares x of
       Some w \<Rightarrow> \<lparr>nw_shares = ws_shares w, nw_amount = 0, nw_storage_fee_refund = ws_refund w\<rparr>
     | None \<Rightarrow> if ow_withdrawals x = [] then \<lparr>nw_shares = 0, nw_amount = 0, nw_storage_fee_refund = 0\<rparr>
         else \<lparr>nw_shares = 0, nw_amount = we_amount (last (ow_withdrawals x)),
           nw_storage_fee_refund = we_refund (last (ow_withdrawals x))\<rparr>, rest)"
  by (rule readsD [OF scale_codec.reads_withdrawal [OF assms]])

definition ex_withdrawal :: onchain_withdrawal where
  "ex_withdrawal = \<lparr>ow_total_amount = 50, ow_total_fee = 6,
     ow_withdrawals = [\<lparr>we_unlock_at = 1, we_amount = 20, we_refund = 2\<rparr>,
       \<lparr>we_unlock_at = 2, we_amount = 30, we_refund = 4\<rparr>], ow_in_shares = None\<rparr>"

theorem nominator_withdrawal_fallback_witness:
  "decode_nominator_withdrawal scale (enc_withdrawal scale_enc ex_withdrawal @ []) =
     Ok (\<lparr>nw_shares = 0, nw_amount = 30, nw_storage_fee_refund = 4\<rparr>, [])"
proof -
  have h: "length (ow_withdrawals ex_withdrawal) < 2 ^ 32" by (simp add: ex_withdrawal_def)
  show ?thesis
    unfolding nominator_withdrawal_fallback [OF scale_format.scale_codec_axioms h]
    by (simp add: ex_withdrawal_def)
qed

end
