(* ===== verification/Subspace_Client.thy ===== *)
theory Subspace_Client
  imports Block_Listener Rpc_Types
begin

section \<open>Reading the state of a block\<close>

text \<open>
  \<open>BlockExt\<close> and the node queries of \<open>Subspace\<close> in \<open>shared/src/subspace.rs\<close>, and
  \<open>shared/src/types.rs\<close>. The client is the parameter \<open>'k client\<close>: the answers of the
  node for the state of a block, with \<open>'k\<close> the storage keys and \<open>'ev\<close> the decoded events.
  A map is addressed by its pallet, its name and its key; the value comes back as bytes and is
  decoded with the decoder of the type the caller asks for.
\<close>

datatype json_value = J_U64 u64 | J_Str string | J_Other

record ('k, 'ev) client =
  cl_node :: node
  cl_fetch :: "hash \<Rightarrow> string \<Rightarrow> string \<Rightarrow> 'k \<Rightarrow> (bytes option, shared_error) result"
  cl_iter :: "hash \<Rightarrow> string \<Rightarrow> string \<Rightarrow> ((bytes \<times> bytes, shared_error) result list, shared_error) result"
  cl_value :: "hash \<Rightarrow> bytes \<Rightarrow> (bytes option, shared_error) result"
  cl_events :: "hash \<Rightarrow> (('ev, shared_error) result list, shared_error) result"
  cl_decode_events :: "bytes \<Rightarrow> ('ev, shared_error) result list"
  cl_constant :: "string \<Rightarrow> string \<Rightarrow> (u32, shared_error) result"
  cl_twox_128 :: "string \<Rightarrow> bytes"
  cl_encode_u32 :: "u32 \<Rightarrow> bytes"
  cl_system_chain :: "(string, shared_error) result"
  cl_system_properties :: "(string \<Rightarrow> json_value option, shared_error) result"

subsection \<open>Storage\<close>

definition decode_value :: "'a decoder \<Rightarrow> bytes \<Rightarrow> ('a, shared_error) result" where
  "decode_value d encoded = map_err Scale (map_ok fst (d encoded))"

definition try_read_storage ::
  "('k, 'ev) client \<Rightarrow> 'a decoder \<Rightarrow> block_ext \<Rightarrow> string \<Rightarrow> string \<Rightarrow> 'k \<Rightarrow> ('a option, shared_error) result" where
  "try_read_storage N d b pallet storage key =
     bind_result (cl_fetch N (be_hash b) pallet storage key) (\<lambda>r. case r of
       None \<Rightarrow> Ok None | Some encoded \<Rightarrow> map_ok Some (decode_value d encoded))"

definition read_storage ::
  "('k, 'ev) client \<Rightarrow> 'a decoder \<Rightarrow> block_ext \<Rightarrow> string \<Rightarrow> string \<Rightarrow> 'k \<Rightarrow> ('a, shared_error) result" where
  "read_storage N d b pallet storage key =
     bind_result (try_read_storage N d b pallet storage key)
       (\<lambda>r. ok_or r (Storage (pallet @ ''.'' @ storage)))"

definition has_storage ::
  "('k, 'ev) client \<Rightarrow> block_ext \<Rightarrow> string \<Rightarrow> string \<Rightarrow> 'k \<Rightarrow> (bool, shared_error) result" where
  "has_storage N b pallet storage key =
     bind_result (cl_fetch N (be_hash b) pallet storage key) (\<lambda>r. Ok (r \<noteq> None))"

definition iter_storage ::
  "('k, 'ev) client \<Rightarrow> 'a decoder \<Rightarrow> block_ext \<Rightarrow> string \<Rightarrow> string \<Rightarrow> ((bytes \<times> 'a) list, shared_error) result" where
  "iter_storage N d b pallet storage =
     bind_result (cl_iter N (be_hash b) pallet storage) (\<lambda>entries.
       try_collect (map (\<lambda>kv. bind_result kv (\<lambda>(k, encoded).
         bind_result (decode_value d encoded) (\<lambda>v. Ok (k, v)))) entries))"

definition timestamp :: "('k, 'ev) client \<Rightarrow> codec \<Rightarrow> 'k \<Rightarrow> block_ext \<Rightarrow> (u64, shared_error) result" where
  "timestamp N C unit_key b = read_storage N (dec_u64 C) b ''Timestamp'' ''Now'' unit_key"

text \<open>
  The decoder of the map of slots and the node's answer for a block body are arguments: no other
  operation uses them.
\<close>

definition slot_of_block ::
  "('k, 'ev) client \<Rightarrow> (u32 \<rightharpoonup> u64) decoder \<Rightarrow> 'k \<Rightarrow> block_ext \<Rightarrow> (u64, shared_error) result" where
  "slot_of_block N dec_slots unit_key b =
     bind_result (read_storage N dec_slots b ''Subspace'' ''BlockSlots'' unit_key) (\<lambda>slots.
       ok_or (slots (be_number b)) (Storage (''Missing slot for block: '' @ show_nat (unat (be_number b)))))"

definition extrinsics ::
  "(hash \<Rightarrow> (bytes list option, shared_error) result) \<Rightarrow> 'x decoder \<Rightarrow> block_ext \<Rightarrow> ('x list, shared_error) result" where
  "extrinsics block_body dec_ext b =
     bind_result (block_body (be_hash b)) (\<lambda>body.
     bind_result (ok_or body (MissingBlockBody (be_hash b))) (\<lambda>exts.
       try_collect (map (decode_value dec_ext) exts)))"

definition free_balance ::
  "('k, 'ev) client \<Rightarrow> codec \<Rightarrow> block_ext \<Rightarrow> 'k \<Rightarrow> (u128 option, shared_error) result" where
  "free_balance N C b account =
     bind_result (try_read_storage N (decode_account_info C) b ''System'' ''Account'' account)
       (\<lambda>info. Ok (map_option (\<lambda>i. sa_free (si_data i)) info))"

subsection \<open>Events\<close>

definition system_event_segment_key :: "('k, 'ev) client \<Rightarrow> u32 \<Rightarrow> bytes" where
  "system_event_segment_key N segment =
     cl_twox_128 N ''System'' @ cl_twox_128 N ''EventSegments'' @ cl_encode_u32 N segment"

definition div_checked :: "'a::len word \<Rightarrow> 'a word \<Rightarrow> ('a word, 'e) result" where
  "div_checked a b = (if b = 0 then Panic ''attempt to divide by zero'' else Ok (a div b))"

definition segment_events :: "('k, 'ev) client \<Rightarrow> hash \<Rightarrow> u32 \<Rightarrow> ('ev list, shared_error) result" where
  "segment_events N h segment =
     bind_result (cl_value N h (system_event_segment_key N segment)) (\<lambda>data. Ok (case data of
       None \<Rightarrow> [] | Some event_data \<Rightarrow> List.map_filter ok (cl_decode_events N event_data)))"

definition events_from_segments ::
  "('k, 'ev) client \<Rightarrow> codec \<Rightarrow> 'k \<Rightarrow> block_ext \<Rightarrow> ('ev list, shared_error) result" where
  "events_from_segments N C unit_key b =
     bind_result (cl_constant N ''System'' ''EventSegmentSize'') (\<lambda>segment_size.
     bind_result (read_storage N (dec_u32 C) b ''System'' ''EventCount'' unit_key) (\<lambda>event_count.
     bind_result (div_checked event_count segment_size) (\<lambda>max_segment.
     bind_result (try_collect (map (segment_events N (be_hash b)) (range_incl 0 max_segment))) (\<lambda>total_events.
     Ok (take (unat event_count) (concat total_events))))))"

text \<open>
  \<open>events.find\<close> at one event type: the outcomes of decoding the events of that type, in the
  order of the block. An event that cannot be read is an outcome of every search.
\<close>

type_synonym ('ev, 'e) event_finder = "'ev \<Rightarrow> ('e, shared_error) result option"

definition find_events ::
  "('ev, 'e) event_finder \<Rightarrow> ('ev, shared_error) result list \<Rightarrow> ('e, shared_error) result list" where
  "find_events f events = List.map_filter (\<lambda>r. case r of
     Ok ev \<Rightarrow> f ev | Err e \<Rightarrow> Some (Err e) | Panic p \<Rightarrow> Some (Panic p)) events"

subsection \<open>Network details\<close>

record network_info =
  nd_name :: string
  nd_ss58_format :: u16
  nd_token_symbol :: string
  nd_token_decimals :: u8
  nd_genesis_hash :: hash

fun as_u64 :: "json_value option \<Rightarrow> u64 option" where
  "as_u64 (Some (J_U64 n)) = Some n"
| "as_u64 _ = None"

fun as_json_str :: "json_value option \<Rightarrow> string option" where
  "as_json_str (Some (J_Str s)) = Some s"
| "as_json_str _ = None"

definition network_details :: "('k, 'ev) client \<Rightarrow> (network_info, shared_error) result" where
  "network_details N =
     bind_result (cl_system_chain N) (\<lambda>name.
     bind_result (cl_system_properties N) (\<lambda>props.
     bind_result (rpc_block_hash (cl_node N) (Some 0)) (\<lambda>gh.
     bind_result (expect gh ''Block hash always exists'') (\<lambda>genesis_hash.
     bind_result (ok_or (as_u64 (props ''ss58Format'')) (Config ''Failed to get Ss58Format'')) (\<lambda>ss58.
     bind_result (ok_or (as_json_str (props ''tokenSymbol'')) (Config ''Failed to get Token Symbol'')) (\<lambda>symbol.
     bind_result (ok_or (as_u64 (props ''tokenDecimals'')) (Config ''Failed to get Token Decimals'')) (\<lambda>decimals.
     Ok \<lparr>nd_name = name, nd_ss58_format = ucast ss58, nd_token_symbol = symbol,
       nd_token_decimals = ucast decimals, nd_genesis_hash = genesis_hash\<rparr>)))))))"

subsection \<open>Lemmas\<close>

lemma decode_value_reads: "reads d bs x \<Longrightarrow> decode_value d (bs @ rest) = Ok x"
  by (simp add: decode_value_def reads_def)

lemma read_storage_Ok:
  assumes "cl_fetch N (be_hash b) pallet storage key = Ok (Some (bs @ rest))" and "reads d bs x"
  shows "read_storage N d b pallet storage key = Ok x"
  using assms by (simp add: read_storage_def try_read_storage_def decode_value_reads)

lemma range_incl_zero: "range_incl 0 (of_nat m :: u32) = map of_nat [0..<Suc m]"
  if "m < 2 ^ 32"
  using that by (simp add: range_incl_def unat_of_nat_small del: upt_Suc)

lemma concat_full_chunks:
  assumes "\<And>i. i < m \<Longrightarrow> seg i = take n (drop (i * n) xs)"
  shows "concat (map seg [0..<m]) = take (m * n) xs"
  using assms
proof (induction m)
  case 0
  then show ?case by simp
next
  case (Suc m)
  have "concat (map seg [0..<m]) = take (m * n) xs" using Suc by simp
  moreover have "seg m = take n (drop (m * n) xs)" using Suc.prems by simp
  ultimately show ?case by (simp add: take_add add.commute [of n])
qed

subsection \<open>Properties\<close>

text \<open>
  C25: reading the events of a domain block from its segments returns exactly the block's events,
  in order: when every full segment holds its share of them and the last segment starts with
  the remaining ones, whatever stale events of earlier blocks follow there.
\<close>

theorem segments_give_block_events:
  assumes "cl_constant N ''System'' ''EventSegmentSize'' = Ok sz" and "0 < sz"
    and "cl_fetch N (be_hash b) ''System'' ''EventCount'' key = Ok (Some (bs @ rest))"
    and "reads (dec_u32 C) bs (of_nat (length evs))" and "length evs < 2 ^ 32"
    and "\<And>i. i < length evs div unat sz \<Longrightarrow>
      segment_events N (be_hash b) (of_nat i) = Ok (take (unat sz) (drop (i * unat sz) evs))"
    and "segment_events N (be_hash b) (of_nat (length evs div unat sz)) =
      Ok (drop (length evs div unat sz * unat sz) evs @ stale)"
  shows "events_from_segments N C key b = Ok evs"
proof -
  let ?n = "unat sz" and ?m = "length evs div unat sz"
  have n0: "0 < ?n" using assms(2) by (simp add: word_less_nat_alt)
  have len: "unat (of_nat (length evs) :: u32) = length evs"
    using assms(5) by (intro unat_of_nat_small) simp
  have m32: "?m < 2 ^ 32" using assms(5) div_le_dividend le_less_trans by blast
  have quot: "(of_nat (length evs) :: u32) div sz = of_nat ?m"
    by (rule word_unat_eq_iff [THEN iffD2])
      (use m32 len in \<open>simp add: unat_div_distrib unat_of_nat_small\<close>)
  have count: "read_storage N (dec_u32 C) b ''System'' ''EventCount'' key = Ok (of_nat (length evs))"
    by (rule read_storage_Ok [OF assms(3,4)])
  define segs where "segs = (\<lambda>i. if i < ?m then take ?n (drop (i * ?n) evs) else drop (?m * ?n) evs @ stale)"
  have "map (segment_events N (be_hash b)) (range_incl 0 (of_nat ?m)) = map Ok (map segs [0..<Suc ?m])"
    unfolding range_incl_zero [OF m32] map_map
    by (intro map_cong refl) (use assms(6,7) in \<open>auto simp: segs_def less_Suc_eq\<close>)
  then have coll: "try_collect (map (segment_events N (be_hash b)) (range_incl 0 (of_nat ?m))) =
      Ok (map segs [0..<Suc ?m])"
    by (simp only: try_collect_map_Ok)
  have "concat (map segs [0..<?m]) = take (?m * ?n) evs"
    by (rule concat_full_chunks) (auto simp: segs_def)
  then have "concat (map segs [0..<Suc ?m]) = evs @ stale"
    by (simp add: segs_def)
  with n0 assms(1,2) count quot coll len show ?thesis
    by (simp add: events_from_segments_def div_checked_def del: upt_Suc)
qed

definition ex_client :: "(unit, u8) client" where
  "ex_client = \<lparr>
     cl_node = \<lparr>rpc_block_hash = (\<lambda>_. Ok None), rpc_header = (\<lambda>_. Ok None)\<rparr>,
     cl_fetch = (\<lambda>_ _ _ _. Ok (Some [3, 0, 0, 0])),
     cl_iter = (\<lambda>_ _ _. Ok []),
     cl_value = (\<lambda>_ k. Ok (if k = [0] then Some [10, 11] else if k = [1] then Some [12, 99] else None)),
     cl_events = (\<lambda>_. Ok []),
     cl_decode_events = map Ok,
     cl_constant = (\<lambda>_ _. Ok 2),
     cl_twox_128 = (\<lambda>_. []),
     cl_encode_u32 = (\<lambda>n. [ucast n]),
     cl_system_chain = Ok ''mainnet'',
     cl_system_properties = Ok (\<lambda>_. None)\<rparr>"

definition ex_block :: block_ext where
  "ex_block = \<lparr>be_number = 8, be_hash = 80, be_parent_hash = 70, be_state_root = 0,
     be_extrinsics_root = 0\<rparr>"

theorem segments_give_block_events_witness:
  "events_from_segments ex_client scale () ex_block = Ok [10, 11, 12]"
proof -
  have enc: "[3, 0, 0, 0] = enc_u32 scale_enc (of_nat (length [10, 11, 12 :: u8]))"
    by code_simp
  have seg: "segment_events ex_client h 0 = Ok [10, 11]" "segment_events ex_client h 1 = Ok [12, 99]" for h
    by (simp_all add: segment_events_def ex_client_def system_event_segment_key_def List.map_filter_def)
  show ?thesis
  proof (rule segments_give_block_events [where sz = 2 and bs = "[3, 0, 0, 0]" and rest = "[]" and stale = "[99]"])
    show "reads (dec_u32 scale) [3, 0, 0, 0] (of_nat (length [10, 11, 12 :: u8]))"
      unfolding enc by (rule scale_format.u32)
    fix i assume "i < length [10, 11, 12 :: u8] div unat (2 :: u32)"
    then have "i = 0" by simp
    then show "segment_events ex_client (be_hash ex_block) (of_nat i) =
        Ok (take (unat (2 :: u32)) (drop (i * unat (2 :: u32)) [10, 11, 12]))"
      using seg(1) by simp
  qed (use seg(2) in \<open>simp_all add: ex_client_def\<close>)
qed

end
