(* ===== verification/Indexer_Types.thy ===== *)
theory Indexer_Types
  imports Shared_Types
begin

section \<open>Types of the indexer\<close>

text \<open>
  The data types of \<open>indexer/src/types.rs\<close> and \<open>events.rs\<close>, the error type of
  \<open>error.rs\<close> with the HTTP response of each error, and the textual forms under which chains,
  accounts and message ids are stored. A timestamp is a number of milliseconds. The textual
  forms of third-party types (SS58 addresses, hex strings, 256-bit decimals), the calendar
  conversion, the decimal arithmetic (a decimal is represented by its text) and the cast of a
  price to its column are fields of the parameter \<open>text_lib\<close>; \<open>None\<close> stands for a conversion
  that panics, or a cast that fails.
\<close>

type_synonym datetime = int
type_synonym account32 = "256 word"

record text_lib =
  tl_ss58 :: "account32 \<Rightarrow> string"
  tl_to_hex :: "bytes \<Rightarrow> string"
  tl_hash_hex :: "hash \<Rightarrow> string"
  tl_hex_encode :: "bytes \<Rightarrow> string"
  tl_u256 :: "256 word \<Rightarrow> string"
  tl_datetime :: "i64 \<Rightarrow> datetime option"
  tl_decimal :: "u128 \<Rightarrow> string option"
  tl_decimal_div :: "string \<Rightarrow> string \<Rightarrow> string"
  tl_price_column :: "string \<Rightarrow> string option"

subsection \<open>Errors\<close>

datatype db_error = RowNotFound | Database string | ColumnDecode string

datatype indexer_error =
    I_Config string
  | I_NotFound string
  | I_BadRequest string
  | I_Subspace shared_error
  | I_Io string
  | I_Join string
  | I_BroadRecvErr recv_error
  | I_DB db_error
  | I_Migrate string

fun status_code :: "indexer_error \<Rightarrow> nat" where
  "status_code (I_NotFound _) = 404"
| "status_code (I_BadRequest _) = 400"
| "status_code _ = 500"

fun error_body :: "indexer_error \<Rightarrow> string" where
  "error_body (I_NotFound msg) = ''not found: '' @ msg"
| "error_body (I_BadRequest msg) = ''bad request: '' @ msg"
| "error_body _ = ''internal server error''"

definition error_response :: "indexer_error \<Rightarrow> nat \<times> string" where
  "error_response e = (status_code e, error_body e)"

subsection \<open>Chains, accounts and transfers\<close>

datatype domain_id = DomainId u32

datatype chain_id = Consensus | Domain domain_id

datatype multi_account_id = AccountId32 account32 | AccountId20 bytes | Raw bytes

type_synonym xdm_message_id = "256 word \<times> 256 word"

record location =
  lo_chain_id :: chain_id
  lo_account_id :: multi_account_id

record transfer =
  xt_amount :: u128
  xt_sender :: location
  xt_receiver :: location

datatype domain_epoch = DomainEpoch domain_id u32

primrec show_domain_id :: "domain_id \<Rightarrow> string" where
  "show_domain_id (DomainId n) = show_nat (unat n)"

primrec show_chain_id :: "chain_id \<Rightarrow> string" where
  "show_chain_id Consensus = ''Consensus''"
| "show_chain_id (Domain d) = ''Domain('' @ show_domain_id d @ '')''"

primrec show_account :: "text_lib \<Rightarrow> multi_account_id \<Rightarrow> string" where
  "show_account T (AccountId32 a) = tl_ss58 T a"
| "show_account T (AccountId20 b) = tl_to_hex T b"
| "show_account T (Raw b) = tl_to_hex T b"

lemma show_domain_id_inject [simp]: "show_domain_id d = show_domain_id d' \<longleftrightarrow> d = d'"
  by (cases d; cases d') (simp add: word_unat_eq_iff)

lemma show_chain_id_inject [simp]: "show_chain_id c = show_chain_id c' \<longleftrightarrow> c = c'"
  by (cases c; cases c') auto

definition u128_compat_decode :: "string \<Rightarrow> (u128, indexer_error) result" where
  "u128_compat_decode s = (case parse_uint 128 s of None \<Rightarrow> Err (I_DB (ColumnDecode s))
     | Some n \<Rightarrow> Ok (of_nat n))"

lemma u128_compat_roundtrip: "u128_compat_decode (show_nat (unat (x :: u128))) = Ok x"
proof -
  have "unat x < 2 ^ 128" using unsigned_less [of x] by simp
  then show ?thesis by (simp add: u128_compat_decode_def parse_uint_show_nat)
qed

subsection \<open>Events\<close>

text \<open>The events of pallet \<open>Transporter\<close>.\<close>

record outgoing_transfer_initiated =
  oi_chain_id :: chain_id
  oi_message_id :: xdm_message_id
  oi_amount :: u128

record outgoing_transfer_failed =
  of_chain_id :: chain_id
  of_message_id :: xdm_message_id

record outgoing_transfer_successful =
  os_chain_id :: chain_id
  os_message_id :: xdm_message_id

record incoming_transfer_successful =
  is_chain_id :: chain_id
  is_message_id :: xdm_message_id
  is_amount :: u128

record outgoing_transfer_initiated_with_transfer =
  ow_message_id :: xdm_message_id
  ow_transfer :: transfer

datatype xdm_event =
    XOutgoingTransferInitiated outgoing_transfer_initiated_with_transfer
  | XOutgoingTransferFailed outgoing_transfer_failed
  | XOutgoingTransferSuccessful outgoing_transfer_successful
  | XIncomingTransferSuccessful incoming_transfer_successful

text \<open>The events of pallet \<open>Domains\<close>.\<close>

record domain_epoch_completed =
  ec_domain_id :: domain_id
  ec_completed_epoch_index :: u32

record storage_fee_deposited =
  sf_operator_id :: u64
  sf_nominator_id :: account32
  sf_amount :: u128

record operator_nominated =
  on_operator_id :: u64
  on_nominator_id :: account32
  on_amount :: u128

text \<open>\<open>NominatorUnlocked\<close>, \<open>WithdrewStake\<close> and \<open>NominatedStakedUnlocked\<close> have the same fields.\<close>

record nominator_event =
  ne_operator_id :: u64
  ne_nominator_id :: account32

text \<open>
  Registration, deregistration, slashing, deactivation and reactivation of an operator carry
  its id only.
\<close>

record operator_event =
  op_operator_id :: u64

text \<open>
  An event of a block as the client hands it out: its pallet and name, here its constructor,
  with the outcome of decoding its fields as the type of that name. \<open>as_event\<close> at a type
  is \<open>Ok None\<close> for an event of another name.
\<close>

datatype event_details =
    Ed_OutgoingTransferInitiated "(outgoing_transfer_initiated, shared_error) result"
  | Ed_OutgoingTransferFailed "(outgoing_transfer_failed, shared_error) result"
  | Ed_OutgoingTransferSuccessful "(outgoing_transfer_successful, shared_error) result"
  | Ed_IncomingTransferSuccessful "(incoming_transfer_successful, shared_error) result"
  | Ed_DomainEpochCompleted "(domain_epoch_completed, shared_error) result"
  | Ed_StorageFeeDeposited "(storage_fee_deposited, shared_error) result"
  | Ed_OperatorNominated "(operator_nominated, shared_error) result"
  | Ed_NominatorUnlocked "(nominator_event, shared_error) result"
  | Ed_WithdrewStake "(nominator_event, shared_error) result"
  | Ed_NominatedStakedUnlocked "(nominator_event, shared_error) result"
  | Ed_OperatorRegistered "(operator_event, shared_error) result"
  | Ed_OperatorDeregistered "(operator_event, shared_error) result"
  | Ed_OperatorSlashed "(operator_event, shared_error) result"
  | Ed_OperatorDeactivated "(operator_event, shared_error) result"
  | Ed_OperatorReactivated "(operator_event, shared_error) result"
  | Ed_Other

text \<open>The keys of the storage maps the indexer reads.\<close>

datatype storage_key =
    Key_Unit
  | Key_Operator u64
  | Key_Domain domain_id
  | Key_Operator_Account u64 account32
  | Key_Operator_Epoch u64 domain_epoch
  | Key_Chain_Message chain_id xdm_message_id

subsection \<open>Columns\<close>

text \<open>
  A value bound as decimal text and cast to \<open>numeric(p, 0)\<close>: the number it denotes, or an
  error when it is not a number or has more than \<open>p\<close> digits.
\<close>

definition numeric :: "nat \<Rightarrow> string \<Rightarrow> (nat, indexer_error) result" where
  "numeric p s = (if s = [] then Err (I_DB (Database ''invalid input syntax for type numeric'')) else
     case read_digits 0 s of
       None \<Rightarrow> Err (I_DB (Database ''invalid input syntax for type numeric''))
     | Some n \<Rightarrow> if n < 10 ^ p then Ok n else Err (I_DB (Database ''numeric field overflow'')))"

lemma numeric_show_nat: "n < 10 ^ p \<Longrightarrow> numeric p (show_nat n) = Ok n"
  by (simp add: numeric_def read_digits_show_nat)

lemma numeric_u128 [simp]: "numeric 39 (show_nat (unat (x :: u128))) = Ok (unat x)"
proof (rule numeric_show_nat)
  have "unat x < 2 ^ 128" using unsigned_less [of x] by simp
  also have "(2::nat) ^ 128 \<le> 10 ^ 39" by simp
  finally show "unat x < 10 ^ 39" .
qed

lemma numeric_u256 [simp]: "numeric 78 (show_nat (unat (x :: 256 word))) = Ok (unat x)"
proof (rule numeric_show_nat)
  have "unat x < 2 ^ 256" using unsigned_less [of x] by simp
  also have "(2::nat) ^ 256 \<le> 10 ^ 78" by simp
  finally show "unat x < 10 ^ 78" .
qed

text \<open>What the indexer relies on of the third-party textual forms.\<close>

locale text_library =
  fixes T :: text_lib
  assumes u256_decimal: "tl_u256 T x = show_nat (unat x)"
    and ss58_inject: "tl_ss58 T a = tl_ss58 T b \<Longrightarrow> a = b"
begin

lemma numeric_u256_text: "numeric 78 (tl_u256 T x) = Ok (unat x)"
  by (simp add: u256_decimal)

lemma ss58_eq_iff: "tl_ss58 T a = tl_ss58 T b \<longleftrightarrow> a = b"
  using ss58_inject by blast

end

text \<open>A library with plain decimal text in every place satisfies the interface.\<close>

definition plain_text :: text_lib where
  "plain_text = \<lparr>tl_ss58 = (\<lambda>a. show_nat (unat a)), tl_to_hex = map (\<lambda>b. char_of (unat b)),
     tl_hash_hex = (\<lambda>h. show_nat (unat h)), tl_hex_encode = map (\<lambda>b. char_of (unat b)),
     tl_u256 = (\<lambda>x. show_nat (unat x)), tl_datetime = (\<lambda>ms. Some (sint ms)),
     tl_decimal = (\<lambda>x. if unat x < 2 ^ 96 then Some (show_nat (unat x)) else None),
     tl_decimal_div = (\<lambda>a b. a @ ''/'' @ b), tl_price_column = Some\<rparr>"

interpretation plain: text_library plain_text
  by unfold_locales (simp_all add: plain_text_def word_unat_eq_iff)

end
