(* ===== verification/Table.thy ===== *)
theory Table
  imports Prelude "HOL-Library.Multiset"
begin

section \<open>Tables with a primary key\<close>

text \<open>
  A table is the list of its rows. \<open>upsert\<close> is \<open>INSERT ... ON CONFLICT (key) DO UPDATE\<close>: a
  row with the same key is merged in place, otherwise the row is added. \<open>update_where\<close> and
  \<open>delete_where\<close> are the statements of the same name. The locale \<open>keyed_table\<close> states
  what a merge must respect; its lemmas give the primary key constraint and what a lookup
  returns after each statement.

  The order in which PostgreSQL returns rows whose sort keys agree is not specified: a query
  takes the order of the scan as a parameter, a permutation of the table.
\<close>

primrec upsert :: "('r \<Rightarrow> 'k) \<Rightarrow> ('r \<Rightarrow> 'r \<Rightarrow> 'r) \<Rightarrow> 'r \<Rightarrow> 'r list \<Rightarrow> 'r list" where
  "upsert key merge row [] = [row]"
| "upsert key merge row (r # rs) = (if key r = key row then merge r row # rs
     else r # upsert key merge row rs)"

definition lookup :: "('r \<Rightarrow> 'k) \<Rightarrow> 'k \<Rightarrow> 'r list \<Rightarrow> 'r option" where
  "lookup key k rows = find (\<lambda>r. key r = k) rows"

definition update_where :: "('r \<Rightarrow> bool) \<Rightarrow> ('r \<Rightarrow> 'r) \<Rightarrow> 'r list \<Rightarrow> 'r list" where
  "update_where P f rows = map (\<lambda>r. if P r then f r else r) rows"

definition delete_where :: "('r \<Rightarrow> bool) \<Rightarrow> 'r list \<Rightarrow> 'r list" where
  "delete_where P rows = filter (\<lambda>r. \<not> P r) rows"

definition unique_key :: "('r \<Rightarrow> 'k) \<Rightarrow> 'r list \<Rightarrow> bool" where
  "unique_key key rows \<longleftrightarrow> distinct (map key rows)"

lemma lookup_Nil [simp]: "lookup key k [] = None"
  by (simp add: lookup_def)

lemma lookup_Cons: "lookup key k (r # rs) = (if key r = k then Some r else lookup key k rs)"
  by (simp add: lookup_def)

lemma lookup_Some_key: "lookup key k rows = Some r \<Longrightarrow> key r = k"
  by (auto simp: lookup_def find_Some_iff)

lemma lookup_in_set: "lookup key k rows = Some r \<Longrightarrow> r \<in> set rows"
  by (auto simp: lookup_def find_Some_iff)

lemma lookup_None_iff: "lookup key k rows = None \<longleftrightarrow> k \<notin> key ` set rows"
  by (auto simp: lookup_def find_None_iff)

lemma lookup_None_upsert: "lookup key (key r) rows = None \<Longrightarrow> upsert key merge r rows = rows @ [r]"
  by (induction rows) (auto simp: lookup_Cons split: if_splits)

lemma lookup_unique:
  "unique_key key rows \<Longrightarrow> r \<in> set rows \<Longrightarrow> lookup key (key r) rows = Some r"
  by (induction rows) (auto simp: lookup_Cons unique_key_def)

lemma filter_unique_key:
  "unique_key key rows \<Longrightarrow> lookup key k rows = Some r \<Longrightarrow> filter (\<lambda>x. key x = k) rows = [r]"
proof (induction rows)
  case (Cons x rows)
  show ?case
  proof (cases "key x = k")
    case True
    then have "filter (\<lambda>x. key x = k) rows = []"
      using Cons.prems(1) by (simp add: filter_empty_conv unique_key_def) (metis image_eqI)
    with True Cons.prems(2) show ?thesis by (simp add: lookup_Cons)
  qed (use Cons in \<open>simp add: lookup_Cons unique_key_def\<close>)
qed simp

lemma lookup_update_where:
  assumes "\<And>r. key (f r) = key r"
  shows "lookup key k (update_where P f rows) =
    map_option (\<lambda>r. if P r then f r else r) (lookup key k rows)"
  by (induction rows) (auto simp: update_where_def lookup_Cons assms)

lemma unique_update_where:
  assumes "\<And>r. key (f r) = key r"
  shows "unique_key key (update_where P f rows) = unique_key key rows"
proof -
  have "map key (update_where P f rows) = map key rows"
    by (simp add: update_where_def assms)
  then show ?thesis by (simp add: unique_key_def)
qed

lemma unique_delete_where: "unique_key key rows \<Longrightarrow> unique_key key (delete_where P rows)"
  by (simp add: unique_key_def delete_where_def distinct_map_filter)

lemma delete_where_idem [simp]: "delete_where P (delete_where P rows) = delete_where P rows"
  by (simp add: delete_where_def)

lemma delete_where_append: "delete_where P (xs @ ys) = delete_where P xs @ delete_where P ys"
  by (simp add: delete_where_def)

locale keyed_table =
  fixes key :: "'r \<Rightarrow> 'k" and merge :: "'r \<Rightarrow> 'r \<Rightarrow> 'r"
  assumes merge_key: "key old = key new \<Longrightarrow> key (merge old new) = key new"
begin

lemma keys_upsert: "key ` set (upsert key merge row rows) = insert (key row) (key ` set rows)"
  by (induction rows) (auto simp: merge_key)

lemma unique_upsert: "unique_key key rows \<Longrightarrow> unique_key key (upsert key merge row rows)"
proof (induction rows)
  case Nil
  then show ?case by (simp add: unique_key_def)
next
  case (Cons r rs)
  then show ?case
    using keys_upsert [of row rs] by (auto simp: unique_key_def merge_key)
qed

lemma lookup_upsert:
  "lookup key k (upsert key merge row rows) =
     (if k = key row then Some (case lookup key k rows of None \<Rightarrow> row | Some old \<Rightarrow> merge old row)
      else lookup key k rows)"
  by (induction rows) (auto simp: lookup_Cons merge_key)

lemma lookup_upsert_other: "k \<noteq> key row \<Longrightarrow> lookup key k (upsert key merge row rows) = lookup key k rows"
  by (simp add: lookup_upsert)

lemma length_upsert:
  "length (upsert key merge row rows) =
     (if key row \<in> key ` set rows then length rows else Suc (length rows))"
  by (induction rows) auto

end

text \<open>
  Two statements on the same table, each with its own merge, reach the same contents in either
  order when their merges do so on every starting point of the row.
\<close>

lemma upsert_commute:
  assumes "keyed_table key m1" and "keyed_table key m2"
    and "key r1 = key r2 \<Longrightarrow> m2 r1 r2 = m1 r2 r1"
    and "\<And>old. key old = key r1 \<Longrightarrow> key r1 = key r2 \<Longrightarrow> m2 (m1 old r1) r2 = m1 (m2 old r2) r1"
  shows "lookup key k (upsert key m2 r2 (upsert key m1 r1 rows)) =
    lookup key k (upsert key m1 r1 (upsert key m2 r2 rows))"
  using assms(3,4)
  by (auto simp: keyed_table.lookup_upsert [OF assms(1)] keyed_table.lookup_upsert [OF assms(2)]
      dest: lookup_Some_key split: option.splits)

subsection \<open>Ordered queries\<close>

definition order_by :: "('r \<Rightarrow> 'o::linorder) \<Rightarrow> 'r list \<Rightarrow> 'r list" where
  "order_by f rows = sort_key f rows"

definition order_by_desc :: "('r \<Rightarrow> 'o::linorder) \<Rightarrow> 'r list \<Rightarrow> 'r list" where
  "order_by_desc f rows = rev (sort_key f (rev rows))"

text \<open>\<open>NULL\<close> sorts as larger than every value, first in a descending order.\<close>

definition order_by_desc_nulls_first :: "('r \<Rightarrow> int option) \<Rightarrow> 'r list \<Rightarrow> 'r list" where
  "order_by_desc_nulls_first f rows =
     filter (\<lambda>r. f r = None) rows @ order_by_desc (\<lambda>r. the (f r)) (filter (\<lambda>r. f r \<noteq> None) rows)"

text \<open>\<open>LIMIT l OFFSET s\<close> of a result; both are bound as signed 64-bit integers, never negative.\<close>

definition limit_offset :: "nat \<Rightarrow> nat \<Rightarrow> 'r list \<Rightarrow> 'r list" where
  "limit_offset l s rows = take l (drop s rows)"

definition scan_law :: "('r list \<Rightarrow> 'r list) \<Rightarrow> bool" where
  "scan_law scan \<longleftrightarrow> (\<forall>rows. mset (scan rows) = mset rows)"

lemma scan_law_set: "scan_law scan \<Longrightarrow> set (scan rows) = set rows"
  unfolding scan_law_def by (metis set_mset_mset)

lemma scan_law_id [simp]: "scan_law (\<lambda>rows. rows)"
  by (simp add: scan_law_def)

lemma set_order_by_desc [simp]: "set (order_by_desc f rows) = set rows"
  by (simp add: order_by_desc_def)

lemma length_order_by_desc [simp]: "length (order_by_desc f rows) = length rows"
  by (simp add: order_by_desc_def)

lemma sorted_order_by_desc: "sorted_wrt (\<ge>) (map f (order_by_desc f rows))"
  by (simp add: order_by_desc_def rev_map [symmetric] sorted_wrt_rev)

lemma take_desc_upper:
  assumes "sorted_wrt (\<ge>) (map f xs)" and "x \<in> set (take n xs)" and "y \<in> set (drop n xs)"
  shows "f y \<le> f x"
proof -
  have "sorted_wrt (\<ge>) (map f (take n xs @ drop n xs))" using assms(1) by simp
  then show ?thesis using assms(2,3) unfolding map_append sorted_wrt_append by auto
qed

end
