(* ===== verification/Db_Storage.thy ===== *)
theory Db_Storage
  imports Indexer_Types Table
begin

section \<open>The database of the indexer\<close>

text \<open>
  \<open>Db\<close> of \<open>indexer/src/storage.rs\<close>: one definition per method, over the tables of
  \<open>indexer/migrations\<close>. Each statement may fail before it has any effect (a lost
  connection, a pool timeout): the outcomes of the coming statements are part of the state,
  a list of faults that every statement consumes from. Statements are not grouped in
  transactions, so a method of two statements may stop after the first. The clock that
  \<open>NOW()\<close> reads is part of the state. Columns hold numbers; a method that binds decimal text
  casts it as the SQL does, and a query returns the text of the columns it casts to text.
\<close>

subsection \<open>Tables\<close>

record metadata_row =
  md_process :: string
  md_block :: i64

record xdm_rec =
  xr_src_chain :: string
  xr_dst_chain :: string
  xr_channel_id :: nat
  xr_nonce :: nat
  xr_sender :: "string option"
  xr_receiver :: "string option"
  xr_amount :: "nat option"
  xr_initiated :: "i64 option \<times> string option \<times> datetime option"
  xr_executed :: "i64 option \<times> string option \<times> datetime option"
  xr_acknowledged :: "i64 option \<times> string option \<times> datetime option"
  xr_successful :: "bool option"

record share_price_rec =
  sp_operator_id :: i64
  sp_domain_id :: "32 word"
  sp_epoch_index :: i64
  sp_share_price :: string
  sp_total_stake :: nat
  sp_total_shares :: nat
  sp_block_height :: i64
  sp_block_time :: datetime

record nominator_rec =
  nr_operator_id :: i64
  nr_address :: string
  nr_status :: string
  nr_block_height :: i64

record operator_rec =
  or_operator_id :: i64
  or_domain_id :: "32 word"
  or_owner_account :: string
  or_signing_key :: string
  or_minimum_nominator_stake :: nat
  or_nomination_tax :: "16 word"
  or_status :: string
  or_total_stake :: nat
  or_total_shares :: nat
  or_total_storage_fee_deposit :: nat
  or_updated_at :: datetime
  or_nominator_count :: i64

record deposit_rec =
  dr_operator_id :: i64
  dr_address :: string
  dr_amount :: nat
  dr_storage_fee :: nat
  dr_block_height :: i64
  dr_block_time :: datetime

record withdrawal_rec =
  wr_operator_id :: i64
  wr_address :: string
  wr_shares :: nat
  wr_amount :: nat
  wr_storage_fee_refund :: nat
  wr_block_height :: i64
  wr_block_time :: datetime

record db =
  db_metadata :: "metadata_row list"
  db_xdm_transfers :: "xdm_rec list"
  db_share_prices :: "share_price_rec list"
  db_nominators :: "nominator_rec list"
  db_operators :: "operator_rec list"
  db_deposits :: "deposit_rec list"
  db_withdrawals :: "withdrawal_rec list"
  db_now :: datetime
  db_faults :: "db_error option list"

type_synonym 'a db_op = "(db, 'a, indexer_error) prog"

definition empty_db :: db where
  "empty_db = \<lparr>db_metadata = [], db_xdm_transfers = [], db_share_prices = [], db_nominators = [],
     db_operators = [], db_deposits = [], db_withdrawals = [], db_now = 0, db_faults = []\<rparr>"

subsection \<open>Statements\<close>

definition execute :: "'a db_op \<Rightarrow> 'a db_op" where
  "execute f s = (case db_faults s of
     [] \<Rightarrow> f s
   | None # fs \<Rightarrow> f (s\<lparr>db_faults := fs\<rparr>)
   | Some e # fs \<Rightarrow> (Err (I_DB e), s\<lparr>db_faults := fs\<rparr>))"

definition write_row :: "('r, indexer_error) result \<Rightarrow> ('r \<Rightarrow> db \<Rightarrow> db) \<Rightarrow> unit db_op" where
  "write_row row f = execute (\<lambda>s. case row of
     Ok r \<Rightarrow> (Ok (), f r s) | Err e \<Rightarrow> (Err e, s) | Panic p \<Rightarrow> (Panic p, s))"

definition query :: "(db \<Rightarrow> ('a, indexer_error) result) \<Rightarrow> 'a db_op" where
  "query f = execute (\<lambda>s. (f s, s))"

definition limit_rows :: "i64 \<Rightarrow> i64 \<Rightarrow> 'r list \<Rightarrow> ('r list, indexer_error) result" where
  "limit_rows l off rows =
     (if sint l < 0 then Err (I_DB (Database ''LIMIT must not be negative''))
      else if sint off < 0 then Err (I_DB (Database ''OFFSET must not be negative''))
      else Ok (limit_offset (nat (sint l)) (nat (sint off)) rows))"

subsection \<open>Checkpoints\<close>

definition merge_metadata :: "metadata_row \<Rightarrow> metadata_row \<Rightarrow> metadata_row" where
  "merge_metadata old new = old\<lparr>md_block := md_block new\<rparr>"

definition set_last_processed_block :: "string \<Rightarrow> u32 \<Rightarrow> unit db_op" where
  "set_last_processed_block proc n = write_row (Ok \<lparr>md_process = proc, md_block = ucast n\<rparr>)
     (\<lambda>r s. s\<lparr>db_metadata := upsert md_process merge_metadata r (db_metadata s)\<rparr>)"

definition get_last_processed_block :: "string \<Rightarrow> u32 db_op" where
  "get_last_processed_block proc = query (\<lambda>s.
     case lookup md_process proc (db_metadata s) of
       None \<Rightarrow> Err (I_DB RowNotFound) | Some r \<Rightarrow> Ok (ucast (md_block r)))"

subsection \<open>Cross-domain transfers\<close>

definition xdm_key :: "xdm_rec \<Rightarrow> string \<times> string \<times> nat \<times> nat" where
  "xdm_key r = (xr_src_chain r, xr_dst_chain r, xr_channel_id r, xr_nonce r)"

definition block_columns :: "text_lib \<Rightarrow> hash_and_number \<Rightarrow> datetime \<Rightarrow>
    i64 option \<times> string option \<times> datetime option" where
  "block_columns T block block_time =
     (Some (ucast (hn_number block)), Some (tl_hash_hex T (hn_hash block)), Some block_time)"

text \<open>A row with only its key columns set; the other columns are \<open>NULL\<close>.\<close>

definition xdm_row :: "text_lib \<Rightarrow> chain_id \<Rightarrow> chain_id \<Rightarrow> xdm_message_id \<Rightarrow> (xdm_rec, indexer_error) result" where
  "xdm_row T src dst msg =
     bind_result (numeric 78 (tl_u256 T (fst msg))) (\<lambda>channel.
     bind_result (numeric 78 (tl_u256 T (snd msg))) (\<lambda>nonce.
     Ok \<lparr>xr_src_chain = show_chain_id src, xr_dst_chain = show_chain_id dst,
       xr_channel_id = channel, xr_nonce = nonce, xr_sender = None, xr_receiver = None,
       xr_amount = None, xr_initiated = (None, None, None), xr_executed = (None, None, None),
       xr_acknowledged = (None, None, None), xr_successful = None\<rparr>))"

definition merge_executed :: "xdm_rec \<Rightarrow> xdm_rec \<Rightarrow> xdm_rec" where
  "merge_executed old new = old\<lparr>xr_amount := xr_amount new, xr_executed := xr_executed new,
     xr_successful := xr_successful new\<rparr>"

definition merge_acknowledged :: "xdm_rec \<Rightarrow> xdm_rec \<Rightarrow> xdm_rec" where
  "merge_acknowledged old new = old\<lparr>xr_acknowledged := xr_acknowledged new,
     xr_successful := xr_successful new\<rparr>"

definition merge_initiated :: "xdm_rec \<Rightarrow> xdm_rec \<Rightarrow> xdm_rec" where
  "merge_initiated old new = old\<lparr>xr_sender := xr_sender new, xr_receiver := xr_receiver new,
     xr_amount := xr_amount new, xr_initiated := xr_initiated new\<rparr>"

definition write_xdm ::
  "(xdm_rec \<Rightarrow> xdm_rec \<Rightarrow> xdm_rec) \<Rightarrow> (xdm_rec, indexer_error) result \<Rightarrow> unit db_op" where
  "write_xdm merge row = write_row row
     (\<lambda>r s. s\<lparr>db_xdm_transfers := upsert xdm_key merge r (db_xdm_transfers s)\<rparr>)"

definition store_incoming_transfer_execution ::
  "text_lib \<Rightarrow> hash_and_number \<Rightarrow> chain_id \<Rightarrow> datetime \<Rightarrow> incoming_transfer_successful \<Rightarrow> unit db_op" where
  "store_incoming_transfer_execution T block dst_chain block_time ev =
     write_xdm merge_executed
       (bind_result (xdm_row T (is_chain_id ev) dst_chain (is_message_id ev)) (\<lambda>r.
        bind_result (numeric 39 (show_nat (unat (is_amount ev)))) (\<lambda>amount.
        Ok (r\<lparr>xr_amount := Some amount, xr_executed := block_columns T block block_time,
          xr_successful := Some True\<rparr>))))"

definition store_outgoing_transfer_acknowledgement ::
  "text_lib \<Rightarrow> hash_and_number \<Rightarrow> chain_id \<Rightarrow> chain_id \<Rightarrow> datetime \<Rightarrow> xdm_message_id \<Rightarrow> bool \<Rightarrow> unit db_op" where
  "store_outgoing_transfer_acknowledgement T block src_chain dst_chain block_time msg transfer_status =
     write_xdm merge_acknowledged
       (bind_result (xdm_row T src_chain dst_chain msg) (\<lambda>r.
        Ok (r\<lparr>xr_acknowledged := block_columns T block block_time,
          xr_successful := Some transfer_status\<rparr>)))"

definition store_outgoing_transfer_initiated ::
  "text_lib \<Rightarrow> hash_and_number \<Rightarrow> datetime \<Rightarrow> outgoing_transfer_initiated_with_transfer \<Rightarrow> unit db_op" where
  "store_outgoing_transfer_initiated T block block_time ev =
     (let t = ow_transfer ev in write_xdm merge_initiated
       (bind_result (xdm_row T (lo_chain_id (xt_sender t)) (lo_chain_id (xt_receiver t)) (ow_message_id ev)) (\<lambda>r.
        bind_result (numeric 39 (show_nat (unat (xt_amount t)))) (\<lambda>amount.
        Ok (r\<lparr>xr_sender := Some (show_account T (lo_account_id (xt_sender t))),
          xr_receiver := Some (show_account T (lo_account_id (xt_receiver t))),
          xr_amount := Some amount, xr_initiated := block_columns T block block_time\<rparr>)))))"

primrec store_event :: "text_lib \<Rightarrow> chain_id \<Rightarrow> hash_and_number \<Rightarrow> datetime \<Rightarrow> xdm_event \<Rightarrow> unit db_op" where
  "store_event T src_chain block block_time (XOutgoingTransferInitiated ev) =
     store_outgoing_transfer_initiated T block block_time ev"
| "store_event T src_chain block block_time (XOutgoingTransferFailed ev) =
     store_outgoing_transfer_acknowledgement T block src_chain (of_chain_id ev) block_time (of_message_id ev) False"
| "store_event T src_chain block block_time (XOutgoingTransferSuccessful ev) =
     store_outgoing_transfer_acknowledgement T block src_chain (os_chain_id ev) block_time (os_message_id ev) True"
| "store_event T src_chain block block_time (XIncomingTransferSuccessful ev) =
     store_incoming_transfer_execution T block src_chain block_time ev"

definition store_events ::
  "text_lib \<Rightarrow> chain_id \<Rightarrow> hash_and_number \<Rightarrow> datetime \<Rightarrow> xdm_event list \<Rightarrow> unit db_op" where
  "store_events T src_chain block block_time events =
     for_prog events (store_event T src_chain block block_time)"

record xdm_transfer_row =
  xq_src_chain :: string
  xq_dst_chain :: string
  xq_channel_id :: string
  xq_nonce :: string
  xq_sender :: "string option"
  xq_receiver :: "string option"
  xq_amount :: "u128 option"
  xq_initiated :: "i64 option \<times> string option \<times> datetime option"
  xq_executed :: "i64 option \<times> string option \<times> datetime option"
  xq_acknowledged :: "i64 option \<times> string option \<times> datetime option"
  xq_successful :: "bool option"

definition xdm_from_row :: "xdm_rec \<Rightarrow> (xdm_transfer_row, indexer_error) result" where
  "xdm_from_row r = bind_result
     (case xr_amount r of None \<Rightarrow> Ok None
      | Some n \<Rightarrow> map_ok Some (u128_compat_decode (show_nat n))) (\<lambda>amount.
     Ok \<lparr>xq_src_chain = xr_src_chain r, xq_dst_chain = xr_dst_chain r,
       xq_channel_id = show_nat (xr_channel_id r), xq_nonce = show_nat (xr_nonce r),
       xq_sender = xr_sender r, xq_receiver = xr_receiver r, xq_amount = amount,
       xq_initiated = xr_initiated r, xq_executed = xr_executed r,
       xq_acknowledged = xr_acknowledged r, xq_successful = xr_successful r\<rparr>)"

definition initiated_at :: "xdm_rec \<Rightarrow> datetime option" where
  "initiated_at r = snd (snd (xr_initiated r))"

definition get_xdm_transfer_for_address ::
  "(xdm_rec list \<Rightarrow> xdm_rec list) \<Rightarrow> string \<Rightarrow> xdm_transfer_row list db_op" where
  "get_xdm_transfer_for_address scan address = query (\<lambda>s. try_collect (map xdm_from_row
     (order_by_desc_nulls_first initiated_at
       (filter (\<lambda>r. xr_sender r = Some address \<or> xr_receiver r = Some address)
         (scan (db_xdm_transfers s))))))"

definition get_recent_xdm_transfers ::
  "(xdm_rec list \<Rightarrow> xdm_rec list) \<Rightarrow> u64 \<Rightarrow> xdm_transfer_row list db_op" where
  "get_recent_xdm_transfers scan lim = query (\<lambda>s.
     bind_result (limit_rows lim 0 (order_by_desc_nulls_first initiated_at
       (filter (\<lambda>r. initiated_at r \<noteq> None) (scan (db_xdm_transfers s)))))
     (\<lambda>rows. try_collect (map xdm_from_row rows)))"

subsection \<open>Share prices\<close>

record upsert_share_price =
  us_operator_id :: i64
  us_domain_id :: "32 word"
  us_epoch_index :: i64
  us_share_price :: string
  us_total_stake :: u128
  us_total_shares :: u128
  us_block_height :: i64
  us_block_time :: datetime

definition share_price_key :: "share_price_rec \<Rightarrow> i64 \<times> 32 word \<times> i64" where
  "share_price_key r = (sp_operator_id r, sp_domain_id r, sp_epoch_index r)"

definition merge_share_price :: "share_price_rec \<Rightarrow> share_price_rec \<Rightarrow> share_price_rec" where
  "merge_share_price old new = old\<lparr>sp_share_price := sp_share_price new,
     sp_total_stake := sp_total_stake new, sp_total_shares := sp_total_shares new,
     sp_block_height := sp_block_height new, sp_block_time := sp_block_time new\<rparr>"

definition upsert_epoch_share_price :: "text_lib \<Rightarrow> upsert_share_price \<Rightarrow> unit db_op" where
  "upsert_epoch_share_price T p = write_row
     (bind_result (ok_or (tl_price_column T (us_share_price p))
        (I_DB (Database ''numeric field overflow''))) (\<lambda>price.
      bind_result (numeric 39 (show_nat (unat (us_total_stake p)))) (\<lambda>total_stake.
      bind_result (numeric 39 (show_nat (unat (us_total_shares p)))) (\<lambda>total_shares.
      Ok \<lparr>sp_operator_id = us_operator_id p, sp_domain_id = us_domain_id p,
        sp_epoch_index = us_epoch_index p, sp_share_price = price,
        sp_total_stake = total_stake, sp_total_shares = total_shares,
        sp_block_height = us_block_height p, sp_block_time = us_block_time p\<rparr>))))
     (\<lambda>r s. s\<lparr>db_share_prices := upsert share_price_key merge_share_price r (db_share_prices s)\<rparr>)"

record share_price_row =
  sq_operator_id :: string
  sq_domain_id :: string
  sq_epoch_index :: i64
  sq_share_price :: string
  sq_total_stake :: string
  sq_total_shares :: string
  sq_block_height :: string
  sq_block_time :: datetime

definition share_price_from_row :: "share_price_rec \<Rightarrow> share_price_row" where
  "share_price_from_row r = \<lparr>sq_operator_id = show_int (sint (sp_operator_id r)),
     sq_domain_id = show_int (sint (sp_domain_id r)), sq_epoch_index = sp_epoch_index r,
     sq_share_price = sp_share_price r, sq_total_stake = show_nat (sp_total_stake r),
     sq_total_shares = show_nat (sp_total_shares r),
     sq_block_height = show_int (sint (sp_block_height r)), sq_block_time = sp_block_time r\<rparr>"

type_synonym price_scan = "share_price_rec list \<Rightarrow> share_price_rec list"

definition get_share_prices_latest :: "price_scan \<Rightarrow> i64 \<Rightarrow> i64 \<Rightarrow> share_price_row list db_op" where
  "get_share_prices_latest scan operator_id lim = query (\<lambda>s. map_ok (map share_price_from_row)
     (limit_rows lim 0 (order_by_desc sp_block_time
       (filter (\<lambda>r. sp_operator_id r = operator_id) (scan (db_share_prices s))))))"

definition get_share_prices_since ::
  "price_scan \<Rightarrow> i64 \<Rightarrow> datetime \<Rightarrow> i64 \<Rightarrow> share_price_row list db_op" where
  "get_share_prices_since scan operator_id since lim = query (\<lambda>s. map_ok (map share_price_from_row)
     (limit_rows lim 0 (order_by sp_block_time
       (filter (\<lambda>r. sp_operator_id r = operator_id \<and> since \<le> sp_block_time r) (scan (db_share_prices s))))))"

definition get_share_prices_until ::
  "price_scan \<Rightarrow> i64 \<Rightarrow> datetime \<Rightarrow> i64 \<Rightarrow> share_price_row list db_op" where
  "get_share_prices_until scan operator_id til lim = query (\<lambda>s. map_ok (map share_price_from_row)
     (limit_rows lim 0 (order_by_desc sp_block_time
       (filter (\<lambda>r. sp_operator_id r = operator_id \<and> sp_block_time r \<le> til) (scan (db_share_prices s))))))"

subsection \<open>Nominators\<close>

definition nominator_key :: "nominator_rec \<Rightarrow> i64 \<times> string" where
  "nominator_key r = (nr_operator_id r, nr_address r)"

text \<open>The guard of the update: a write from an older block does not change the row.\<close>

definition merge_nominator :: "nominator_rec \<Rightarrow> nominator_rec \<Rightarrow> nominator_rec" where
  "merge_nominator old new = (if sint (nr_block_height old) \<le> sint (nr_block_height new)
     then old\<lparr>nr_status := nr_status new, nr_block_height := nr_block_height new\<rparr> else old)"

definition active_count :: "i64 \<Rightarrow> nominator_rec list \<Rightarrow> i64" where
  "active_count operator_id rows =
     of_nat (length (filter (\<lambda>r. nr_operator_id r = operator_id \<and> nr_status r = ''active'') rows))"

definition write_nominator :: "u64 \<Rightarrow> string \<Rightarrow> string \<Rightarrow> u32 \<Rightarrow> unit db_op" where
  "write_nominator operator_id address status block_height = write_row
     (Ok \<lparr>nr_operator_id = operator_id, nr_address = address, nr_status = status,
        nr_block_height = ucast block_height\<rparr>)
     (\<lambda>r s. s\<lparr>db_nominators := upsert nominator_key merge_nominator r (db_nominators s)\<rparr>)"

text \<open>
  The statement that refreshes the counter of an operator has a subselect, which reads a snapshot
  of the nominators as of the start of the statement, and an update that stores what was counted.
  The two are one step here, where nothing else runs; \<open>Concurrent_Blocks\<close> takes them apart.
\<close>

definition write_nominator_count :: "u64 \<Rightarrow> i64 \<Rightarrow> unit db_op" where
  "write_nominator_count operator_id k = write_row (Ok ())
     (\<lambda>_ s. s\<lparr>db_operators := update_where (\<lambda>r. or_operator_id r = operator_id)
        (\<lambda>r. r\<lparr>or_nominator_count := k\<rparr>) (db_operators s)\<rparr>)"

definition refresh_nominator_count :: "u64 \<Rightarrow> unit db_op" where
  "refresh_nominator_count operator_id s =
     write_nominator_count operator_id (active_count operator_id (db_nominators s)) s"

lemma refresh_nominator_count_eq:
  "refresh_nominator_count operator_id = write_row (Ok ())
     (\<lambda>_ s. s\<lparr>db_operators := update_where (\<lambda>r. or_operator_id r = operator_id)
        (\<lambda>r. r\<lparr>or_nominator_count := active_count operator_id (db_nominators s)\<rparr>) (db_operators s)\<rparr>)"
  by (auto simp: fun_eq_iff refresh_nominator_count_def write_nominator_count_def write_row_def execute_def
      split: list.split option.split)

definition upsert_nominator :: "u64 \<Rightarrow> string \<Rightarrow> string \<Rightarrow> u32 \<Rightarrow> unit db_op" where
  "upsert_nominator operator_id address status block_height =
     then_prog (write_nominator operator_id address status block_height)
       (refresh_nominator_count operator_id)"

definition get_active_nominator_count :: "i64 \<Rightarrow> i64 db_op" where
  "get_active_nominator_count operator_id = query (\<lambda>s. Ok (active_count operator_id (db_nominators s)))"

definition get_nominator_operator_ids ::
  "(nominator_rec list \<Rightarrow> nominator_rec list) \<Rightarrow> string \<Rightarrow> string list db_op" where
  "get_nominator_operator_ids scan address = query (\<lambda>s. Ok (map (\<lambda>r. show_int (sint (nr_operator_id r)))
     (filter (\<lambda>r. nr_address r = address) (scan (db_nominators s)))))"

subsection \<open>Operators\<close>

record upsert_operator_args =
  uo_operator_id :: u64
  uo_domain_id :: u32
  uo_owner_account :: string
  uo_signing_key :: string
  uo_minimum_nominator_stake :: u128
  uo_nomination_tax :: u8
  uo_status :: string
  uo_total_stake :: u128
  uo_total_shares :: u128
  uo_total_storage_fee_deposit :: u128
  uo_block_time :: datetime

definition merge_operator :: "operator_rec \<Rightarrow> operator_rec \<Rightarrow> operator_rec" where
  "merge_operator old new = old\<lparr>or_status := or_status new, or_total_stake := or_total_stake new,
     or_total_shares := or_total_shares new,
     or_total_storage_fee_deposit := or_total_storage_fee_deposit new,
     or_updated_at := or_updated_at new\<rparr>"

definition upsert_operator :: "upsert_operator_args \<Rightarrow> unit db_op" where
  "upsert_operator op = write_row
     (bind_result (numeric 39 (show_nat (unat (uo_minimum_nominator_stake op)))) (\<lambda>min_stake.
      bind_result (numeric 39 (show_nat (unat (uo_total_stake op)))) (\<lambda>total_stake.
      bind_result (numeric 39 (show_nat (unat (uo_total_shares op)))) (\<lambda>total_shares.
      bind_result (numeric 39 (show_nat (unat (uo_total_storage_fee_deposit op)))) (\<lambda>fee_deposit.
      Ok \<lparr>or_operator_id = uo_operator_id op, or_domain_id = uo_domain_id op,
        or_owner_account = uo_owner_account op, or_signing_key = uo_signing_key op,
        or_minimum_nominator_stake = min_stake, or_nomination_tax = ucast (uo_nomination_tax op),
        or_status = uo_status op, or_total_stake = total_stake, or_total_shares = total_shares,
        or_total_storage_fee_deposit = fee_deposit, or_updated_at = uo_block_time op,
        or_nominator_count = 0\<rparr>)))))
     (\<lambda>r s. s\<lparr>db_operators := upsert or_operator_id merge_operator r (db_operators s)\<rparr>)"

definition update_operator_status :: "u64 \<Rightarrow> string \<Rightarrow> unit db_op" where
  "update_operator_status operator_id status = write_row (Ok ())
     (\<lambda>_ s. s\<lparr>db_operators := update_where (\<lambda>r. or_operator_id r = operator_id)
        (\<lambda>r. r\<lparr>or_status := status, or_updated_at := db_now s\<rparr>) (db_operators s)\<rparr>)"

definition update_operator_stats ::
  "u64 \<Rightarrow> string \<Rightarrow> u128 \<Rightarrow> u128 \<Rightarrow> u128 \<Rightarrow> datetime \<Rightarrow> unit db_op" where
  "update_operator_stats operator_id status total_stake total_shares fee_deposit block_time = write_row
     (bind_result (numeric 39 (show_nat (unat total_stake))) (\<lambda>stake.
      bind_result (numeric 39 (show_nat (unat total_shares))) (\<lambda>shares.
      bind_result (numeric 39 (show_nat (unat fee_deposit))) (\<lambda>fee. Ok (stake, shares, fee)))))
     (\<lambda>(stake, shares, fee) s. s\<lparr>db_operators := update_where (\<lambda>r. or_operator_id r = operator_id)
        (\<lambda>r. r\<lparr>or_status := status, or_total_stake := stake, or_total_shares := shares,
          or_total_storage_fee_deposit := fee, or_updated_at := block_time\<rparr>) (db_operators s)\<rparr>)"

record operator_row =
  oq_operator_id :: string
  oq_domain_id :: string
  oq_owner_account :: string
  oq_signing_key :: string
  oq_minimum_nominator_stake :: string
  oq_nomination_tax :: "16 word"
  oq_status :: string
  oq_total_stake :: string
  oq_total_shares :: string
  oq_total_storage_fee_deposit :: string
  oq_nominator_count :: i64

definition operator_from_row :: "operator_rec \<Rightarrow> operator_row" where
  "operator_from_row r = \<lparr>oq_operator_id = show_int (sint (or_operator_id r)),
     oq_domain_id = show_int (sint (or_domain_id r)), oq_owner_account = or_owner_account r,
     oq_signing_key = or_signing_key r,
     oq_minimum_nominator_stake = show_nat (or_minimum_nominator_stake r),
     oq_nomination_tax = or_nomination_tax r, oq_status = or_status r,
     oq_total_stake = show_nat (or_total_stake r), oq_total_shares = show_nat (or_total_shares r),
     oq_total_storage_fee_deposit = show_nat (or_total_storage_fee_deposit r),
     oq_nominator_count = or_nominator_count r\<rparr>"

definition get_all_operators :: "operator_row list db_op" where
  "get_all_operators = query (\<lambda>s. Ok (map operator_from_row
     (order_by (\<lambda>r. sint (or_operator_id r)) (db_operators s))))"

definition get_operator :: "i64 \<Rightarrow> operator_row option db_op" where
  "get_operator operator_id = query (\<lambda>s. Ok (map_option operator_from_row
     (lookup or_operator_id operator_id (db_operators s))))"

subsection \<open>Deposits and withdrawals\<close>

definition delete_deposits_for_block :: "u32 \<Rightarrow> unit db_op" where
  "delete_deposits_for_block n = write_row (Ok ())
     (\<lambda>_ s. s\<lparr>db_deposits := delete_where (\<lambda>r. dr_block_height r = ucast n) (db_deposits s)\<rparr>)"

definition delete_withdrawals_for_block :: "u32 \<Rightarrow> unit db_op" where
  "delete_withdrawals_for_block n = write_row (Ok ())
     (\<lambda>_ s. s\<lparr>db_withdrawals := delete_where (\<lambda>r. wr_block_height r = ucast n) (db_withdrawals s)\<rparr>)"

definition insert_deposit :: "u64 \<Rightarrow> string \<Rightarrow> u128 \<Rightarrow> u128 \<Rightarrow> u32 \<Rightarrow> datetime \<Rightarrow> unit db_op" where
  "insert_deposit operator_id address amount storage_fee block_height block_time = write_row
     (bind_result (numeric 39 (show_nat (unat amount))) (\<lambda>a.
      bind_result (numeric 39 (show_nat (unat storage_fee))) (\<lambda>f.
      Ok \<lparr>dr_operator_id = operator_id, dr_address = address, dr_amount = a, dr_storage_fee = f,
        dr_block_height = ucast block_height, dr_block_time = block_time\<rparr>)))
     (\<lambda>r s. s\<lparr>db_deposits := db_deposits s @ [r]\<rparr>)"

record insert_withdrawal_args =
  iw_operator_id :: u64
  iw_address :: string
  iw_shares :: u128
  iw_amount :: u128
  iw_storage_fee_refund :: u128
  iw_block_height :: u32
  iw_block_time :: datetime

definition insert_withdrawal :: "insert_withdrawal_args \<Rightarrow> unit db_op" where
  "insert_withdrawal w = write_row
     (bind_result (numeric 39 (show_nat (unat (iw_shares w)))) (\<lambda>sh.
      bind_result (numeric 39 (show_nat (unat (iw_amount w)))) (\<lambda>a.
      bind_result (numeric 39 (show_nat (unat (iw_storage_fee_refund w)))) (\<lambda>rf.
      Ok \<lparr>wr_operator_id = iw_operator_id w, wr_address = iw_address w, wr_shares = sh, wr_amount = a,
        wr_storage_fee_refund = rf, wr_block_height = ucast (iw_block_height w),
        wr_block_time = iw_block_time w\<rparr>))))
     (\<lambda>r s. s\<lparr>db_withdrawals := db_withdrawals s @ [r]\<rparr>)"

record deposit_row =
  dq_operator_id :: string
  dq_address :: string
  dq_amount :: string
  dq_storage_fee :: string
  dq_block_height :: i64
  dq_block_time :: datetime

definition deposit_from_row :: "deposit_rec \<Rightarrow> deposit_row" where
  "deposit_from_row r = \<lparr>dq_operator_id = show_int (sint (dr_operator_id r)),
     dq_address = dr_address r, dq_amount = show_nat (dr_amount r),
     dq_storage_fee = show_nat (dr_storage_fee r), dq_block_height = dr_block_height r,
     dq_block_time = dr_block_time r\<rparr>"

definition get_deposits ::
  "(deposit_rec list \<Rightarrow> deposit_rec list) \<Rightarrow> string \<Rightarrow> i64 \<Rightarrow> i64 \<Rightarrow> i64 \<Rightarrow> deposit_row list db_op" where
  "get_deposits scan address operator_id lim off = query (\<lambda>s. map_ok (map deposit_from_row)
     (limit_rows lim off (order_by_desc dr_block_time
       (filter (\<lambda>r. dr_address r = address \<and> dr_operator_id r = operator_id) (scan (db_deposits s))))))"

record withdrawal_row =
  wq_operator_id :: string
  wq_address :: string
  wq_shares :: string
  wq_amount :: string
  wq_storage_fee_refund :: string
  wq_block_height :: i64
  wq_block_time :: datetime

definition withdrawal_from_row :: "withdrawal_rec \<Rightarrow> withdrawal_row" where
  "withdrawal_from_row r = \<lparr>wq_operator_id = show_int (sint (wr_operator_id r)),
     wq_address = wr_address r, wq_shares = show_nat (wr_shares r), wq_amount = show_nat (wr_amount r),
     wq_storage_fee_refund = show_nat (wr_storage_fee_refund r), wq_block_height = wr_block_height r,
     wq_block_time = wr_block_time r\<rparr>"

definition get_withdrawals ::
  "(withdrawal_rec list \<Rightarrow> withdrawal_rec list) \<Rightarrow> string \<Rightarrow> i64 \<Rightarrow> i64 \<Rightarrow> i64 \<Rightarrow> withdrawal_row list db_op" where
  "get_withdrawals scan address operator_id lim off = query (\<lambda>s. map_ok (map withdrawal_from_row)
     (limit_rows lim off (order_by_desc wr_block_time
       (filter (\<lambda>r. wr_address r = address \<and> wr_operator_id r = operator_id) (scan (db_withdrawals s))))))"

end
