(* ===== verification/Storage_Correct.thy ===== *)
theory Storage_Correct
  imports Db_Storage
begin

section \<open>The database is kept consistent\<close>

text \<open>
  The primary keys of the tables, what a read returns after a write, the counters of
  \<open>indexer.operators\<close>, and the writes that blocks processed concurrently may apply in any
  order. Each upsert of \<open>Db\<close> is an instance of the locale \<open>keyed_table\<close>.
\<close>

interpretation metadata_table: keyed_table md_process merge_metadata
  by unfold_locales (simp add: merge_metadata_def)

interpretation executed_table: keyed_table xdm_key merge_executed
  by unfold_locales (simp add: merge_executed_def xdm_key_def)

interpretation acknowledged_table: keyed_table xdm_key merge_acknowledged
  by unfold_locales (simp add: merge_acknowledged_def xdm_key_def)

interpretation initiated_table: keyed_table xdm_key merge_initiated
  by unfold_locales (simp add: merge_initiated_def xdm_key_def)

interpretation price_table: keyed_table share_price_key merge_share_price
  by unfold_locales (simp add: merge_share_price_def share_price_key_def)

interpretation nominator_table: keyed_table nominator_key merge_nominator
  by unfold_locales (simp add: merge_nominator_def nominator_key_def)

interpretation operator_table: keyed_table or_operator_id merge_operator
  by unfold_locales (simp add: merge_operator_def)

subsection \<open>Statements\<close>

lemma execute_no_fault [simp]: "db_faults s = [] \<Longrightarrow> execute f s = f s"
  by (simp add: execute_def)

lemma write_row_no_fault [simp]: "db_faults s = [] \<Longrightarrow> write_row (Ok r) f s = (Ok (), f r s)"
  by (simp add: write_row_def)

lemma write_row_Ok:
  "write_row row f s = (Ok (), s') \<Longrightarrow> \<exists>r fs. row = Ok r \<and> s' = f r (s\<lparr>db_faults := fs\<rparr>)"
  by (auto simp: write_row_def execute_def split: list.splits option.splits result.splits)
    (metis (no_types) db.surjective db.update_convs(9))+

lemma query_no_fault [simp]: "db_faults s = [] \<Longrightarrow> query f s = (f s, s)"
  by (simp add: query_def)

text \<open>A statement that fails leaves every table as it was.\<close>

lemma preserves_write_row:
  assumes "\<And>s fs. I s \<Longrightarrow> I (s\<lparr>db_faults := fs\<rparr>)" and "\<And>r s. row = Ok r \<Longrightarrow> I s \<Longrightarrow> I (f r s)"
  shows "preserves I (write_row row f)"
  using assms
  by (auto simp: preserves_def write_row_def execute_def split: list.splits option.splits result.splits)

lemma preserves_query:
  assumes "\<And>s fs. I s \<Longrightarrow> I (s\<lparr>db_faults := fs\<rparr>)"
  shows "preserves I (query f)"
  using assms by (auto simp: preserves_def query_def execute_def split: list.splits option.splits)

subsection \<open>Primary keys\<close>

definition amount_fits :: "nat option \<Rightarrow> bool" where
  "amount_fits a \<longleftrightarrow> (case a of None \<Rightarrow> True | Some n \<Rightarrow> n < 2 ^ 128)"

lemma amount_fits_simps [simp]: "amount_fits None" "amount_fits (Some (unat (x :: u128)))"
  using unsigned_less [of x] by (simp_all add: amount_fits_def)

definition db_ok :: "db \<Rightarrow> bool" where
  "db_ok s \<longleftrightarrow> unique_key md_process (db_metadata s) \<and> unique_key xdm_key (db_xdm_transfers s) \<and>
     unique_key share_price_key (db_share_prices s) \<and> unique_key nominator_key (db_nominators s) \<and>
     unique_key or_operator_id (db_operators s) \<and>
     (\<forall>r \<in> set (db_xdm_transfers s). amount_fits (xr_amount r))"

lemma db_ok_empty [simp]: "db_ok empty_db"
  by (simp add: db_ok_def empty_db_def unique_key_def)

lemma db_ok_faults [simp]: "db_ok (s\<lparr>db_faults := fs\<rparr>) = db_ok s"
  by (simp add: db_ok_def)

lemmas db_ok_write = preserves_write_row [where I = db_ok]

lemma set_last_processed_block_ok: "preserves db_ok (set_last_processed_block p n)"
  unfolding set_last_processed_block_def
  by (rule db_ok_write) (auto simp: db_ok_def metadata_table.unique_upsert)

lemma set_upsert: "set (upsert key merge r rows) \<subseteq> insert r (set rows \<union> (\<lambda>old. merge old r) ` set rows)"
  by (induction rows) auto

lemma write_xdm_ok:
  assumes "keyed_table xdm_key merge" and "\<And>r. row = Ok r \<Longrightarrow> amount_fits (xr_amount r)"
    and "\<And>old new. xr_amount (merge old new) \<in> {xr_amount old, xr_amount new}"
  shows "preserves db_ok (write_xdm merge row)"
  unfolding write_xdm_def
proof (rule db_ok_write)
  fix r s assume row: "row = Ok r" and ok: "db_ok s"
  have "amount_fits (xr_amount x)" if x: "x \<in> set (upsert xdm_key merge r (db_xdm_transfers s))" for x
  proof -
    from x set_upsert [of xdm_key merge r "db_xdm_transfers s"]
    consider "x = r" | "x \<in> set (db_xdm_transfers s)"
      | old where "old \<in> set (db_xdm_transfers s)" "x = merge old r" by blast
    then show ?thesis
    proof cases
      case 3
      then show ?thesis
        using assms(2) [OF row] assms(3) [of old r] ok by (auto simp: db_ok_def)
    qed (use assms(2) [OF row] ok in \<open>auto simp: db_ok_def\<close>)
  qed
  then show "db_ok (s\<lparr>db_xdm_transfers := upsert xdm_key merge r (db_xdm_transfers s)\<rparr>)"
    using ok keyed_table.unique_upsert [OF assms(1)] by (simp add: db_ok_def)
qed simp

lemma xdm_row_amount: "xdm_row T src dst msg = Ok r \<Longrightarrow> xr_amount r = None"
  by (auto simp: xdm_row_def)

lemma store_event_ok: "preserves db_ok (store_event T src block t ev)"
proof (cases ev)
  case (XOutgoingTransferInitiated e)
  then show ?thesis
    by (auto simp: store_outgoing_transfer_initiated_def Let_def merge_initiated_def
        intro!: write_xdm_ok initiated_table.keyed_table_axioms)
next
  case (XIncomingTransferSuccessful e)
  then show ?thesis
    by (auto simp: store_incoming_transfer_execution_def merge_executed_def
        intro!: write_xdm_ok executed_table.keyed_table_axioms)
qed (auto simp: store_outgoing_transfer_acknowledgement_def merge_acknowledged_def
    intro!: write_xdm_ok acknowledged_table.keyed_table_axioms dest!: xdm_row_amount)

lemma store_events_ok: "preserves db_ok (store_events T src block t evs)"
  unfolding store_events_def by (rule preserves_for) (rule store_event_ok)

lemma upsert_epoch_share_price_ok: "preserves db_ok (upsert_epoch_share_price T p)"
  unfolding upsert_epoch_share_price_def
  by (rule db_ok_write) (auto simp: db_ok_def price_table.unique_upsert)

lemma write_nominator_ok: "preserves db_ok (write_nominator opid a st n)"
  unfolding write_nominator_def
  by (rule db_ok_write) (auto simp: db_ok_def nominator_table.unique_upsert)

lemma refresh_nominator_count_ok: "preserves db_ok (refresh_nominator_count opid)"
  unfolding refresh_nominator_count_eq
  by (rule db_ok_write) (auto simp: db_ok_def unique_update_where)

lemma upsert_nominator_ok: "preserves db_ok (upsert_nominator opid a st n)"
  unfolding upsert_nominator_def
  by (intro preserves_then write_nominator_ok refresh_nominator_count_ok)

lemma upsert_operator_ok: "preserves db_ok (upsert_operator op)"
  unfolding upsert_operator_def
  by (rule db_ok_write) (auto simp: db_ok_def operator_table.unique_upsert)

lemma update_operator_status_ok: "preserves db_ok (update_operator_status opid st)"
  unfolding update_operator_status_def
  by (rule db_ok_write) (auto simp: db_ok_def unique_update_where)

lemma update_operator_stats_ok: "preserves db_ok (update_operator_stats opid st a b c t)"
  unfolding update_operator_stats_def
  by (rule db_ok_write) (auto simp: db_ok_def unique_update_where)

lemma delete_deposits_ok: "preserves db_ok (delete_deposits_for_block n)"
  unfolding delete_deposits_for_block_def by (rule db_ok_write) (auto simp: db_ok_def)

lemma delete_withdrawals_ok: "preserves db_ok (delete_withdrawals_for_block n)"
  unfolding delete_withdrawals_for_block_def by (rule db_ok_write) (auto simp: db_ok_def)

lemma insert_deposit_ok: "preserves db_ok (insert_deposit opid a am f n t)"
  unfolding insert_deposit_def by (rule db_ok_write) (auto simp: db_ok_def)

lemma insert_withdrawal_ok: "preserves db_ok (insert_withdrawal w)"
  unfolding insert_withdrawal_def by (rule db_ok_write) (auto simp: db_ok_def)

lemmas db_ops_ok = set_last_processed_block_ok store_events_ok upsert_epoch_share_price_ok
  upsert_nominator_ok upsert_operator_ok update_operator_status_ok update_operator_stats_ok
  delete_deposits_ok delete_withdrawals_ok insert_deposit_ok insert_withdrawal_ok

text \<open>
  Every operation that writes to the database keeps the primary keys of all tables unique
  and every stored transfer amount within 128 bits, whatever statement fails on the way.
\<close>

theorem db_operations_keep_keys:
  "preserves db_ok (set_last_processed_block p n) \<and> preserves db_ok (store_events T src block t evs) \<and>
   preserves db_ok (upsert_epoch_share_price T sp) \<and> preserves db_ok (upsert_nominator opid a st n) \<and>
   preserves db_ok (upsert_operator op) \<and> preserves db_ok (update_operator_status opid st) \<and>
   preserves db_ok (update_operator_stats opid st x y z t) \<and>
   preserves db_ok (delete_deposits_for_block n) \<and> preserves db_ok (delete_withdrawals_for_block n) \<and>
   preserves db_ok (insert_deposit opid a x y n t) \<and> preserves db_ok (insert_withdrawal w)"
  by (intro conjI db_ops_ok)

subsection \<open>Checkpoints\<close>

text \<open>
  Once a checkpoint is written, reading it back returns the block number for that process,
  and the checkpoints of all other processes read as before.
\<close>

theorem checkpoint_roundtrip:
  assumes "set_last_processed_block p n s = (Ok (), s')" and "db_faults s' = []"
  shows "fst (get_last_processed_block p s') = Ok n \<and>
    (\<forall>q. q = p \<or> fst (get_last_processed_block q s') = fst (get_last_processed_block q (s\<lparr>db_faults := []\<rparr>)))"
proof -
  from write_row_Ok [OF assms(1) [unfolded set_last_processed_block_def]] obtain fs where
    s': "db_metadata s' = upsert md_process merge_metadata \<lparr>md_process = p, md_block = ucast n\<rparr> (db_metadata s)"
    by auto
  have "lookup md_process p (db_metadata s') = Some r \<Longrightarrow> md_block r = ucast n" for r
    by (auto simp: s' metadata_table.lookup_upsert merge_metadata_def split: option.splits)
  moreover have "lookup md_process p (db_metadata s') \<noteq> None"
    by (simp add: s' metadata_table.lookup_upsert)
  ultimately show ?thesis
    using assms(2)
    by (auto simp: get_last_processed_block_def s' metadata_table.lookup_upsert split: option.splits)
qed

theorem checkpoint_roundtrip_witness:
  "fst (get_last_processed_block ''staking'' (snd (set_last_processed_block ''staking'' 700 empty_db))) = Ok 700"
proof -
  let ?s = "snd (set_last_processed_block ''staking'' 700 empty_db)"
  have "set_last_processed_block ''staking'' 700 empty_db = (Ok (), ?s)" "db_faults ?s = []"
    by (simp_all add: set_last_processed_block_def empty_db_def)
  from checkpoint_roundtrip [OF this] show ?thesis by blast
qed

subsection \<open>Nominators\<close>

lemma upsert_nominator_no_fault:
  assumes "db_faults s = []"
  shows "\<exists>s'. upsert_nominator opid a st h s = (Ok (), s') \<and> db_faults s' = [] \<and>
    db_nominators s' = upsert nominator_key merge_nominator
      \<lparr>nr_operator_id = opid, nr_address = a, nr_status = st, nr_block_height = ucast h\<rparr> (db_nominators s)"
  using assms
  by (simp add: upsert_nominator_def write_nominator_def refresh_nominator_count_eq then_prog_def
      bind_prog_def)

text \<open>The writes for one nominator by the blocks \<open>ws\<close>, in the order in which they happen.\<close>

definition write_all_nominators :: "u64 \<Rightarrow> string \<Rightarrow> (string \<times> u32) list \<Rightarrow> unit db_op" where
  "write_all_nominators opid a ws = for_prog ws (\<lambda>(st, h). upsert_nominator opid a st h)"

definition nominator_older :: "u64 \<Rightarrow> string \<Rightarrow> u32 \<Rightarrow> db \<Rightarrow> bool" where
  "nominator_older opid a h s \<longleftrightarrow> (case lookup nominator_key (opid, a) (db_nominators s) of
     None \<Rightarrow> True | Some r \<Rightarrow> sint (nr_block_height r) < uint h)"

lemma write_nominator_lookup:
  assumes "db_faults s = []"
  obtains s' where "upsert_nominator opid a st h s = (Ok (), s')" "db_faults s' = []"
    "lookup nominator_key (opid, a) (db_nominators s') = Some
       (case lookup nominator_key (opid, a) (db_nominators s) of
          None \<Rightarrow> \<lparr>nr_operator_id = opid, nr_address = a, nr_status = st, nr_block_height = ucast h\<rparr>
        | Some old \<Rightarrow> merge_nominator old
            \<lparr>nr_operator_id = opid, nr_address = a, nr_status = st, nr_block_height = ucast h\<rparr>)"
proof -
  let ?r = "\<lparr>nr_operator_id = opid, nr_address = a, nr_status = st, nr_block_height = ucast h\<rparr>"
  obtain s' where s': "upsert_nominator opid a st h s = (Ok (), s')" "db_faults s' = []"
    "db_nominators s' = upsert nominator_key merge_nominator ?r (db_nominators s)"
    using upsert_nominator_no_fault [OF assms, of opid a st h] by (elim exE conjE)
  have key: "nominator_key ?r = (opid, a)" by (simp add: nominator_key_def)
  show ?thesis
    by (rule that [OF s'(1,2)])
      (simp only: s'(3) nominator_table.lookup_upsert key simp_thms if_True)
qed

lemma older_writes:
  assumes "db_faults s = []" and "list_all (\<lambda>(st, h'). h' < h) ws"
  shows "\<exists>s'. write_all_nominators opid a ws s = (Ok (), s') \<and> db_faults s' = [] \<and>
    (nominator_older opid a h s \<longrightarrow> nominator_older opid a h s') \<and>
    (\<forall>r. lookup nominator_key (opid, a) (db_nominators s) = Some r \<and> nr_block_height r = ucast h \<longrightarrow>
       lookup nominator_key (opid, a) (db_nominators s') = Some r)"
  using assms
proof (induction ws arbitrary: s)
  case Nil
  then show ?case by (simp add: write_all_nominators_def)
next
  case (Cons w ws)
  obtain st h' where w: "w = (st, h')" by (cases w)
  have lt: "uint h' < uint h" using Cons.prems(2) w by (simp add: word_less_def)
  obtain s1 where s1: "upsert_nominator opid a st h' s = (Ok (), s1)" "db_faults s1 = []"
    "lookup nominator_key (opid, a) (db_nominators s1) = Some
       (case lookup nominator_key (opid, a) (db_nominators s) of
          None \<Rightarrow> \<lparr>nr_operator_id = opid, nr_address = a, nr_status = st, nr_block_height = ucast h'\<rparr>
        | Some old \<Rightarrow> merge_nominator old
            \<lparr>nr_operator_id = opid, nr_address = a, nr_status = st, nr_block_height = ucast h'\<rparr>)"
    by (rule write_nominator_lookup [OF Cons.prems(1)])
  have "nominator_older opid a h s \<longrightarrow> nominator_older opid a h s1"
    using lt s1(3) by (auto simp: nominator_older_def merge_nominator_def
        split: option.splits)
  moreover have "lookup nominator_key (opid, a) (db_nominators s) = Some r \<and> nr_block_height r = ucast h \<longrightarrow>
      lookup nominator_key (opid, a) (db_nominators s1) = Some r" for r
    using lt s1(3) by (auto simp: merge_nominator_def)
  moreover have "list_all (\<lambda>(st, h'). h' < h) ws" using Cons.prems(2) by simp
  from Cons.IH [OF s1(2) this] obtain s' where "write_all_nominators opid a ws s1 = (Ok (), s')"
    "db_faults s' = []" "nominator_older opid a h s1 \<longrightarrow> nominator_older opid a h s'"
    "\<forall>r. lookup nominator_key (opid, a) (db_nominators s1) = Some r \<and> nr_block_height r = ucast h \<longrightarrow>
       lookup nominator_key (opid, a) (db_nominators s') = Some r"
    by blast
  ultimately show ?case
    using s1(1) by (intro exI [of _ s']) (simp add: write_all_nominators_def w then_prog_Ok)
qed

text \<open>
  Blocks may record the status of a nominator in any order: whatever the order in which the
  writes happen, the row ends up with the status of the highest block among them.
\<close>

theorem nominator_latest_wins:
  assumes "db_faults s = []" and "nominator_older opid a h s"
    and "list_all (\<lambda>(st, h'). h' < h) before" and "list_all (\<lambda>(st, h'). h' < h) later"
  shows "\<exists>s'. write_all_nominators opid a (before @ (st, h) # later) s = (Ok (), s') \<and>
    lookup nominator_key (opid, a) (db_nominators s') =
      Some \<lparr>nr_operator_id = opid, nr_address = a, nr_status = st, nr_block_height = ucast h\<rparr>"
proof -
  from older_writes [OF assms(1,3), of opid a] assms(2) obtain s1 where
    s1: "write_all_nominators opid a before s = (Ok (), s1)" "db_faults s1 = []" "nominator_older opid a h s1"
    by blast
  obtain s2 where s2: "upsert_nominator opid a st h s1 = (Ok (), s2)" "db_faults s2 = []"
    "lookup nominator_key (opid, a) (db_nominators s2) = Some
       (case lookup nominator_key (opid, a) (db_nominators s1) of
          None \<Rightarrow> \<lparr>nr_operator_id = opid, nr_address = a, nr_status = st, nr_block_height = ucast h\<rparr>
        | Some old \<Rightarrow> merge_nominator old
            \<lparr>nr_operator_id = opid, nr_address = a, nr_status = st, nr_block_height = ucast h\<rparr>)"
    by (rule write_nominator_lookup [OF s1(2)])
  have row: "lookup nominator_key (opid, a) (db_nominators s2) =
      Some \<lparr>nr_operator_id = opid, nr_address = a, nr_status = st, nr_block_height = ucast h\<rparr>"
    using s1(3) s2(3)
    by (auto simp: nominator_older_def merge_nominator_def nominator_key_def split: option.splits
        dest!: lookup_Some_key)
  from older_writes [OF s2(2) assms(4), of opid a] row obtain s3 where
    "write_all_nominators opid a later s2 = (Ok (), s3)"
    "lookup nominator_key (opid, a) (db_nominators s3) =
      Some \<lparr>nr_operator_id = opid, nr_address = a, nr_status = st, nr_block_height = ucast h\<rparr>"
    by auto
  then show ?thesis
    using s1(1) s2(1)
    by (intro exI [of _ s3]) (simp add: write_all_nominators_def for_prog_append then_prog_Ok)
qed

theorem nominator_latest_wins_witness:
  "\<exists>s'. write_all_nominators 1 ''st1'' ([(''withdrawn'', 5)] @ (''active'', 10) # [(''withdrawn'', 7)]) empty_db = (Ok (), s') \<and>
    lookup nominator_key (1, ''st1'') (db_nominators s') =
      Some \<lparr>nr_operator_id = 1, nr_address = ''st1'', nr_status = ''active'', nr_block_height = ucast (10 :: u32)\<rparr>"
  by (rule nominator_latest_wins) (simp_all add: empty_db_def nominator_older_def)

lemma nominator_operators:
  assumes "upsert_nominator opid a st h s = (Ok (), s')"
  shows "db_operators s' = map (\<lambda>r. if or_operator_id r = opid
      then r\<lparr>or_nominator_count := active_count opid (db_nominators s')\<rparr> else r) (db_operators s)"
proof -
  from assms obtain s1 where
    s1: "write_nominator opid a st h s = (Ok (), s1)" "refresh_nominator_count opid s1 = (Ok (), s')"
    by (auto simp: upsert_nominator_def then_prog_def bind_prog_Ok_iff)
  have "db_operators s1 = db_operators s"
    using write_row_Ok [OF s1(1) [unfolded write_nominator_def]] by auto
  then show ?thesis
    using write_row_Ok [OF s1(2) [unfolded refresh_nominator_count_eq]]
    by (auto simp: update_where_def)
qed

text \<open>
  After a successful nominator update the operator's counter equals the number of its active
  nominators, the counters of all other operators are as before, and no other column of any
  operator changed.
\<close>

theorem nominator_count_exact:
  assumes "upsert_nominator opid a st h s = (Ok (), s')"
  shows "db_operators s' = map (\<lambda>r. if or_operator_id r = opid
      then r\<lparr>or_nominator_count := active_count opid (db_nominators s')\<rparr> else r) (db_operators s)"
  using assms by (rule nominator_operators)

definition ex_op :: "u64 \<Rightarrow> operator_rec" where
  "ex_op i = \<lparr>or_operator_id = i, or_domain_id = 0, or_owner_account = ''st9'', or_signing_key = ''0x'',
     or_minimum_nominator_stake = 1, or_nomination_tax = 5, or_status = ''registered'',
     or_total_stake = 10, or_total_shares = 10, or_total_storage_fee_deposit = 1, or_updated_at = 0,
     or_nominator_count = 0\<rparr>"

theorem nominator_count_exact_witness:
  "map or_nominator_count (db_operators (snd (upsert_nominator 1 ''st1'' ''active'' 5
     (empty_db\<lparr>db_operators := [ex_op 1, ex_op 2]\<rparr>)))) = [1, 0]"
proof -
  let ?s = "empty_db\<lparr>db_operators := [ex_op 1, ex_op 2]\<rparr>"
  let ?s' = "snd (upsert_nominator 1 ''st1'' ''active'' 5 ?s)"
  have run: "upsert_nominator 1 ''st1'' ''active'' 5 ?s = (Ok (), ?s')"
    and rows: "db_nominators ?s' = [\<lparr>nr_operator_id = 1, nr_address = ''st1'', nr_status = ''active'',
      nr_block_height = ucast (5 :: u32)\<rparr>]"
    by (simp_all add: upsert_nominator_def write_nominator_def refresh_nominator_count_eq
        then_prog_def bind_prog_def empty_db_def)
  show ?thesis
    unfolding nominator_count_exact [OF run] rows
    by (simp add: ex_op_def active_count_def)
qed

end
