(* ===== verification/Interleave.thy ===== *)
theory Interleave
  imports Table
begin

section \<open>Interleaved and repeated steps\<close>

text \<open>
  Tasks that run concurrently change the database one statement at a time. This theory has what
  does not depend on the statements: when the order of steps does not matter (\<open>commuting_steps\<close>),
  when steps of different tasks may be sorted by task (\<open>serial_steps\<close>), when a history may
  repeat steps (\<open>idempotent_steps\<close>), and which programs are a fixed list of statements whatever
  state they run in (\<open>straight_line\<close>).
\<close>

subsection \<open>Steps that commute\<close>

locale commuting_steps =
  fixes step :: "'o \<Rightarrow> 's \<Rightarrow> 's" and indep :: "'o \<Rightarrow> 'o \<Rightarrow> bool"
  assumes commute: "indep a b \<Longrightarrow> step a (step b s) = step b (step a s)"
begin

lemma step_through: "\<forall>b \<in> set xs. indep a b \<Longrightarrow> step a (fold step xs s) = fold step xs (step a s)"
proof (induction xs arbitrary: s)
  case (Cons b xs)
  then have "step a (fold step xs (step b s)) = fold step xs (step a (step b s))" by simp
  also have "step a (step b s) = step b (step a s)" by (rule commute) (use Cons.prems in simp)
  finally show ?case by simp
qed simp

lemma folds_commute:
  "\<forall>a \<in> set xs. \<forall>b \<in> set ys. indep a b \<Longrightarrow> fold step xs (fold step ys s) = fold step ys (fold step xs s)"
proof (induction xs arbitrary: s)
  case (Cons a xs)
  then have "fold step xs (step a (fold step ys s)) = fold step xs (fold step ys (step a s))"
    by (simp add: step_through)
  with Cons show ?case by simp
qed simp

end

text \<open>A history that repeats steps, in another order or more often, ends in the same state.\<close>

locale idempotent_steps = commuting_steps +
  assumes idem: "step a (step a s) = step a s"
begin

lemma absorbed:
  assumes "a \<in> set xs" and "\<forall>a \<in> set xs. \<forall>b \<in> set xs. indep a b"
  shows "step a (fold step xs s) = fold step xs s"
proof -
  from assms(1) obtain us vs where xs: "xs = us @ a # vs" by (auto dest: split_list)
  have "step a (fold step vs (step a (fold step us s))) = fold step vs (step a (step a (fold step us s)))"
    using assms(2) by (intro step_through) (simp add: xs)
  then show ?thesis by (simp add: xs idem)
qed

lemma absorbed_fold:
  assumes "set ys \<subseteq> set xs" and "\<forall>a \<in> set xs. \<forall>b \<in> set xs. indep a b"
  shows "fold step ys (fold step xs s) = fold step xs s"
  using assms(1) by (induction ys) (auto simp: absorbed [OF _ assms(2)])

theorem converge:
  assumes "set xs = set ys" and "\<forall>a \<in> set xs. \<forall>b \<in> set xs. indep a b"
  shows "fold step xs s = fold step ys s"
proof -
  have "fold step xs s = fold step ys (fold step xs s)"
    using assms by (simp add: absorbed_fold)
  also have "\<dots> = fold step xs (fold step ys s)"
    using assms by (intro folds_commute) simp
  also have "\<dots> = fold step ys s"
    using assms by (simp add: absorbed_fold)
  finally show ?thesis .
qed

end

subsection \<open>Steps of several tasks\<close>

text \<open>
  Each step belongs to a task, its key. When steps of different tasks commute, a history may be
  sorted by task, keeping the order within each.
\<close>

locale serial_steps =
  fixes step :: "'o \<Rightarrow> 's \<Rightarrow> 's" and key :: "'o \<Rightarrow> 'k::linorder" and valid :: "'o \<Rightarrow> bool"
  assumes serial_commute: "valid a \<Longrightarrow> valid b \<Longrightarrow> key a \<noteq> key b \<Longrightarrow> step a (step b s) = step b (step a s)"

sublocale serial_steps \<subseteq> commuting_steps step "\<lambda>a b. valid a \<and> valid b \<and> key a \<noteq> key b"
  by unfold_locales (rule serial_commute; simp)

context serial_steps
begin

lemma fold_insort:
  assumes "valid a" and "\<forall>b \<in> set ys. valid b"
  shows "fold step (insort_key key a ys) s = fold step ys (step a s)"
  using assms by (induction ys arbitrary: s) (auto simp: serial_commute)

lemma fold_sort: "\<forall>a \<in> set xs. valid a \<Longrightarrow> fold step (sort_key key xs) s = fold step xs s"
  by (induction xs arbitrary: s) (simp_all add: fold_insort)

end

lemma mset_filter_keys:
  assumes "\<And>k. filter (\<lambda>x. f x = k) xs = filter (\<lambda>x. f x = k) ys"
  shows "mset xs = mset ys"
proof (rule multiset_eqI)
  fix x
  have "count (mset zs) x = count (mset (filter (\<lambda>y. f y = f x) zs)) x" for zs
    by simp
  with assms [of "f x"] show "count (mset xs) x = count (mset ys) x" by metis
qed

lemma sort_key_projections:
  assumes "\<And>k. filter (\<lambda>x. f x = k) xs = filter (\<lambda>x. f x = k) ys" and "sorted (map f ys)"
  shows "sort_key f xs = ys"
proof (rule properties_for_sort_key)
  show "mset ys = mset xs" using mset_filter_keys [of f xs ys] assms(1) by simp
  show "filter (\<lambda>x. f k = f x) ys = filter (\<lambda>x. f k = f x) xs" for k
    using assms(1) [of "f k"] by (simp add: eq_commute)
qed (rule assms(2))

text \<open>
  \<open>interleaves code ks h\<close>: the tasks \<open>ks\<close> ran concurrently; \<open>h\<close> is what was executed, each
  statement with its task, and the statements of one task are its code, in order.
\<close>

definition interleaves :: "('k \<Rightarrow> 'c list) \<Rightarrow> 'k set \<Rightarrow> ('k \<times> 'c) list \<Rightarrow> bool" where
  "interleaves code ks h \<longleftrightarrow>
     (\<forall>k. map snd (filter (\<lambda>x. fst x = k) h) = (if k \<in> ks then code k else []))"

definition one_after_another :: "('k \<Rightarrow> 'c list) \<Rightarrow> 'k list \<Rightarrow> ('k \<times> 'c) list" where
  "one_after_another code ks = concat (map (\<lambda>k. map (Pair k) (code k)) ks)"

lemma interleavesD:
  "interleaves code ks h \<Longrightarrow> filter (\<lambda>x. fst x = k) h = (if k \<in> ks then map (Pair k) (code k) else [])"
proof -
  assume "interleaves code ks h"
  then have "map snd (filter (\<lambda>x. fst x = k) h) = (if k \<in> ks then code k else [])"
    by (simp add: interleaves_def)
  moreover have "map (Pair k) (map snd (filter (\<lambda>x. fst x = k) h)) = filter (\<lambda>x. fst x = k) h"
    by (induction h) auto
  ultimately show ?thesis by (metis list.simps(8))
qed

lemma one_after_another_filter:
  "distinct ks \<Longrightarrow> filter (\<lambda>x. fst x = k) (one_after_another code ks) =
     (if k \<in> set ks then map (Pair k) (code k) else [])"
proof (induction ks)
  case (Cons j ks)
  have "filter (\<lambda>x. fst x = k) (map (Pair j) cs) = (if j = k then map (Pair k) cs else [])" for cs :: "'b list"
    by (induction cs) auto
  with Cons show ?case by (auto simp: one_after_another_def)
qed (simp add: one_after_another_def)

lemma one_after_another_sorted: "sorted ks \<Longrightarrow> sorted (map fst (one_after_another code ks))"
  by (induction ks) (auto simp: one_after_another_def sorted_append o_def sorted_map)

lemma sort_interleaving:
  fixes ks :: "'k::linorder list"
  assumes "interleaves code (set ks) h" and "sorted ks" and "distinct ks"
  shows "sort_key fst h = one_after_another code ks"
  by (rule sort_key_projections)
    (simp_all add: interleavesD [OF assms(1)] one_after_another_filter assms one_after_another_sorted)

lemma interleaves_one_after_another: "distinct ks \<Longrightarrow> interleaves code (set ks) (one_after_another code ks)"
  by (simp add: interleaves_def one_after_another_filter o_def)

lemma interleaves_mem: "interleaves code ks h \<Longrightarrow> (k, c) \<in> set h \<Longrightarrow> k \<in> ks \<and> c \<in> set (code k)"
proof -
  assume il: "interleaves code ks h" and "(k, c) \<in> set h"
  then have "(k, c) \<in> set (filter (\<lambda>x. fst x = k) h)" by simp
  then show ?thesis unfolding interleavesD [OF il] by (auto split: if_splits)
qed

subsection \<open>Straight-line programs\<close>

lemma then_unit [simp]: "then_prog p (ret ()) = p"
  by (auto simp: fun_eq_iff then_prog_def bind_prog_def split: prod.splits result.splits)

text \<open>
  A program whose statements do not depend on the state: it executes a fixed list of them, as
  long as they succeed, and then has a fixed outcome. \<open>has_code exec Q p\<close> says so of \<open>p\<close>, with
  a list of the shape \<open>Q\<close>.
\<close>

definition straight_line ::
  "('c \<Rightarrow> ('s, unit, 'e) prog) \<Rightarrow> 'c list \<Rightarrow> ('a, 'e) result \<Rightarrow> ('s, 'a, 'e) prog \<Rightarrow> bool" where
  "straight_line exec code r p \<longleftrightarrow> p = then_prog (for_prog code exec) (lift_result r)"

definition has_code ::
  "('c \<Rightarrow> ('s, unit, 'e) prog) \<Rightarrow> ('c list \<Rightarrow> bool) \<Rightarrow> ('s, 'a, 'e) prog \<Rightarrow> bool" where
  "has_code exec Q p \<longleftrightarrow> (\<exists>code r. straight_line exec code r p \<and> Q code)"

locale code_shape =
  fixes exec :: "'c \<Rightarrow> ('s, unit, 'e) prog" and Q :: "'c list \<Rightarrow> bool"
  assumes Q_Nil: "Q []" and Q_append: "Q xs \<Longrightarrow> Q ys \<Longrightarrow> Q (xs @ ys)"
begin

lemma has_code_lift [intro, simp]: "has_code exec Q (lift_result r)"
  unfolding has_code_def straight_line_def
  by (intro exI [of _ "[]"] exI [of _ r]) (simp add: Q_Nil)

lemma has_code_ret [intro, simp]: "has_code exec Q (ret x)"
  using has_code_lift [of "Ok x"] by (simp add: ret_def lift_result_def)

lemma has_code_bind [intro]:
  assumes p: "has_code exec Q p" and f: "\<And>x. has_code exec Q (f x)"
  shows "has_code exec Q (bind_prog p f)"
proof -
  from p obtain code r where code: "p = then_prog (for_prog code exec) (lift_result r)" "Q code"
    by (auto simp: has_code_def straight_line_def)
  show ?thesis
  proof (cases r)
    case (Ok x)
    from f [of x] obtain code' r' where code': "f x = then_prog (for_prog code' exec) (lift_result r')" "Q code'"
      by (auto simp: has_code_def straight_line_def)
    have "bind_prog p f = then_prog (for_prog (code @ code') exec) (lift_result r')"
      by (auto simp: fun_eq_iff code code' Ok for_prog_append then_prog_def bind_prog_def
          split: prod.splits result.splits)
    with code code' show ?thesis
      by (auto simp: has_code_def straight_line_def intro: Q_append)
  next
    case (Err e)
    have "bind_prog p f = then_prog (for_prog code exec) (lift_result (Err e))"
      by (auto simp: fun_eq_iff code Err then_prog_def bind_prog_def split: prod.splits result.splits)
    with code show ?thesis by (auto simp: has_code_def straight_line_def)
  next
    case (Panic m)
    have "bind_prog p f = then_prog (for_prog code exec) (lift_result (Panic m))"
      by (auto simp: fun_eq_iff code Panic then_prog_def bind_prog_def split: prod.splits result.splits)
    with code show ?thesis by (auto simp: has_code_def straight_line_def)
  qed
qed

lemma has_code_then [intro]: "has_code exec Q p \<Longrightarrow> has_code exec Q q \<Longrightarrow> has_code exec Q (then_prog p q)"
  unfolding then_prog_def by (rule has_code_bind)

lemma has_code_for [intro]: "(\<And>x. x \<in> set xs \<Longrightarrow> has_code exec Q (f x)) \<Longrightarrow> has_code exec Q (for_prog xs f)"
proof (induction xs)
  case Nil
  show ?case unfolding for_prog.simps by (rule has_code_ret)
next
  case (Cons x xs)
  then show ?case unfolding for_prog.simps by (intro has_code_then) auto
qed

lemma has_code_statements:
  assumes "Q code"
  shows "has_code exec Q (for_prog code exec)"
proof -
  have "for_prog code exec = then_prog (for_prog code exec) (lift_result (Ok ()))"
    by (auto simp: fun_eq_iff then_prog_def bind_prog_def split: prod.splits result.splits)
  with assms show ?thesis unfolding has_code_def straight_line_def by blast
qed

end

lemma has_code_keeps:
  assumes "has_code exec Q p" and "reflp R" and "transp R"
    and "\<And>code c. Q code \<Longrightarrow> c \<in> set code \<Longrightarrow> keeps R (exec c)"
  shows "keeps R p"
proof -
  from assms(1) obtain code r where p: "p = then_prog (for_prog code exec) (lift_result r)" and "Q code"
    by (auto simp: has_code_def straight_line_def)
  then show ?thesis
    unfolding p by (intro keeps_then [OF assms(3)] keeps_for [OF assms(2,3)] keeps_lift [OF assms(2)] assms(4))
qed

lemma straight_line_Ok:
  assumes "straight_line exec code r p" and "p s = (Ok x, s')"
  shows "for_prog code exec s = (Ok (), s')"
  using assms by (auto simp: straight_line_def then_prog_def bind_prog_Ok_iff)

end
