(* ===== verification/Xdm.thy ===== *)
theory Xdm
  imports Subspace_Client Storage_Correct Interleave
begin

section \<open>Indexing cross-domain transfers\<close>

text \<open>
  \<open>indexer/src/xdm.rs\<close>: the transfer events of a block, read from the block's events on the
  consensus chain and from its event segments on the EVM domain, and stored as rows of
  \<open>indexer.xdm_transfers\<close>. The decoder of \<open>Transfer\<close> is derived by a macro: it is the
  parameter \<open>D\<close>. The second half shows what the writes for one transfer, which the processors
  of the two chains make independently, leave in its row, in whatever order they come, and that
  a stored transfer is found again.
\<close>

type_synonym chain_client = "(storage_key, event_details) client"

definition get_xdm_processor_key :: "chain_id \<Rightarrow> string" where
  "get_xdm_processor_key c = ''xdm_processor_'' @ show_chain_id c"

definition debug_chain_id :: "chain_id \<Rightarrow> string" where
  "debug_chain_id c = (case c of Consensus \<Rightarrow> ''Consensus''
     | Domain d \<Rightarrow> ''Domain(DomainId('' @ show_domain_id d @ ''))'')"

subsection \<open>The events of a block\<close>

fun as_outgoing_transfer_failed :: "event_details \<Rightarrow> outgoing_transfer_failed option" where
  "as_outgoing_transfer_failed (Ed_OutgoingTransferFailed r) = ok r"
| "as_outgoing_transfer_failed _ = None"

fun as_outgoing_transfer_successful :: "event_details \<Rightarrow> outgoing_transfer_successful option" where
  "as_outgoing_transfer_successful (Ed_OutgoingTransferSuccessful r) = ok r"
| "as_outgoing_transfer_successful _ = None"

fun as_incoming_transfer_successful :: "event_details \<Rightarrow> incoming_transfer_successful option" where
  "as_incoming_transfer_successful (Ed_IncomingTransferSuccessful r) = ok r"
| "as_incoming_transfer_successful _ = None"

fun as_outgoing_transfer_initiated :: "event_details \<Rightarrow> outgoing_transfer_initiated option" where
  "as_outgoing_transfer_initiated (Ed_OutgoingTransferInitiated r) = ok r"
| "as_outgoing_transfer_initiated _ = None"

definition as_events :: "(event_details \<Rightarrow> 'e option) \<Rightarrow> ('e \<Rightarrow> xdm_event) \<Rightarrow> event_details list \<Rightarrow> xdm_event list" where
  "as_events as_event into block_events = map into (List.map_filter as_event block_events)"

definition block_events :: "chain_client \<Rightarrow> codec \<Rightarrow> chain_id \<Rightarrow> block_ext \<Rightarrow> (event_details list, indexer_error) result" where
  "block_events N C chain b = (case chain of
     Consensus \<Rightarrow> map_err I_Subspace (map_ok (List.map_filter ok) (cl_events N (be_hash b)))
   | Domain (DomainId d) \<Rightarrow> if d = 0 then map_err I_Subspace (events_from_segments N C Key_Unit b)
       else Err (I_Config (''invalid chain id: '' @ debug_chain_id chain)))"

definition initiated_with_transfer ::
  "chain_client \<Rightarrow> transfer decoder \<Rightarrow> block_ext \<Rightarrow> outgoing_transfer_initiated \<Rightarrow> (xdm_event, shared_error) result" where
  "initiated_with_transfer N D b ev = map_ok
     (\<lambda>t. XOutgoingTransferInitiated \<lparr>ow_message_id = oi_message_id ev, ow_transfer = t\<rparr>)
     (read_storage N D b ''Transporter'' ''OutgoingTransfers''
       (Key_Chain_Message (oi_chain_id ev) (oi_message_id ev)))"

definition extract_xdm_events_for_block ::
  "chain_client \<Rightarrow> codec \<Rightarrow> transfer decoder \<Rightarrow> chain_id \<Rightarrow> block_ext \<Rightarrow> (xdm_event list, indexer_error) result" where
  "extract_xdm_events_for_block N C D chain b =
     bind_result (block_events N C chain b) (\<lambda>evs.
     bind_result (map_err I_Subspace (try_collect (map (initiated_with_transfer N D b)
       (List.map_filter as_outgoing_transfer_initiated evs)))) (\<lambda>outgoing_init_events.
     Ok (as_events as_outgoing_transfer_failed XOutgoingTransferFailed evs
       @ as_events as_outgoing_transfer_successful XOutgoingTransferSuccessful evs
       @ as_events as_incoming_transfer_successful XIncomingTransferSuccessful evs
       @ outgoing_init_events)))"

definition block_time_of ::
  "text_lib \<Rightarrow> chain_client \<Rightarrow> codec \<Rightarrow> block_ext \<Rightarrow> (datetime, indexer_error) result" where
  "block_time_of T N C b = bind_result (map_err I_Subspace (timestamp N C Key_Unit b))
     (\<lambda>ms. expect (tl_datetime T ms) ''should always be a valid Unix epoch time'')"

definition index_events_for_block ::
  "text_lib \<Rightarrow> chain_client \<Rightarrow> codec \<Rightarrow> transfer decoder \<Rightarrow> chain_id \<Rightarrow> u32 \<Rightarrow> unit db_op" where
  "index_events_for_block T N C D chain n =
     bind_prog (lift_result (map_err I_Subspace (block_ext_at_number (cl_node N) n))) (\<lambda>b.
     bind_prog (lift_result (extract_xdm_events_for_block N C D chain b)) (\<lambda>events.
     if events = [] then ret () else
     bind_prog (lift_result (block_time_of T N C b)) (\<lambda>block_time.
     store_events T chain \<lparr>hn_number = be_number b, hn_hash = be_hash b\<rparr> block_time events)))"

subsection \<open>Extraction\<close>

text \<open>The transfer events of a block that decode.\<close>

definition transfer_events :: "event_details list \<Rightarrow> event_details list" where
  "transfer_events = filter (\<lambda>e. as_outgoing_transfer_failed e \<noteq> None \<or>
     as_outgoing_transfer_successful e \<noteq> None \<or> as_incoming_transfer_successful e \<noteq> None \<or>
     as_outgoing_transfer_initiated e \<noteq> None)"

lemma length_as_events: "length (as_events f g evs) = length (filter (\<lambda>e. f e \<noteq> None) evs)"
  by (induction evs) (auto simp: as_events_def List.map_filter_simps split: option.splits)

lemma length_map_filter: "length (List.map_filter f evs) = length (filter (\<lambda>e. f e \<noteq> None) evs)"
  by (induction evs) (auto simp: List.map_filter_simps split: option.splits)

lemma length_transfer_events:
  "length (transfer_events evs) = length (filter (\<lambda>e. as_outgoing_transfer_failed e \<noteq> None) evs)
     + length (filter (\<lambda>e. as_outgoing_transfer_successful e \<noteq> None) evs)
     + length (filter (\<lambda>e. as_incoming_transfer_successful e \<noteq> None) evs)
     + length (filter (\<lambda>e. as_outgoing_transfer_initiated e \<noteq> None) evs)"
proof (induction evs)
  case (Cons e evs)
  then show ?case by (cases e) (auto simp: transfer_events_def)
qed (simp add: transfer_events_def)

lemma set_map_filter: "set (List.map_filter f xs) = {y. \<exists>x \<in> set xs. f x = Some y}"
  by (induction xs) (auto simp: List.map_filter_simps split: option.splits)

lemma as_event_iff:
  "as_outgoing_transfer_failed e = Some x \<longleftrightarrow> e = Ed_OutgoingTransferFailed (Ok x)"
  "as_outgoing_transfer_successful e = Some y \<longleftrightarrow> e = Ed_OutgoingTransferSuccessful (Ok y)"
  "as_incoming_transfer_successful e = Some z \<longleftrightarrow> e = Ed_IncomingTransferSuccessful (Ok z)"
  "as_outgoing_transfer_initiated e = Some w \<longleftrightarrow> e = Ed_OutgoingTransferInitiated (Ok w)"
  by (cases e; simp)+

lemma extraction_parts:
  assumes "extract_xdm_events_for_block N C D chain b = Ok xs" and "block_events N C chain b = Ok evs"
  obtains ys where "xs = as_events as_outgoing_transfer_failed XOutgoingTransferFailed evs
      @ as_events as_outgoing_transfer_successful XOutgoingTransferSuccessful evs
      @ as_events as_incoming_transfer_successful XIncomingTransferSuccessful evs @ ys"
    and "length ys = length (List.map_filter as_outgoing_transfer_initiated evs)"
    and "\<forall>y. y \<in> set ys \<longleftrightarrow> (\<exists>w ev. y = XOutgoingTransferInitiated w \<and> Ed_OutgoingTransferInitiated (Ok ev) \<in> set evs \<and>
      initiated_with_transfer N D b ev = Ok y)"
proof -
  let ?init = "List.map_filter as_outgoing_transfer_initiated evs"
  obtain ys where ys: "list_all2 (\<lambda>ev y. initiated_with_transfer N D b ev = Ok y) ?init ys"
    and xs: "xs = as_events as_outgoing_transfer_failed XOutgoingTransferFailed evs
      @ as_events as_outgoing_transfer_successful XOutgoingTransferSuccessful evs
      @ as_events as_incoming_transfer_successful XIncomingTransferSuccessful evs @ ys"
    using assms by (auto simp: extract_xdm_events_for_block_def try_collect_map_iff)
  have "y \<in> set ys \<longleftrightarrow> (\<exists>ev \<in> set ?init. initiated_with_transfer N D b ev = Ok y)" for y
    using ys by (fastforce simp: list_all2_conv_all_nth in_set_conv_nth)
  also have "(\<exists>ev \<in> set ?init. initiated_with_transfer N D b ev = Ok y) \<longleftrightarrow>
      (\<exists>w ev. y = XOutgoingTransferInitiated w \<and> Ed_OutgoingTransferInitiated (Ok ev) \<in> set evs \<and>
        initiated_with_transfer N D b ev = Ok y)" for y
    unfolding set_map_filter as_event_iff by (auto simp: initiated_with_transfer_def)
  finally show thesis using that [OF xs list_all2_lengthD [OF ys, symmetric]] by blast
qed

text \<open>
  C26: extraction loses and invents nothing: when it succeeds, there are as many extracted events as
  transfer events that decode, a failed, successful or incoming transfer is extracted
  exactly when the block has it, and every initiated transfer of the block is extracted with
  the transfer stored on chain under its destination and message id.
\<close>

theorem xdm_extraction_exact:
  assumes "extract_xdm_events_for_block N C D chain b = Ok xs" and "block_events N C chain b = Ok evs"
  shows "length xs = length (transfer_events evs) \<and>
    (\<forall>e. XOutgoingTransferFailed e \<in> set xs \<longleftrightarrow> Ed_OutgoingTransferFailed (Ok e) \<in> set evs) \<and>
    (\<forall>e. XOutgoingTransferSuccessful e \<in> set xs \<longleftrightarrow> Ed_OutgoingTransferSuccessful (Ok e) \<in> set evs) \<and>
    (\<forall>e. XIncomingTransferSuccessful e \<in> set xs \<longleftrightarrow> Ed_IncomingTransferSuccessful (Ok e) \<in> set evs) \<and>
    (\<forall>w. XOutgoingTransferInitiated w \<in> set xs \<longleftrightarrow>
       (\<exists>ev. Ed_OutgoingTransferInitiated (Ok ev) \<in> set evs \<and> ow_message_id w = oi_message_id ev \<and>
          read_storage N D b ''Transporter'' ''OutgoingTransfers''
            (Key_Chain_Message (oi_chain_id ev) (oi_message_id ev)) = Ok (ow_transfer w)))"
proof -
  from extraction_parts [OF assms] obtain ys where
    xs: "xs = as_events as_outgoing_transfer_failed XOutgoingTransferFailed evs
      @ as_events as_outgoing_transfer_successful XOutgoingTransferSuccessful evs
      @ as_events as_incoming_transfer_successful XIncomingTransferSuccessful evs @ ys"
    and len: "length ys = length (List.map_filter as_outgoing_transfer_initiated evs)"
    and ys: "\<forall>y. y \<in> set ys \<longleftrightarrow> (\<exists>w ev. y = XOutgoingTransferInitiated w \<and> Ed_OutgoingTransferInitiated (Ok ev) \<in> set evs \<and>
      initiated_with_transfer N D b ev = Ok y)" .
  have init: "initiated_with_transfer N D b ev = Ok (XOutgoingTransferInitiated w) \<longleftrightarrow> ow_message_id w = oi_message_id ev \<and>
      read_storage N D b ''Transporter'' ''OutgoingTransfers''
        (Key_Chain_Message (oi_chain_id ev) (oi_message_id ev)) = Ok (ow_transfer w)" for ev w
    by (cases w) (auto simp: initiated_with_transfer_def)
  note members = xs as_events_def set_map_filter as_event_iff ys [rule_format]
  show ?thesis
  proof (intro conjI allI)
    show "length xs = length (transfer_events evs)"
      by (simp add: xs len length_as_events length_transfer_events length_map_filter)
    show "XOutgoingTransferInitiated w \<in> set xs \<longleftrightarrow> (\<exists>ev. Ed_OutgoingTransferInitiated (Ok ev) \<in> set evs \<and>
        ow_message_id w = oi_message_id ev \<and> read_storage N D b ''Transporter'' ''OutgoingTransfers''
          (Key_Chain_Message (oi_chain_id ev) (oi_message_id ev)) = Ok (ow_transfer w))" for w
      by (auto simp: members init)
  qed (auto simp: members)
qed

definition ex_xdm_client :: chain_client where
  "ex_xdm_client = \<lparr>
     cl_node = \<lparr>rpc_block_hash = (\<lambda>_. Ok (Some 80)), rpc_header = (\<lambda>_. Ok None)\<rparr>,
     cl_fetch = (\<lambda>_ _ _ _. Ok None), cl_iter = (\<lambda>_ _ _. Ok []), cl_value = (\<lambda>_ _. Ok None),
     cl_events = (\<lambda>_. Ok [Ok Ed_Other, Err SubscriptionClosed,
       Ok (Ed_OutgoingTransferFailed (Ok \<lparr>of_chain_id = Domain (DomainId 0), of_message_id = (0, 34)\<rparr>))]),
     cl_decode_events = (\<lambda>_. []), cl_constant = (\<lambda>_ _. Ok 2), cl_twox_128 = (\<lambda>_. []),
     cl_encode_u32 = (\<lambda>n. [ucast n]), cl_system_chain = Ok ''mainnet'',
     cl_system_properties = Ok (\<lambda>_. None)\<rparr>"

theorem xdm_extraction_exact_witness:
  "\<exists>xs. extract_xdm_events_for_block ex_xdm_client scale (dec_fail (Scale_Error [])) Consensus ex_block = Ok xs \<and>
     length xs = 1"
proof -
  let ?xs = "[XOutgoingTransferFailed \<lparr>of_chain_id = Domain (DomainId 0), of_message_id = (0, 34)\<rparr>]"
  let ?evs = "[Ed_Other, Ed_OutgoingTransferFailed (Ok \<lparr>of_chain_id = Domain (DomainId 0), of_message_id = (0, 34)\<rparr>)]"
  have evs: "block_events ex_xdm_client scale Consensus ex_block = Ok ?evs"
    by (simp add: block_events_def ex_xdm_client_def List.map_filter_simps)
  have xs: "extract_xdm_events_for_block ex_xdm_client scale (dec_fail (Scale_Error [])) Consensus ex_block = Ok ?xs"
    by (simp add: extract_xdm_events_for_block_def evs as_events_def List.map_filter_simps)
  from xdm_extraction_exact [OF xs evs] xs show ?thesis
    by (auto simp: transfer_events_def)
qed

subsection \<open>Writes in any order\<close>

text \<open>The row an event writes and how it is merged into an existing one.\<close>

primrec event_merge :: "xdm_event \<Rightarrow> xdm_rec \<Rightarrow> xdm_rec \<Rightarrow> xdm_rec" where
  "event_merge (XOutgoingTransferInitiated e) = merge_initiated"
| "event_merge (XOutgoingTransferFailed e) = merge_acknowledged"
| "event_merge (XOutgoingTransferSuccessful e) = merge_acknowledged"
| "event_merge (XIncomingTransferSuccessful e) = merge_executed"

primrec event_route :: "chain_id \<Rightarrow> xdm_event \<Rightarrow> chain_id \<times> chain_id \<times> xdm_message_id" where
  "event_route chain (XOutgoingTransferInitiated e) =
     (lo_chain_id (xt_sender (ow_transfer e)), lo_chain_id (xt_receiver (ow_transfer e)), ow_message_id e)"
| "event_route chain (XOutgoingTransferFailed e) = (chain, of_chain_id e, of_message_id e)"
| "event_route chain (XOutgoingTransferSuccessful e) = (chain, os_chain_id e, os_message_id e)"
| "event_route chain (XIncomingTransferSuccessful e) = (is_chain_id e, chain, is_message_id e)"

primrec event_amount :: "xdm_event \<Rightarrow> u128 option" where
  "event_amount (XOutgoingTransferInitiated e) = Some (xt_amount (ow_transfer e))"
| "event_amount (XOutgoingTransferFailed e) = None"
| "event_amount (XOutgoingTransferSuccessful e) = None"
| "event_amount (XIncomingTransferSuccessful e) = Some (is_amount e)"

primrec event_status :: "xdm_event \<Rightarrow> bool option" where
  "event_status (XOutgoingTransferInitiated e) = None"
| "event_status (XOutgoingTransferFailed e) = Some False"
| "event_status (XOutgoingTransferSuccessful e) = Some True"
| "event_status (XIncomingTransferSuccessful e) = Some True"

primrec event_kind :: "xdm_event \<Rightarrow> nat" where
  "event_kind (XOutgoingTransferInitiated e) = 0"
| "event_kind (XOutgoingTransferFailed e) = 1"
| "event_kind (XOutgoingTransferSuccessful e) = 1"
| "event_kind (XIncomingTransferSuccessful e) = 2"

primrec event_row :: "text_lib \<Rightarrow> chain_id \<Rightarrow> hash_and_number \<Rightarrow> datetime \<Rightarrow> xdm_event \<Rightarrow> xdm_rec \<Rightarrow> xdm_rec" where
  "event_row T chain block t (XOutgoingTransferInitiated e) r =
     r\<lparr>xr_sender := Some (show_account T (lo_account_id (xt_sender (ow_transfer e)))),
       xr_receiver := Some (show_account T (lo_account_id (xt_receiver (ow_transfer e)))),
       xr_amount := Some (unat (xt_amount (ow_transfer e))), xr_initiated := block_columns T block t\<rparr>"
| "event_row T chain block t (XOutgoingTransferFailed e) r =
     r\<lparr>xr_acknowledged := block_columns T block t, xr_successful := Some False\<rparr>"
| "event_row T chain block t (XOutgoingTransferSuccessful e) r =
     r\<lparr>xr_acknowledged := block_columns T block t, xr_successful := Some True\<rparr>"
| "event_row T chain block t (XIncomingTransferSuccessful e) r =
     r\<lparr>xr_amount := Some (unat (is_amount e)), xr_executed := block_columns T block t,
       xr_successful := Some True\<rparr>"

definition blank_row :: "chain_id \<times> chain_id \<times> xdm_message_id \<Rightarrow> xdm_rec" where
  "blank_row rt = (case rt of (src, dst, msg) \<Rightarrow>
     \<lparr>xr_src_chain = show_chain_id src, xr_dst_chain = show_chain_id dst,
       xr_channel_id = unat (fst msg), xr_nonce = unat (snd msg), xr_sender = None, xr_receiver = None,
       xr_amount = None, xr_initiated = (None, None, None), xr_executed = (None, None, None),
       xr_acknowledged = (None, None, None), xr_successful = None\<rparr>)"

context text_library
begin

lemma xdm_row_Ok: "xdm_row T src dst msg = Ok (blank_row (src, dst, msg))"
  by (cases msg) (simp add: xdm_row_def numeric_u256_text blank_row_def)

lemma store_event_write:
  "store_event T chain block t ev =
     write_xdm (event_merge ev) (Ok (event_row T chain block t ev (blank_row (event_route chain ev))))"
  by (cases ev)
    (simp_all add: store_outgoing_transfer_initiated_def store_outgoing_transfer_acknowledgement_def
      store_incoming_transfer_execution_def Let_def xdm_row_Ok)

lemma store_event_no_fault:
  "db_faults s = [] \<Longrightarrow> store_event T chain block t ev s =
     (Ok (), s\<lparr>db_xdm_transfers := upsert xdm_key (event_merge ev)
       (event_row T chain block t ev (blank_row (event_route chain ev))) (db_xdm_transfers s)\<rparr>)"
  unfolding store_event_write write_xdm_def by simp

end

lemma event_merge_keyed: "keyed_table xdm_key (event_merge ev)"
  by (cases ev) (simp_all add: initiated_table.keyed_table_axioms acknowledged_table.keyed_table_axioms
      executed_table.keyed_table_axioms)

text \<open>
  Two events agree when they are about different transfers, or are different kinds of event
  that report the same amount and the same outcome where both report one.
\<close>

definition agrees :: "'a option \<Rightarrow> 'a option \<Rightarrow> bool" where
  "agrees a b \<longleftrightarrow> a = None \<or> b = None \<or> a = b"

definition events_agree :: "chain_id \<Rightarrow> xdm_event \<Rightarrow> chain_id \<Rightarrow> xdm_event \<Rightarrow> bool" where
  "events_agree c1 e1 c2 e2 \<longleftrightarrow> event_route c1 e1 \<noteq> event_route c2 e2 \<or>
     (event_kind e1 \<noteq> event_kind e2 \<and> agrees (event_amount e1) (event_amount e2) \<and>
      agrees (event_status e1) (event_status e2))"

lemma xdm_key_event_row [simp]: "xdm_key (event_row T c b t ev r) = xdm_key r"
  by (cases ev) (simp_all add: xdm_key_def)

lemma blank_row_key_inject: "xdm_key (blank_row a) = xdm_key (blank_row b) \<Longrightarrow> a = b"
  by (cases a; cases b) (auto simp: blank_row_def xdm_key_def word_unat_eq_iff prod_eq_iff)

lemmas event_merge_defs = merge_initiated_def merge_acknowledged_def merge_executed_def

lemma event_merge_fresh:
  assumes "events_agree c1 e1 c2 e2" and "event_route c1 e1 = event_route c2 e2"
  shows "event_merge e2 (event_row T c1 b1 t1 e1 (blank_row (event_route c1 e1)))
      (event_row T c2 b2 t2 e2 (blank_row (event_route c2 e2))) =
    event_merge e1 (event_row T c2 b2 t2 e2 (blank_row (event_route c2 e2)))
      (event_row T c1 b1 t1 e1 (blank_row (event_route c1 e1)))"
  using assms
  by (cases e1; cases e2) (auto simp: events_agree_def agrees_def event_merge_defs blank_row_def
      split: prod.splits)

lemma event_merge_old:
  assumes "events_agree c1 e1 c2 e2" and "event_route c1 e1 = event_route c2 e2"
  shows "event_merge e2 (event_merge e1 old (event_row T c1 b1 t1 e1 (blank_row (event_route c1 e1))))
      (event_row T c2 b2 t2 e2 (blank_row (event_route c2 e2))) =
    event_merge e1 (event_merge e2 old (event_row T c2 b2 t2 e2 (blank_row (event_route c2 e2))))
      (event_row T c1 b1 t1 e1 (blank_row (event_route c1 e1)))"
  using assms
  by (cases e1; cases e2) (auto simp: events_agree_def agrees_def event_merge_defs)

lemma event_merge_again:
  "event_merge e (event_merge e old r) r = event_merge e old r" "event_merge e r r = r"
  by (cases e; simp add: event_merge_defs)+

text \<open>Any two writes leave the same rows in either order.\<close>

theorem xdm_writes_commute:
  assumes "text_library T" and "db_faults s = []" and "events_agree c1 e1 c2 e2"
  shows "lookup xdm_key k (db_xdm_transfers
      (snd (then_prog (store_event T c1 b1 t1 e1) (store_event T c2 b2 t2 e2) s))) =
    lookup xdm_key k (db_xdm_transfers
      (snd (then_prog (store_event T c2 b2 t2 e2) (store_event T c1 b1 t1 e1) s)))"
proof -
  note sim = text_library.store_event_no_fault [OF assms(1)]
  let ?r1 = "event_row T c1 b1 t1 e1 (blank_row (event_route c1 e1))"
  let ?r2 = "event_row T c2 b2 t2 e2 (blank_row (event_route c2 e2))"
  have eq: "event_route c1 e1 = event_route c2 e2" if "xdm_key ?r1 = xdm_key ?r2"
    using that blank_row_key_inject by simp
  have "lookup xdm_key k (upsert xdm_key (event_merge e2) ?r2 (upsert xdm_key (event_merge e1) ?r1 (db_xdm_transfers s))) =
    lookup xdm_key k (upsert xdm_key (event_merge e1) ?r1 (upsert xdm_key (event_merge e2) ?r2 (db_xdm_transfers s)))"
    by (rule upsert_commute [OF event_merge_keyed event_merge_keyed])
      (use event_merge_fresh [OF assms(3) eq] event_merge_old [OF assms(3) eq] in blast)+
  then show ?thesis
    using assms(2) by (simp add: then_prog_def bind_prog_def sim)
qed

definition ex_init :: xdm_event where
  "ex_init = XOutgoingTransferInitiated \<lparr>ow_message_id = (0, 1), ow_transfer = \<lparr>xt_amount = 10,
     xt_sender = \<lparr>lo_chain_id = Consensus, lo_account_id = AccountId32 7\<rparr>,
     xt_receiver = \<lparr>lo_chain_id = Domain (DomainId 0), lo_account_id = AccountId20 [1, 2]\<rparr>\<rparr>\<rparr>"

definition ex_exec :: xdm_event where
  "ex_exec = XIncomingTransferSuccessful \<lparr>is_chain_id = Consensus, is_message_id = (0, 1), is_amount = 10\<rparr>"

theorem xdm_writes_commute_witness:
  "\<forall>k. lookup xdm_key k (db_xdm_transfers (snd (then_prog
      (store_event plain_text Consensus \<lparr>hn_number = 5, hn_hash = 5\<rparr> 50 ex_init)
      (store_event plain_text (Domain (DomainId 0)) \<lparr>hn_number = 9, hn_hash = 9\<rparr> 90 ex_exec) empty_db))) =
    lookup xdm_key k (db_xdm_transfers (snd (then_prog
      (store_event plain_text (Domain (DomainId 0)) \<lparr>hn_number = 9, hn_hash = 9\<rparr> 90 ex_exec)
      (store_event plain_text Consensus \<lparr>hn_number = 5, hn_hash = 5\<rparr> 50 ex_init) empty_db)))"
  by (intro allI xdm_writes_commute plain.text_library_axioms)
    (simp_all add: empty_db_def events_agree_def agrees_def ex_init_def ex_exec_def)

subsection \<open>Histories\<close>

text \<open>
  The rows as a map, the effect of a write on it, and the writes that agree: the same write, or
  writes whose events agree, which for one transfer are of different kinds. Writes that agree
  form \<open>idempotent_steps\<close>: a history that repeats them, in another order, converges.
\<close>

type_synonym xdm_write = "chain_id \<times> hash_and_number \<times> datetime \<times> xdm_event"

definition xdm_step :: "text_lib \<Rightarrow> xdm_write \<Rightarrow> (string \<times> string \<times> nat \<times> nat \<Rightarrow> xdm_rec option) \<Rightarrow>
    string \<times> string \<times> nat \<times> nat \<Rightarrow> xdm_rec option" where
  "xdm_step T w rows = (case w of (c, b, t, e) \<Rightarrow>
     let r = event_row T c b t e (blank_row (event_route c e)) in
     rows(xdm_key r \<mapsto> (case rows (xdm_key r) of None \<Rightarrow> r | Some old \<Rightarrow> event_merge e old r)))"

fun writes_agree :: "xdm_write \<Rightarrow> xdm_write \<Rightarrow> bool" where
  "writes_agree (c1, b1, t1, e1) (c2, b2, t2, e2) \<longleftrightarrow>
     (c1, b1, t1, e1) = (c2, b2, t2, e2) \<or> events_agree c1 e1 c2 e2"

lemma xdm_step_commute:
  assumes "events_agree c1 e1 c2 e2"
  shows "xdm_step T (c1, b1, t1, e1) (xdm_step T (c2, b2, t2, e2) rows) =
    xdm_step T (c2, b2, t2, e2) (xdm_step T (c1, b1, t1, e1) rows)"
proof (cases "event_route c1 e1 = event_route c2 e2")
  case True
  let ?r = "event_row T c1 b1 t1 e1 (blank_row (event_route c1 e1))"
  have "xdm_key ?r = xdm_key (event_row T c2 b2 t2 e2 (blank_row (event_route c2 e2)))"
    by (simp add: True)
  then show ?thesis
    using event_merge_fresh [OF assms True] event_merge_old [OF assms True]
    unfolding xdm_step_def Let_def prod.case
    by (auto simp del: xdm_key_event_row simp: fun_eq_iff split: option.splits)
next
  case False
  then have "xdm_key (blank_row (event_route c1 e1)) \<noteq> xdm_key (blank_row (event_route c2 e2))"
    using blank_row_key_inject by blast
  then show ?thesis by (auto simp: xdm_step_def Let_def fun_eq_iff split: option.splits)
qed

interpretation xdm_writes: idempotent_steps "xdm_step T" writes_agree for T
proof
  fix a b rows assume "writes_agree a b"
  then show "xdm_step T a (xdm_step T b rows) = xdm_step T b (xdm_step T a rows)"
    by (cases "(a, b)" rule: writes_agree.cases) (auto intro: xdm_step_commute)
next
  fix a rows
  show "xdm_step T a (xdm_step T a rows) = xdm_step T a rows"
    by (cases a) (auto simp: xdm_step_def Let_def fun_eq_iff event_merge_again split: option.splits)
qed

text \<open>An attempt to execute a write; a statement that fails has no effect.\<close>

definition xdm_attempt :: "text_lib \<Rightarrow> xdm_write \<times> db_error option \<Rightarrow> db \<Rightarrow> db" where
  "xdm_attempt T a s = (case a of ((c, b, t, e), fault) \<Rightarrow> snd (store_event T c b t e (s\<lparr>db_faults := [fault]\<rparr>)))"

definition succeeded :: "(xdm_write \<times> db_error option) list \<Rightarrow> xdm_write list" where
  "succeeded h = map fst (filter (\<lambda>a. snd a = None) h)"

context text_library
begin

lemma attempt_rows:
  "(\<lambda>k. lookup xdm_key k (db_xdm_transfers (xdm_attempt T (w, fault) s))) =
     (if fault = None then xdm_step T w else id) (\<lambda>k. lookup xdm_key k (db_xdm_transfers s))"
  by (cases w; cases fault)
    (auto simp: xdm_attempt_def store_event_write write_xdm_def write_row_def execute_def fun_eq_iff xdm_step_def
      Let_def keyed_table.lookup_upsert [OF event_merge_keyed] split: option.splits)

lemma attempts_rows:
  "(\<lambda>k. lookup xdm_key k (db_xdm_transfers (fold (xdm_attempt T) h s))) =
     fold (xdm_step T) (succeeded h) (\<lambda>k. lookup xdm_key k (db_xdm_transfers s))"
proof (induction h arbitrary: s)
  case (Cons a h)
  then show ?case using attempt_rows [of "fst a" "snd a" s] by (simp add: succeeded_def)
qed (simp add: succeeded_def)

end

text \<open>
  C7: so the order of the writes does not matter as long as they agree: two histories of attempts in
  which the same writes succeeded, in any order and any number of times and whatever
  statements failed, leave the same rows, provided that any two of the writes for one transfer
  are the same write or are of different kinds (initiation, execution, acknowledgement) and
  report the same amount and outcome where both report one. In particular each kind is
  recorded from one block only: this does not cover an event that a reorganisation moved to
  another block.
\<close>

theorem xdm_index_converges:
  assumes "text_library T" and "set (succeeded h1) = set (succeeded h2)"
    and "\<forall>a \<in> set (succeeded h1). \<forall>b \<in> set (succeeded h1). writes_agree a b"
  shows "lookup xdm_key k (db_xdm_transfers (fold (xdm_attempt T) h1 s)) =
    lookup xdm_key k (db_xdm_transfers (fold (xdm_attempt T) h2 s))"
  using xdm_writes.converge [OF assms(2,3), of T]
  unfolding text_library.attempts_rows [OF assms(1), THEN fun_cong, symmetric]
  by (metis text_library.attempts_rows [OF assms(1)])

theorem xdm_index_converges_witness:
  "\<forall>k. lookup xdm_key k (db_xdm_transfers (fold (xdm_attempt plain_text)
       [((Consensus, \<lparr>hn_number = 5, hn_hash = 5\<rparr>, 50, ex_init), None),
        ((Domain (DomainId 0), \<lparr>hn_number = 9, hn_hash = 9\<rparr>, 90, ex_exec), None)] empty_db)) =
     lookup xdm_key k (db_xdm_transfers (fold (xdm_attempt plain_text)
       [((Domain (DomainId 0), \<lparr>hn_number = 9, hn_hash = 9\<rparr>, 90, ex_exec), Some RowNotFound),
        ((Domain (DomainId 0), \<lparr>hn_number = 9, hn_hash = 9\<rparr>, 90, ex_exec), None),
        ((Consensus, \<lparr>hn_number = 5, hn_hash = 5\<rparr>, 50, ex_init), None),
        ((Domain (DomainId 0), \<lparr>hn_number = 9, hn_hash = 9\<rparr>, 90, ex_exec), None)] empty_db))"
  by (intro allI xdm_index_converges plain.text_library_axioms)
    (auto simp: succeeded_def events_agree_def agrees_def ex_init_def ex_exec_def)

subsection \<open>The row of a transfer\<close>

text \<open>
  A reference for what a history of writes leaves of a transfer, without regard to how rows are
  merged: each group of columns is that of the last write that has it.
\<close>

type_synonym xdm_id = "string \<times> string \<times> nat \<times> nat"

fun write_id :: "xdm_write \<Rightarrow> xdm_id" where
  "write_id (c, b, t, e) = (case event_route c e of (src, dst, msg) \<Rightarrow>
     (show_chain_id src, show_chain_id dst, unat (fst msg), unat (snd msg)))"

fun sent_between :: "text_lib \<Rightarrow> xdm_write \<Rightarrow> (string \<times> string) option" where
  "sent_between T (c, b, t, XOutgoingTransferInitiated e) =
     Some (show_account T (lo_account_id (xt_sender (ow_transfer e))), show_account T (lo_account_id (xt_receiver (ow_transfer e))))"
| "sent_between T _ = None"

fun initiated_in :: "text_lib \<Rightarrow> xdm_write \<Rightarrow> (i64 option \<times> string option \<times> datetime option) option" where
  "initiated_in T (c, b, t, XOutgoingTransferInitiated e) = Some (block_columns T b t)"
| "initiated_in T _ = None"

fun executed_in :: "text_lib \<Rightarrow> xdm_write \<Rightarrow> (i64 option \<times> string option \<times> datetime option) option" where
  "executed_in T (c, b, t, XIncomingTransferSuccessful e) = Some (block_columns T b t)"
| "executed_in T _ = None"

fun acknowledged_in :: "text_lib \<Rightarrow> xdm_write \<Rightarrow> (i64 option \<times> string option \<times> datetime option) option" where
  "acknowledged_in T (c, b, t, XOutgoingTransferFailed e) = Some (block_columns T b t)"
| "acknowledged_in T (c, b, t, XOutgoingTransferSuccessful e) = Some (block_columns T b t)"
| "acknowledged_in T _ = None"

fun amount_written :: "xdm_write \<Rightarrow> u128 option" where
  "amount_written (c, b, t, e) = event_amount e"

fun outcome_written :: "xdm_write \<Rightarrow> bool option" where
  "outcome_written (c, b, t, e) = event_status e"

definition null_row :: "xdm_id \<Rightarrow> xdm_rec" where
  "null_row k = (case k of (src, dst, channel, nonce) \<Rightarrow>
     \<lparr>xr_src_chain = src, xr_dst_chain = dst, xr_channel_id = channel, xr_nonce = nonce, xr_sender = None,
       xr_receiver = None, xr_amount = None, xr_initiated = (None, None, None), xr_executed = (None, None, None),
       xr_acknowledged = (None, None, None), xr_successful = None\<rparr>)"

definition or_last :: "('w \<Rightarrow> 'v option) \<Rightarrow> 'w list \<Rightarrow> 'v \<Rightarrow> 'v" where
  "or_last f ws v = (case last_written f ws of None \<Rightarrow> v | Some x \<Rightarrow> x)"

definition columns_of :: "text_lib \<Rightarrow> xdm_write list \<Rightarrow> xdm_rec \<Rightarrow> xdm_rec" where
  "columns_of T ws r = r\<lparr>
     xr_sender := or_last (map_option (Some \<circ> fst) \<circ> sent_between T) ws (xr_sender r),
     xr_receiver := or_last (map_option (Some \<circ> snd) \<circ> sent_between T) ws (xr_receiver r),
     xr_amount := or_last (map_option (Some \<circ> unat) \<circ> amount_written) ws (xr_amount r),
     xr_initiated := or_last (initiated_in T) ws (xr_initiated r),
     xr_executed := or_last (executed_in T) ws (xr_executed r),
     xr_acknowledged := or_last (acknowledged_in T) ws (xr_acknowledged r),
     xr_successful := or_last (map_option Some \<circ> outcome_written) ws (xr_successful r)\<rparr>"

definition reference_row :: "text_lib \<Rightarrow> xdm_id \<Rightarrow> xdm_write list \<Rightarrow> xdm_rec option \<Rightarrow> xdm_rec option" where
  "reference_row T k ws old = (let own = filter (\<lambda>w. write_id w = k) ws
     in if own = [] then old else Some (columns_of T own (case old of None \<Rightarrow> null_row k | Some r \<Rightarrow> r)))"

lemma blank_row_null: "write_id (c, b, t, e) = k \<Longrightarrow> blank_row (event_route c e) = null_row k"
  by (auto simp: blank_row_def null_row_def split: prod.splits)

lemma blank_row_id: "xdm_key (blank_row (event_route c e)) = write_id (c, b, t, e)"
  by (auto simp: blank_row_def xdm_key_def split: prod.splits)

lemma or_last_snoc: "or_last f (ws @ [w]) v = (case f w of None \<Rightarrow> or_last f ws v | Some x \<Rightarrow> x)"
  by (simp add: or_last_def split: option.split)

lemma event_row_columns: "event_row T c b t e (null_row k) = columns_of T [(c, b, t, e)] (null_row k)"
  by (cases e) (simp_all add: columns_of_def or_last_def null_row_def split: prod.split)

lemma event_merge_columns:
  "event_merge e r (columns_of T [(c, b, t, e)] (null_row k)) = columns_of T [(c, b, t, e)] r"
  by (cases e) (simp_all add: columns_of_def or_last_def event_merge_defs)

lemma columns_of_snoc: "columns_of T (ws @ [w]) r = columns_of T [w] (columns_of T ws r)"
  by (simp add: columns_of_def or_last_snoc) (simp add: or_last_def split: option.split)

lemma xdm_step_at:
  "xdm_step T (c, b, t, e) rows k = (if write_id (c, b, t, e) = k
     then Some (case rows k of None \<Rightarrow> event_row T c b t e (blank_row (event_route c e))
       | Some old \<Rightarrow> event_merge e old (event_row T c b t e (blank_row (event_route c e))))
     else rows k)"
  by (simp add: xdm_step_def Let_def blank_row_id [of c e b t] del: write_id.simps)

lemma xdm_steps_reference: "fold (xdm_step T) ws rows k = reference_row T k ws (rows k)"
proof (induction ws rule: rev_induct)
  case Nil
  then show ?case by (simp add: reference_row_def)
next
  case (snoc w ws)
  obtain c b t e where w: "w = (c, b, t, e)" by (cases w)
  show ?case
  proof (cases "write_id w = k")
    case True
    with snoc show ?thesis
      by (cases "rows k"; cases "filter (\<lambda>w. write_id w = k) ws = []")
        (simp_all add: w xdm_step_at reference_row_def Let_def event_row_columns event_merge_columns columns_of_snoc
          blank_row_null [of c b t e] del: write_id.simps)
  next
    case False
    with snoc show ?thesis by (simp add: w xdm_step_at reference_row_def del: write_id.simps)
  qed
qed

text \<open>
  C6: the index of cross-domain transfers is exact. The processors of the two chains write the
  initiation, the execution and the acknowledgement of a transfer in any order, statements
  fail, and blocks are indexed again after failures, restarts and reorganisations. After any
  history of attempts every row is the reference row of the writes that succeeded: sender,
  receiver and initiating block are those of the last initiation of the transfer, the
  executing block that of the last execution, the acknowledging block that of the last
  acknowledgement, the amount that of the last initiation or execution, the outcome that of the
  last execution or acknowledgement; what no write has set is as it was before.
\<close>

theorem xdm_rows_last_written:
  assumes "text_library T"
  shows "lookup xdm_key k (db_xdm_transfers (fold (xdm_attempt T) h s)) =
    reference_row T k (succeeded h) (lookup xdm_key k (db_xdm_transfers s))"
  using text_library.attempts_rows [OF assms, of h s, THEN fun_cong, of k] by (simp add: xdm_steps_reference)

theorem xdm_rows_last_written_witness:
  "\<exists>r. lookup xdm_key (show_chain_id Consensus, show_chain_id (Domain (DomainId 0)), 0, 1) (db_xdm_transfers (fold (xdm_attempt plain_text)
       [((Consensus, \<lparr>hn_number = 5, hn_hash = 5\<rparr>, 50, ex_init), None),
        ((Domain (DomainId 0), \<lparr>hn_number = 9, hn_hash = 9\<rparr>, 90, ex_exec), None),
        ((Consensus, \<lparr>hn_number = 6, hn_hash = 6\<rparr>, 60, ex_init), None),
        ((Consensus, \<lparr>hn_number = 7, hn_hash = 7\<rparr>, 70, ex_init), Some RowNotFound)] empty_db)) = Some r \<and>
     xr_initiated r = block_columns plain_text \<lparr>hn_number = 6, hn_hash = 6\<rparr> 60 \<and>
     xr_executed r = block_columns plain_text \<lparr>hn_number = 9, hn_hash = 9\<rparr> 90 \<and> xr_successful r = Some True"
  by (subst xdm_rows_last_written [OF plain.text_library_axioms])
    (simp add: succeeded_def reference_row_def Let_def columns_of_def or_last_def ex_init_def ex_exec_def null_row_def)

subsection \<open>Reading transfers back\<close>

definition xdm_view :: "xdm_rec \<Rightarrow> xdm_transfer_row" where
  "xdm_view r = \<lparr>xq_src_chain = xr_src_chain r, xq_dst_chain = xr_dst_chain r,
     xq_channel_id = show_nat (xr_channel_id r), xq_nonce = show_nat (xr_nonce r),
     xq_sender = xr_sender r, xq_receiver = xr_receiver r, xq_amount = map_option of_nat (xr_amount r),
     xq_initiated = xr_initiated r, xq_executed = xr_executed r,
     xq_acknowledged = xr_acknowledged r, xq_successful = xr_successful r\<rparr>"

lemma xdm_from_row_view: "amount_fits (xr_amount r) \<Longrightarrow> xdm_from_row r = Ok (xdm_view r)"
  by (auto simp: xdm_from_row_def xdm_view_def amount_fits_def u128_compat_decode_def
      parse_uint_show_nat split: option.splits)

lemma try_collect_views:
  "list_all (\<lambda>r. amount_fits (xr_amount r)) rows \<Longrightarrow> try_collect (map xdm_from_row rows) = Ok (map xdm_view rows)"
  by (induction rows) (auto simp: xdm_from_row_view)

lemma set_order_nulls_first [simp]: "set (order_by_desc_nulls_first f rows) = set rows"
  by (auto simp: order_by_desc_nulls_first_def)

lemma transfers_for_address:
  assumes "db_ok s" and "db_faults s = []" and "scan_law scan"
  shows "\<exists>rows. get_xdm_transfer_for_address scan a s = (Ok rows, s) \<and>
    set rows = xdm_view ` {r \<in> set (db_xdm_transfers s). xr_sender r = Some a \<or> xr_receiver r = Some a}"
proof -
  let ?rows = "order_by_desc_nulls_first initiated_at
    (filter (\<lambda>r. xr_sender r = Some a \<or> xr_receiver r = Some a) (scan (db_xdm_transfers s)))"
  have set: "set ?rows = {r \<in> set (db_xdm_transfers s). xr_sender r = Some a \<or> xr_receiver r = Some a}"
    using scan_law_set [OF assms(3)] by simp
  then have "list_all (\<lambda>r. amount_fits (xr_amount r)) ?rows"
    using assms(1) by (auto simp: list_all_iff db_ok_def)
  with assms(2) have "get_xdm_transfer_for_address scan a s = (Ok (map xdm_view ?rows), s)"
    by (simp add: get_xdm_transfer_for_address_def try_collect_views)
  with set show ?thesis by (intro exI [of _ "map xdm_view ?rows"]) simp
qed

text \<open>
  C22: a recorded initiation is found again under the address of its sender and under that of its
  receiver, with the exact 128-bit amount, the message id as decimal text, and the block
  that initiated it, whatever else the table holds.
\<close>

theorem initiated_transfer_found:
  assumes "text_library T" and "db_ok s" and "db_faults s = []" and "scan_law scan"
    and "a = show_account T (lo_account_id (xt_sender (ow_transfer e))) \<or>
         a = show_account T (lo_account_id (xt_receiver (ow_transfer e)))"
  shows "\<exists>s' rows row. store_event T chain block t (XOutgoingTransferInitiated e) s = (Ok (), s') \<and>
    get_xdm_transfer_for_address scan a s' = (Ok rows, s') \<and> row \<in> set rows \<and>
    xq_amount row = Some (xt_amount (ow_transfer e)) \<and>
    xq_channel_id row = tl_u256 T (fst (ow_message_id e)) \<and>
    xq_nonce row = tl_u256 T (snd (ow_message_id e)) \<and> xq_initiated row = block_columns T block t"
proof -
  let ?ev = "XOutgoingTransferInitiated e"
  let ?r = "event_row T chain block t ?ev (blank_row (event_route chain ?ev))"
  let ?s' = "s\<lparr>db_xdm_transfers := upsert xdm_key (event_merge ?ev) ?r (db_xdm_transfers s)\<rparr>"
  have run: "store_event T chain block t ?ev s = (Ok (), ?s')"
    by (rule text_library.store_event_no_fault [OF assms(1,3)])
  have ok: "db_ok ?s'" using preservesD [OF store_event_ok assms(2)] run by (metis snd_conv)
  obtain row where row: "lookup xdm_key (xdm_key ?r) (db_xdm_transfers ?s') = Some row"
    and merged: "row = ?r \<or> (\<exists>old. xdm_key old = xdm_key ?r \<and> row = merge_initiated old ?r)"
  proof (cases "lookup xdm_key (xdm_key ?r) (db_xdm_transfers s)")
    case None
    show ?thesis by (rule that [of ?r]) (simp_all add: initiated_table.lookup_upsert None [simplified])
  next
    case (Some old)
    from lookup_Some_key [OF Some] show ?thesis
      by (intro that [of "merge_initiated old ?r"] disjI2 exI [of _ old] conjI refl)
        (simp_all add: initiated_table.lookup_upsert Some [simplified])
  qed
  have cols: "xr_sender row = xr_sender ?r" "xr_receiver row = xr_receiver ?r" "xr_amount row = xr_amount ?r"
    "xr_initiated row = xr_initiated ?r" "xr_channel_id row = xr_channel_id ?r" "xr_nonce row = xr_nonce ?r"
    using merged by (auto simp: merge_initiated_def xdm_key_def)
  have mem: "row \<in> set (db_xdm_transfers ?s')" by (rule lookup_in_set [OF row])
  obtain rows where rows: "get_xdm_transfer_for_address scan a ?s' = (Ok rows, ?s')"
    "set rows = xdm_view ` {r \<in> set (db_xdm_transfers ?s'). xr_sender r = Some a \<or> xr_receiver r = Some a}"
    using transfers_for_address [OF ok _ assms(4), of a] assms(3) by auto
  have "xr_sender row = Some a \<or> xr_receiver row = Some a"
    using assms(5) by (auto simp: cols)
  then have "xdm_view row \<in> set rows" unfolding rows(2) using mem by (intro imageI CollectI conjI)
  moreover have "xq_channel_id (xdm_view row) = tl_u256 T (fst (ow_message_id e))"
    "xq_nonce (xdm_view row) = tl_u256 T (snd (ow_message_id e))"
    by (simp_all add: xdm_view_def cols blank_row_def text_library.u256_decimal [OF assms(1)])
  moreover have "xq_amount (xdm_view row) = Some (xt_amount (ow_transfer e))"
    "xq_initiated (xdm_view row) = block_columns T block t"
    by (simp_all add: xdm_view_def cols)
  ultimately show ?thesis using run rows(1) by blast
qed

theorem initiated_transfer_found_witness:
  "\<exists>s' rows row. store_event plain_text Consensus \<lparr>hn_number = 5, hn_hash = 5\<rparr> 50 ex_init empty_db = (Ok (), s') \<and>
     get_xdm_transfer_for_address (\<lambda>rows. rows) (show_nat (unat (7 :: account32))) s' = (Ok rows, s') \<and>
     row \<in> set rows \<and> xq_amount row = Some 10"
proof -
  let ?e = "\<lparr>ow_message_id = (0, 1), ow_transfer = \<lparr>xt_amount = 10,
     xt_sender = \<lparr>lo_chain_id = Consensus, lo_account_id = AccountId32 7\<rparr>,
     xt_receiver = \<lparr>lo_chain_id = Domain (DomainId 0), lo_account_id = AccountId20 [1, 2]\<rparr>\<rparr>\<rparr>"
  have a: "show_nat (unat (7 :: account32)) = show_account plain_text (lo_account_id (xt_sender (ow_transfer ?e))) \<or>
      show_nat (unat (7 :: account32)) = show_account plain_text (lo_account_id (xt_receiver (ow_transfer ?e)))"
    by (simp add: plain_text_def)
  have "db_faults empty_db = []" by (simp add: empty_db_def)
  from initiated_transfer_found [OF plain.text_library_axioms db_ok_empty this scan_law_id a,
      of Consensus "\<lparr>hn_number = 5, hn_hash = 5\<rparr>" 50]
  show ?thesis unfolding ex_init_def by auto
qed

end
