(* ===== verification/Staking.thy ===== *)
theory Staking
  imports Xdm
begin

section \<open>Indexing staking\<close>

text \<open>
  \<open>indexer/src/staking.rs\<close>: the staking events of a consensus block and the rows they write.
  Events of one kind are handled together, in the order of the source. An account is read as
  32 bytes; its identity is the number they denote.
\<close>

definition CHECKPOINT_KEY :: string where
  "CHECKPOINT_KEY = ''staking_processor_Consensus''"

definition account_of_bytes :: "bytes \<Rightarrow> account32" where
  "account_of_bytes bs = of_nat (of_le bs)"

subsection \<open>Finding events\<close>

type_synonym 'e finder = "(event_details, 'e) event_finder"

fun as_registered :: "operator_event finder" where
  "as_registered (Ed_OperatorRegistered r) = Some r" | "as_registered _ = None"

fun as_deregistered :: "operator_event finder" where
  "as_deregistered (Ed_OperatorDeregistered r) = Some r" | "as_deregistered _ = None"

fun as_slashed :: "operator_event finder" where
  "as_slashed (Ed_OperatorSlashed r) = Some r" | "as_slashed _ = None"

fun as_deactivated :: "operator_event finder" where
  "as_deactivated (Ed_OperatorDeactivated r) = Some r" | "as_deactivated _ = None"

fun as_reactivated :: "operator_event finder" where
  "as_reactivated (Ed_OperatorReactivated r) = Some r" | "as_reactivated _ = None"

fun as_storage_fee :: "storage_fee_deposited finder" where
  "as_storage_fee (Ed_StorageFeeDeposited r) = Some r" | "as_storage_fee _ = None"

fun as_nominated :: "operator_nominated finder" where
  "as_nominated (Ed_OperatorNominated r) = Some r" | "as_nominated _ = None"

fun as_withdrew :: "nominator_event finder" where
  "as_withdrew (Ed_WithdrewStake r) = Some r" | "as_withdrew _ = None"

fun as_unlocked :: "nominator_event finder" where
  "as_unlocked (Ed_NominatorUnlocked r) = Some r" | "as_unlocked _ = None"

fun as_staked_unlocked :: "nominator_event finder" where
  "as_staked_unlocked (Ed_NominatedStakedUnlocked r) = Some r" | "as_staked_unlocked _ = None"

fun as_epoch_completed :: "domain_epoch_completed finder" where
  "as_epoch_completed (Ed_DomainEpochCompleted r) = Some r" | "as_epoch_completed _ = None"

definition event_ok :: "('e, shared_error) result \<Rightarrow> ('e \<Rightarrow> unit db_op) \<Rightarrow> unit db_op" where
  "event_ok r body = bind_prog (lift_result (map_err I_Subspace r)) body"

definition for_events :: "('e, shared_error) result list \<Rightarrow> ('e \<Rightarrow> unit db_op) \<Rightarrow> unit db_op" where
  "for_events rs body = for_prog rs (\<lambda>r. event_ok r body)"

text \<open>A \<open>match\<close> on a read that logs an error and skips the event.\<close>

definition read_or_skip :: "('a, shared_error) result \<Rightarrow> ('a \<Rightarrow> unit db_op) \<Rightarrow> unit db_op" where
  "read_or_skip r body = (case r of Ok x \<Rightarrow> body x | Err e \<Rightarrow> ret () | Panic p \<Rightarrow> lift_result (Panic p))"

subsection \<open>Operators\<close>

definition read_operator :: "chain_client \<Rightarrow> codec \<Rightarrow> block_ext \<Rightarrow> u64 \<Rightarrow> (full_operator, shared_error) result" where
  "read_operator N C b i = read_storage N (decode_full_operator C) b ''Domains'' ''Operators'' (Key_Operator i)"

definition read_owner :: "chain_client \<Rightarrow> codec \<Rightarrow> block_ext \<Rightarrow> u64 \<Rightarrow> (account32, shared_error) result" where
  "read_owner N C b i = map_ok account_of_bytes
     (read_storage N (dec_bytes32 C) b ''Domains'' ''OperatorIdOwner'' (Key_Operator i))"

definition on_registered ::
  "text_lib \<Rightarrow> chain_client \<Rightarrow> codec \<Rightarrow> block_ext \<Rightarrow> u32 \<Rightarrow> datetime \<Rightarrow> operator_event \<Rightarrow> unit db_op" where
  "on_registered T N C b n block_time e =
     read_or_skip (read_operator N C b (op_operator_id e)) (\<lambda>op.
     read_or_skip (read_owner N C b (op_operator_id e)) (\<lambda>owner.
     then_prog (upsert_operator \<lparr>uo_operator_id = op_operator_id e, uo_domain_id = fo_current_domain_id op,
         uo_owner_account = tl_ss58 T owner, uo_signing_key = ''0x'' @ tl_hex_encode T (fo_signing_key op),
         uo_minimum_nominator_stake = fo_minimum_nominator_stake op,
         uo_nomination_tax = fo_nomination_tax op, uo_status = as_str (fo_status op),
         uo_total_stake = fo_current_total_stake op, uo_total_shares = fo_current_total_shares op,
         uo_total_storage_fee_deposit = fo_total_storage_fee_deposit op, uo_block_time = block_time\<rparr>)
       (upsert_nominator (op_operator_id e) (tl_ss58 T owner) ''active'' n)))"

definition on_status :: "string \<Rightarrow> operator_event \<Rightarrow> unit db_op" where
  "on_status status e = update_operator_status (op_operator_id e) status"

subsection \<open>Deposits\<close>

type_synonym fees = "u64 \<times> string \<Rightarrow> u128 list option"

definition push_fee :: "text_lib \<Rightarrow> fees \<Rightarrow> storage_fee_deposited \<Rightarrow> fees" where
  "push_fee T fees e = (let k = (sf_operator_id e, tl_ss58 T (sf_nominator_id e)) in
     fees(k \<mapsto> (case fees k of None \<Rightarrow> [] | Some xs \<Rightarrow> xs) @ [sf_amount e]))"

primrec collect_fees ::
  "text_lib \<Rightarrow> (storage_fee_deposited, shared_error) result list \<Rightarrow> fees \<Rightarrow> (fees, indexer_error) result" where
  "collect_fees T [] fees = Ok fees"
| "collect_fees T (r # rs) fees =
     bind_result (map_err I_Subspace r) (\<lambda>e. collect_fees T rs (push_fee T fees e))"

definition take_fee :: "fees \<Rightarrow> u64 \<times> string \<Rightarrow> u128 \<times> fees" where
  "take_fee fees k = (case fees k of
     Some (f # fs) \<Rightarrow> (f, fees(k \<mapsto> fs)) | _ \<Rightarrow> (0, fees))"

primrec on_nominations ::
  "text_lib \<Rightarrow> u32 \<Rightarrow> datetime \<Rightarrow> (operator_nominated, shared_error) result list \<Rightarrow> fees \<Rightarrow> unit db_op" where
  "on_nominations T n block_time [] fees = ret ()"
| "on_nominations T n block_time (r # rs) fees = event_ok r (\<lambda>e.
     let address = tl_ss58 T (on_nominator_id e);
         (storage_fee, fees') = take_fee fees (on_operator_id e, address) in
     then_prog (upsert_nominator (on_operator_id e) address ''active'' n)
     (then_prog (insert_deposit (on_operator_id e) address (on_amount e) storage_fee n block_time)
       (on_nominations T n block_time rs fees')))"

subsection \<open>Withdrawals and unlocks\<close>

definition no_withdrawal :: nominator_withdrawal where
  "no_withdrawal = \<lparr>nw_shares = 0, nw_amount = 0, nw_storage_fee_refund = 0\<rparr>"

definition read_withdrawal ::
  "chain_client \<Rightarrow> codec \<Rightarrow> block_ext \<Rightarrow> nominator_event \<Rightarrow> (nominator_withdrawal, indexer_error) result" where
  "read_withdrawal N C b e =
     (case try_read_storage N (decode_nominator_withdrawal C) b ''Domains'' ''Withdrawals''
         (Key_Operator_Account (ne_operator_id e) (ne_nominator_id e)) of
        Ok (Some w) \<Rightarrow> Ok w | Ok None \<Rightarrow> Ok no_withdrawal | Err err \<Rightarrow> Ok no_withdrawal
      | Panic p \<Rightarrow> Panic p)"

definition withdrawal_args ::
  "text_lib \<Rightarrow> u32 \<Rightarrow> datetime \<Rightarrow> nominator_event \<Rightarrow> nominator_withdrawal \<Rightarrow> insert_withdrawal_args" where
  "withdrawal_args T n block_time e w = \<lparr>iw_operator_id = ne_operator_id e,
     iw_address = tl_ss58 T (ne_nominator_id e), iw_shares = nw_shares w, iw_amount = nw_amount w,
     iw_storage_fee_refund = nw_storage_fee_refund w, iw_block_height = n, iw_block_time = block_time\<rparr>"

definition on_withdrew ::
  "text_lib \<Rightarrow> chain_client \<Rightarrow> codec \<Rightarrow> block_ext \<Rightarrow> u32 \<Rightarrow> datetime \<Rightarrow> nominator_event \<Rightarrow> unit db_op" where
  "on_withdrew T N C b n block_time e = bind_prog (lift_result (read_withdrawal N C b e))
     (\<lambda>w. insert_withdrawal (withdrawal_args T n block_time e w))"

definition on_unlocked :: "text_lib \<Rightarrow> u32 \<Rightarrow> nominator_event \<Rightarrow> unit db_op" where
  "on_unlocked T n e = upsert_nominator (ne_operator_id e) (tl_ss58 T (ne_nominator_id e)) ''withdrawn'' n"

definition on_staked_unlocked ::
  "text_lib \<Rightarrow> chain_client \<Rightarrow> block_ext \<Rightarrow> u32 \<Rightarrow> nominator_event \<Rightarrow> unit db_op" where
  "on_staked_unlocked T N b n e =
     (case has_storage N b ''Domains'' ''Deposits'' (Key_Operator_Account (ne_operator_id e) (ne_nominator_id e)) of
        Panic p \<Rightarrow> lift_result (Panic p)
      | r \<Rightarrow> let has_deposit = (case r of Ok x \<Rightarrow> x | _ \<Rightarrow> True) in
          upsert_nominator (ne_operator_id e) (tl_ss58 T (ne_nominator_id e))
            (if has_deposit then ''active'' else ''withdrawn'') n)"

subsection \<open>Share prices\<close>

definition share_price_of :: "text_lib \<Rightarrow> u64 \<Rightarrow> (string, indexer_error) result" where
  "share_price_of T raw = bind_result (expect (tl_decimal T (ucast raw)) ''invalid decimal'') (\<lambda>x.
     bind_result (expect (tl_decimal T 1000000000000000000) ''invalid decimal'') (\<lambda>y.
     Ok (tl_decimal_div T x y)))"

definition index_operator_share_price ::
  "text_lib \<Rightarrow> chain_client \<Rightarrow> codec \<Rightarrow> block_ext \<Rightarrow> domain_epoch_completed \<Rightarrow> u32 \<Rightarrow> datetime \<Rightarrow> u64 \<Rightarrow> unit db_op" where
  "index_operator_share_price T N C b e block_height block_time i =
     (case ec_domain_id e of DomainId d \<Rightarrow>
     read_or_skip (try_read_storage N (dec_u64 C) b ''Domains'' ''OperatorEpochSharePrice''
       (Key_Operator_Epoch i (DomainEpoch (ec_domain_id e) (ec_completed_epoch_index e)))) (\<lambda>price.
     case price of None \<Rightarrow> ret () | Some share_price_raw \<Rightarrow>
     read_or_skip (read_operator N C b i) (\<lambda>op.
     bind_prog (lift_result (share_price_of T share_price_raw)) (\<lambda>share_price.
     then_prog (upsert_epoch_share_price T \<lparr>us_operator_id = i, us_domain_id = d,
         us_epoch_index = ucast (ec_completed_epoch_index e), us_share_price = share_price,
         us_total_stake = fo_current_total_stake op, us_total_shares = fo_current_total_shares op,
         us_block_height = ucast block_height, us_block_time = block_time\<rparr>)
       (update_operator_stats i (as_str (fo_status op)) (fo_current_total_stake op)
         (fo_current_total_shares op) (fo_total_storage_fee_deposit op) block_time)))))"

definition index_epoch_share_prices ::
  "text_lib \<Rightarrow> chain_client \<Rightarrow> codec \<Rightarrow> block_ext \<Rightarrow> u32 \<Rightarrow> datetime \<Rightarrow> domain_epoch_completed \<Rightarrow> unit db_op" where
  "index_epoch_share_prices T N C b block_height block_time e =
     bind_prog (lift_result (map_err I_Subspace (read_storage N (decode_staking_summary C) b ''Domains''
       ''DomainStakingSummary'' (Key_Domain (ec_domain_id e))))) (\<lambda>summary.
     for_prog (map fst (ss_current_operators summary))
       (index_operator_share_price T N C b e block_height block_time))"

subsection \<open>A block\<close>

text \<open>The part of the block's handler that follows the reads of block, time and events.\<close>

definition index_staking_events ::
  "text_lib \<Rightarrow> chain_client \<Rightarrow> codec \<Rightarrow> block_ext \<Rightarrow> u32 \<Rightarrow> datetime \<Rightarrow>
     (event_details, shared_error) result list \<Rightarrow> unit db_op" where
  "index_staking_events T N C b n block_time events =
     then_prog (delete_deposits_for_block n) (
     then_prog (delete_withdrawals_for_block n) (
     then_prog (for_events (find_events as_registered events) (on_registered T N C b n block_time)) (
     then_prog (for_events (find_events as_deregistered events) (on_status ''deregistered'')) (
     then_prog (for_events (find_events as_slashed events) (on_status ''slashed'')) (
     then_prog (for_events (find_events as_deactivated events) (on_status ''deactivated'')) (
     then_prog (for_events (find_events as_reactivated events) (on_status ''registered'')) (
     bind_prog (lift_result (collect_fees T (find_events as_storage_fee events) Map.empty)) (\<lambda>fees.
     then_prog (on_nominations T n block_time (find_events as_nominated events) fees) (
     then_prog (for_events (find_events as_withdrew events) (on_withdrew T N C b n block_time)) (
     then_prog (for_events (find_events as_unlocked events) (on_unlocked T n)) (
     then_prog (for_events (find_events as_staked_unlocked events) (on_staked_unlocked T N b n))
       (for_events (find_events as_epoch_completed events) (index_epoch_share_prices T N C b n block_time)))))))))))))"

definition index_staking_for_block :: "text_lib \<Rightarrow> chain_client \<Rightarrow> codec \<Rightarrow> u32 \<Rightarrow> unit db_op" where
  "index_staking_for_block T N C n =
     bind_prog (lift_result (map_err I_Subspace (block_ext_at_number (cl_node N) n))) (\<lambda>b.
     bind_prog (lift_result (block_time_of T N C b)) (\<lambda>block_time.
     bind_prog (lift_result (map_err I_Subspace (cl_events N (be_hash b)))) (\<lambda>events.
     index_staking_events T N C b n block_time events)))"

end
