(* ===== verification/Staking_Code.thy ===== *)
theory Staking_Code
  imports Staking Interleave
begin

section \<open>The statements of a block\<close>

text \<open>
  The handler of a block reads the chain and writes the database, but never reads what it
  writes: which statements it executes does not depend on the database. \<open>staking_stmt\<close> are
  these statements, \<open>exec_stmt\<close> executes one, and \<open>code_block\<close> shows that the handler is a
  fixed list of them, of a shape the proofs about counters and concurrent blocks rest on.
\<close>

subsection \<open>Statements\<close>

datatype staking_stmt =
    DeleteDeposits u32
  | DeleteWithdrawals u32
  | UpsertOperator upsert_operator_args
  | WriteNominator u64 string string u32
  | RefreshCount u64
  | UpdateStatus u64 string
  | UpdateStats u64 string u128 u128 u128 datetime
  | InsertDeposit u64 string u128 u128 u32 datetime
  | InsertWithdrawal insert_withdrawal_args
  | UpsertSharePrice upsert_share_price

primrec exec_stmt :: "text_lib \<Rightarrow> staking_stmt \<Rightarrow> unit db_op" where
  "exec_stmt T (DeleteDeposits n) = delete_deposits_for_block n"
| "exec_stmt T (DeleteWithdrawals n) = delete_withdrawals_for_block n"
| "exec_stmt T (UpsertOperator op) = upsert_operator op"
| "exec_stmt T (WriteNominator i a st n) = write_nominator i a st n"
| "exec_stmt T (RefreshCount i) = refresh_nominator_count i"
| "exec_stmt T (UpdateStatus i st) = update_operator_status i st"
| "exec_stmt T (UpdateStats i st x y z t) = update_operator_stats i st x y z t"
| "exec_stmt T (InsertDeposit i a x y n t) = insert_deposit i a x y n t"
| "exec_stmt T (InsertWithdrawal w) = insert_withdrawal w"
| "exec_stmt T (UpsertSharePrice p) = upsert_epoch_share_price T p"

lemmas stmt_defs = delete_deposits_for_block_def delete_withdrawals_for_block_def upsert_operator_def
  write_nominator_def refresh_nominator_count_eq update_operator_status_def update_operator_stats_def
  insert_deposit_def insert_withdrawal_def upsert_epoch_share_price_def

text \<open>The statement writes rows of the given height only.\<close>

fun of_block :: "u32 \<Rightarrow> staking_stmt \<Rightarrow> bool" where
  "of_block n (DeleteDeposits m) \<longleftrightarrow> m = n"
| "of_block n (DeleteWithdrawals m) \<longleftrightarrow> m = n"
| "of_block n (WriteNominator i a st m) \<longleftrightarrow> m = n"
| "of_block n (InsertDeposit i a x y m t) \<longleftrightarrow> m = n"
| "of_block n (InsertWithdrawal w) \<longleftrightarrow> iw_block_height w = n"
| "of_block n _ \<longleftrightarrow> True"

text \<open>Whether the counter of operator \<open>i\<close> has to be refreshed after a statement.\<close>

fun refresh_due :: "i64 \<Rightarrow> staking_stmt \<Rightarrow> bool \<Rightarrow> bool" where
  "refresh_due i (WriteNominator j a st n) due \<longleftrightarrow> due \<or> j = i"
| "refresh_due i (UpsertOperator op) due \<longleftrightarrow> due \<or> uo_operator_id op = i"
| "refresh_due i (RefreshCount j) due \<longleftrightarrow> due \<and> j \<noteq> i"
| "refresh_due i _ due \<longleftrightarrow> due"

definition staking_shape :: "u32 \<Rightarrow> staking_stmt list \<Rightarrow> bool" where
  "staking_shape n code \<longleftrightarrow> list_all (of_block n) code \<and> (\<forall>i. \<not> fold (refresh_due i) code False)"

interpretation staking_code: code_shape "exec_stmt T" "staking_shape n" for T n
  by unfold_locales (auto simp: staking_shape_def)

subsection \<open>The handler of a block is a list of statements\<close>

lemma code_stmt: "staking_shape n [c] \<Longrightarrow> has_code (exec_stmt T) (staking_shape n) (exec_stmt T c)"
  using staking_code.has_code_statements [of n "[c]" T] by simp

lemma code_upsert_nominator: "has_code (exec_stmt T) (staking_shape n) (upsert_nominator i a st n)"
  using staking_code.has_code_statements [of n "[WriteNominator i a st n, RefreshCount i]" T]
  by (simp add: staking_shape_def upsert_nominator_def)

lemma code_register:
  "has_code (exec_stmt T) (staking_shape n) (then_prog (upsert_operator op) (upsert_nominator (uo_operator_id op) a st n))"
  using staking_code.has_code_statements [of n "[UpsertOperator op, WriteNominator (uo_operator_id op) a st n, RefreshCount (uo_operator_id op)]" T]
  by (simp add: staking_shape_def upsert_nominator_def)

lemma code_single:
  "has_code (exec_stmt T) (staking_shape n) (delete_deposits_for_block n)"
  "has_code (exec_stmt T) (staking_shape n) (delete_withdrawals_for_block n)"
  "has_code (exec_stmt T) (staking_shape n) (update_operator_status i st)"
  "has_code (exec_stmt T) (staking_shape n) (update_operator_stats i st x y z t)"
  "has_code (exec_stmt T) (staking_shape n) (insert_deposit i a x y n t)"
  "has_code (exec_stmt T) (staking_shape n) (insert_withdrawal (withdrawal_args T n t e w))"
  "has_code (exec_stmt T) (staking_shape n) (upsert_epoch_share_price T p)"
  using code_stmt [of n "DeleteDeposits n" T] code_stmt [of n "DeleteWithdrawals n" T]
    code_stmt [of n "UpdateStatus i st" T] code_stmt [of n "UpdateStats i st x y z t" T]
    code_stmt [of n "InsertDeposit i a x y n t" T] code_stmt [of n "InsertWithdrawal (withdrawal_args T n t e w)" T]
    code_stmt [of n "UpsertSharePrice p" T]
  by (simp_all add: staking_shape_def withdrawal_args_def)

lemma code_for_events:
  "(\<And>e. has_code (exec_stmt T) (staking_shape n) (body e)) \<Longrightarrow>
    has_code (exec_stmt T) (staking_shape n) (for_events rs body)"
  unfolding for_events_def event_ok_def
  by (intro staking_code.has_code_for staking_code.has_code_bind staking_code.has_code_lift)

lemma code_read_or_skip:
  "(\<And>x. has_code (exec_stmt T) (staking_shape n) (body x)) \<Longrightarrow>
    has_code (exec_stmt T) (staking_shape n) (read_or_skip r body)"
  by (cases r) (auto simp: read_or_skip_def)

lemma code_on_registered: "has_code (exec_stmt T) (staking_shape n) (on_registered T N C b n t e)"
proof -
  have "has_code (exec_stmt T) (staking_shape n) (then_prog (upsert_operator op) (upsert_nominator (op_operator_id e) a st n))"
    if "uo_operator_id op = op_operator_id e" for op a st
    using code_register [of T n op a st] that by simp
  then show ?thesis unfolding on_registered_def by (intro code_read_or_skip) simp
qed

lemma code_on_nominations: "has_code (exec_stmt T) (staking_shape n) (on_nominations T n t rs fees)"
proof (induction rs arbitrary: fees)
  case Nil
  show ?case unfolding on_nominations.simps by (rule staking_code.has_code_ret)
next
  case (Cons r rs)
  show ?case
    unfolding on_nominations.simps event_ok_def Let_def
    by (intro staking_code.has_code_bind staking_code.has_code_lift)
      (auto split: prod.splits intro!: staking_code.has_code_then code_upsert_nominator code_single Cons)
qed

lemma code_operator_price:
  "has_code (exec_stmt T) (staking_shape n) (index_operator_share_price T N C b e n t i)"
proof -
  obtain d where d: "ec_domain_id e = DomainId d" by (cases "ec_domain_id e")
  have body: "has_code (exec_stmt T) (staking_shape n) (case price of None \<Rightarrow> ret () | Some raw \<Rightarrow> f raw)"
    if "\<And>raw. has_code (exec_stmt T) (staking_shape n) (f raw)" for price and f :: "u64 \<Rightarrow> unit db_op"
    using that by (cases price) auto
  show ?thesis
    unfolding index_operator_share_price_def d domain_id.case
    by (intro code_read_or_skip body staking_code.has_code_bind staking_code.has_code_lift
        staking_code.has_code_then code_single)
qed

lemma code_on_staked_unlocked: "has_code (exec_stmt T) (staking_shape n) (on_staked_unlocked T N b n e)"
  unfolding on_staked_unlocked_def
  by (auto simp: Let_def code_upsert_nominator split: result.splits)

lemma code_block: "has_code (exec_stmt T) (staking_shape n) (index_staking_for_block T N C n)"
  unfolding index_staking_for_block_def index_staking_events_def on_status_def [abs_def]
    on_unlocked_def [abs_def] on_withdrew_def [abs_def] index_epoch_share_prices_def [abs_def]
  by (intro staking_code.has_code_bind staking_code.has_code_lift staking_code.has_code_then code_single
      code_for_events code_on_registered code_on_nominations code_upsert_nominator
      code_on_staked_unlocked staking_code.has_code_for code_operator_price)

end
