(* ===== verification/Staking_Correct.thy ===== *)
theory Staking_Correct
  imports Staking_Code
begin

section \<open>What indexing the staking of a block writes\<close>

text \<open>
  The handler of a block is a sequence of stages. The locale \<open>ledger_relation\<close> collects the
  relations between database states that every stage keeps except those that write deposits
  and withdrawals: whatever it does to operators, nominators and share prices. With it the
  exact contents of the deposit and withdrawal tables after a block follow, and from these that
  indexing a block again changes nothing. The last part follows the counters of active
  nominators statement by statement.
\<close>

lemma keeps_write_row:
  assumes "transp R" and "\<And>s fs. R s (s\<lparr>db_faults := fs\<rparr>)" and "\<And>r s. row = Ok r \<Longrightarrow> R s (f r s)"
  shows "keeps R (write_row row f)"
proof -
  have "R s (f r (s\<lparr>db_faults := fs\<rparr>))" if "row = Ok r" for r s fs
    using transpD [OF assms(1,2) assms(3) [OF that]] .
  moreover have "R s (f r s)" if "row = Ok r" for r s using assms(3) [OF that] .
  moreover have "R s s" for s using assms(2) [of s "db_faults s"] by simp
  ultimately show ?thesis
    using assms(2) by (auto simp: keeps_def write_row_def execute_def
        split: list.splits option.splits result.splits)
qed

locale ledger_relation =
  fixes R :: "db \<Rightarrow> db \<Rightarrow> bool"
  assumes R_refl: "reflp R" and R_trans: "transp R"
    and R_faults: "R s (s\<lparr>db_faults := fs\<rparr>)"
    and R_operators: "R s (s\<lparr>db_operators := ops\<rparr>)"
    and R_nominators: "R s (s\<lparr>db_nominators := noms\<rparr>)"
    and R_prices: "R s (s\<lparr>db_share_prices := prices\<rparr>)"
begin

lemmas row_write = keeps_write_row [OF R_trans R_faults]

lemma upsert_operator_keeps: "keeps R (upsert_operator op)"
  unfolding upsert_operator_def by (rule row_write) (rule R_operators)

lemma update_operator_status_keeps: "keeps R (update_operator_status i st)"
  unfolding update_operator_status_def by (rule row_write) (rule R_operators)

lemma update_operator_stats_keeps: "keeps R (update_operator_stats i st x y z t)"
  unfolding update_operator_stats_def by (rule row_write) (auto intro: R_operators)

lemma upsert_nominator_keeps: "keeps R (upsert_nominator i a st n)"
  unfolding upsert_nominator_def write_nominator_def refresh_nominator_count_eq
  by (intro keeps_then [OF R_trans] row_write R_nominators R_operators)

lemma share_price_keeps: "keeps R (upsert_epoch_share_price T p)"
  unfolding upsert_epoch_share_price_def by (rule row_write) (rule R_prices)

lemma read_or_skip_keeps: "(\<And>x. keeps R (body x)) \<Longrightarrow> keeps R (read_or_skip r body)"
  by (cases r) (auto simp: read_or_skip_def R_refl)

lemma for_events_keeps: "(\<And>e. keeps R (body e)) \<Longrightarrow> keeps R (for_events rs body)"
  unfolding for_events_def event_ok_def
  by (intro keeps_for R_refl R_trans keeps_bind keeps_lift)

lemma on_registered_keeps: "keeps R (on_registered T N C b n t e)"
  unfolding on_registered_def
  by (intro read_or_skip_keeps keeps_then [OF R_trans] upsert_operator_keeps upsert_nominator_keeps)

lemma on_status_keeps: "keeps R (on_status st e)"
  unfolding on_status_def by (rule update_operator_status_keeps)

lemma on_unlocked_keeps: "keeps R (on_unlocked T n e)"
  unfolding on_unlocked_def by (rule upsert_nominator_keeps)

lemma on_staked_unlocked_keeps: "keeps R (on_staked_unlocked T N b n e)"
  unfolding on_staked_unlocked_def
  by (auto simp: Let_def R_refl upsert_nominator_keeps split: result.splits)

lemma operator_price_keeps: "keeps R (index_operator_share_price T N C b e n t i)"
proof -
  obtain d where d: "ec_domain_id e = DomainId d" by (cases "ec_domain_id e")
  have body: "keeps R (case price of None \<Rightarrow> ret () | Some raw \<Rightarrow> f raw)"
    if "\<And>raw. keeps R (f raw)" for price and f :: "u64 \<Rightarrow> unit db_op"
    using that by (cases price) (auto simp: R_refl)
  show ?thesis
    unfolding index_operator_share_price_def d domain_id.case
    by (intro read_or_skip_keeps body keeps_bind [OF R_trans] keeps_lift [OF R_refl] keeps_then [OF R_trans]
        share_price_keeps update_operator_stats_keeps)
qed

lemma epoch_prices_keeps: "keeps R (index_epoch_share_prices T N C b n t e)"
  unfolding index_epoch_share_prices_def
  by (intro keeps_bind [OF R_trans] keeps_lift [OF R_refl] keeps_for R_refl R_trans operator_price_keeps)

lemmas stages_keep = for_events_keeps [OF on_registered_keeps] for_events_keeps [OF on_status_keeps]
  for_events_keeps [OF on_unlocked_keeps] for_events_keeps [OF on_staked_unlocked_keeps]
  for_events_keeps [OF epoch_prices_keeps]

end

subsection \<open>The relations\<close>

definition same_deposits :: "db \<Rightarrow> db \<Rightarrow> bool" where
  "same_deposits s t \<longleftrightarrow> db_deposits t = db_deposits s"

definition same_withdrawals :: "db \<Rightarrow> db \<Rightarrow> bool" where
  "same_withdrawals s t \<longleftrightarrow> db_withdrawals t = db_withdrawals s"

definition same_other_rows :: "u32 \<Rightarrow> db \<Rightarrow> db \<Rightarrow> bool" where
  "same_other_rows n s t \<longleftrightarrow>
     delete_where (\<lambda>r. dr_block_height r = ucast n) (db_deposits t) =
       delete_where (\<lambda>r. dr_block_height r = ucast n) (db_deposits s) \<and>
     delete_where (\<lambda>r. wr_block_height r = ucast n) (db_withdrawals t) =
       delete_where (\<lambda>r. wr_block_height r = ucast n) (db_withdrawals s) \<and>
     db_metadata t = db_metadata s \<and> db_xdm_transfers t = db_xdm_transfers s"

interpretation deposits: ledger_relation same_deposits
  by unfold_locales (auto simp: same_deposits_def reflp_def transp_def)

interpretation withdrawals: ledger_relation same_withdrawals
  by unfold_locales (auto simp: same_withdrawals_def reflp_def transp_def)

lemma stmt_other: "of_block n c \<Longrightarrow> keeps (same_other_rows n) (exec_stmt T c)"
  by (cases c) (auto simp: stmt_defs same_other_rows_def transp_def delete_where_append delete_where_def
      intro!: keeps_write_row)

lemma block_keeps_other: "keeps (same_other_rows n) (index_staking_for_block T N C n)"
  by (rule has_code_keeps [OF code_block])
    (auto simp: same_other_rows_def reflp_def transp_def staking_shape_def list_all_iff intro: stmt_other)

text \<open>
  Indexing the staking of a block, successful or not, leaves every deposit and withdrawal row of
  all other blocks exactly as it was, and never touches checkpoints or transfers.
\<close>

theorem other_blocks_untouched:
  "same_other_rows n s (snd (index_staking_for_block T N C n s))"
  by (rule keepsD [OF block_keeps_other])

subsection \<open>The deposits and withdrawals of a block\<close>

text \<open>The rows the events of a block stand for, written without a database.\<close>

primrec deposit_rows :: "text_lib \<Rightarrow> u32 \<Rightarrow> datetime \<Rightarrow> operator_nominated list \<Rightarrow> fees \<Rightarrow> deposit_rec list" where
  "deposit_rows T n t [] fees = []"
| "deposit_rows T n t (e # es) fees =
     (let a = tl_ss58 T (on_nominator_id e); (fee, fees') = take_fee fees (on_operator_id e, a) in
      \<lparr>dr_operator_id = on_operator_id e, dr_address = a, dr_amount = unat (on_amount e),
        dr_storage_fee = unat fee, dr_block_height = ucast n, dr_block_time = t\<rparr>
      # deposit_rows T n t es fees')"

definition withdrawal_row_of ::
  "text_lib \<Rightarrow> u32 \<Rightarrow> datetime \<Rightarrow> nominator_event \<Rightarrow> nominator_withdrawal \<Rightarrow> withdrawal_rec" where
  "withdrawal_row_of T n t e w = \<lparr>wr_operator_id = ne_operator_id e, wr_address = tl_ss58 T (ne_nominator_id e),
     wr_shares = unat (nw_shares w), wr_amount = unat (nw_amount w),
     wr_storage_fee_refund = unat (nw_storage_fee_refund w), wr_block_height = ucast n, wr_block_time = t\<rparr>"

lemma then_prog_OkE:
  assumes "then_prog m k s = (Ok y, s'')"
  obtains x s' where "m s = (Ok x, s')" "k s' = (Ok y, s'')"
  using assms by (auto simp: then_prog_def bind_prog_Ok_iff)

lemma keeps_Ok: "keeps R m \<Longrightarrow> m s = (Ok x, s') \<Longrightarrow> R s s'"
  by (metis keepsD snd_conv)

lemma lift_map_err_Ok: "lift_result (map_err f r) s = (Ok x, s') \<longleftrightarrow> r = Ok x \<and> s' = s"
  by auto

lemma insert_deposit_rows:
  "insert_deposit i a x f n t s = (Ok (), s') \<Longrightarrow> db_deposits s' = db_deposits s @
     [\<lparr>dr_operator_id = i, dr_address = a, dr_amount = unat x, dr_storage_fee = unat f,
       dr_block_height = ucast n, dr_block_time = t\<rparr>]"
  by (auto simp: insert_deposit_def dest!: write_row_Ok)

lemma on_nominations_rows:
  assumes "on_nominations T n t rs fees s = (Ok (), s')"
  shows "\<exists>es. rs = map Ok es \<and> db_deposits s' = db_deposits s @ deposit_rows T n t es fees"
  using assms
proof (induction rs arbitrary: fees s)
  case Nil
  then show ?case by simp
next
  case (Cons r rs)
  from Cons.prems obtain e where r: "r = Ok e"
    by (auto simp: event_ok_def bind_prog_Ok_iff)
  let ?a = "tl_ss58 T (on_nominator_id e)"
  obtain fee fees' where take: "take_fee fees (on_operator_id e, ?a) = (fee, fees')" by fastforce
  from Cons.prems r take have "then_prog (upsert_nominator (on_operator_id e) ?a ''active'' n)
      (then_prog (insert_deposit (on_operator_id e) ?a (on_amount e) fee n t)
        (on_nominations T n t rs fees')) s = (Ok (), s')"
    by (simp add: event_ok_def bind_prog_def Let_def)
  then obtain s1 s2 where "upsert_nominator (on_operator_id e) ?a ''active'' n s = (Ok (), s1)"
    and ins: "insert_deposit (on_operator_id e) ?a (on_amount e) fee n t s1 = (Ok (), s2)"
    and rest: "on_nominations T n t rs fees' s2 = (Ok (), s')"
    by (elim then_prog_OkE) (simp add: old.unit.exhaust)
  then have "db_deposits s1 = db_deposits s"
    using keeps_Ok [OF deposits.upsert_nominator_keeps] by (simp add: same_deposits_def)
  moreover obtain es where "rs = map Ok es" "db_deposits s' = db_deposits s2 @ deposit_rows T n t es fees'"
    using Cons.IH [OF rest] by blast
  ultimately show ?case
    using insert_deposit_rows [OF ins] take r by (intro exI [of _ "e # es"]) (simp add: Let_def)
qed

lemma collect_fees_Ok:
  "collect_fees T rs fees = Ok fees' \<Longrightarrow> \<exists>es. rs = map Ok es \<and> fees' = foldl (push_fee T) fees es"
proof (induction rs arbitrary: fees)
  case Nil
  then show ?case by simp
next
  case (Cons r rs)
  then obtain e where "r = Ok e" "collect_fees T rs (push_fee T fees e) = Ok fees'" by auto
  with Cons.IH [of "push_fee T fees e"] obtain es where "rs = map Ok es" "fees' = foldl (push_fee T) (push_fee T fees e) es"
    by blast
  with \<open>r = Ok e\<close> show ?case by (intro exI [of _ "e # es"]) simp
qed

lemma insert_withdrawal_rows:
  "insert_withdrawal (withdrawal_args T n t e w) s = (Ok (), s') \<Longrightarrow>
     db_withdrawals s' = db_withdrawals s @ [withdrawal_row_of T n t e w]"
  by (auto simp: insert_withdrawal_def withdrawal_args_def withdrawal_row_of_def dest!: write_row_Ok)

lemma on_withdrew_rows:
  assumes "for_events rs (on_withdrew T N C b n t) s = (Ok (), s')"
  shows "\<exists>es ws. rs = map Ok es \<and> map (read_withdrawal N C b) es = map Ok ws \<and>
    db_withdrawals s' = db_withdrawals s @ map2 (withdrawal_row_of T n t) es ws"
  using assms
proof (induction rs arbitrary: s)
  case Nil
  then show ?case by (simp add: for_events_def)
next
  case (Cons r rs)
  from Cons.prems obtain s1 where first: "event_ok r (on_withdrew T N C b n t) s = (Ok (), s1)"
    and rest: "for_events rs (on_withdrew T N C b n t) s1 = (Ok (), s')"
    unfolding for_events_def for_prog.simps by (elim then_prog_OkE) (simp add: old.unit.exhaust)
  from first obtain e w where e: "r = Ok e" "read_withdrawal N C b e = Ok w"
    "insert_withdrawal (withdrawal_args T n t e w) s = (Ok (), s1)"
    by (auto simp: event_ok_def on_withdrew_def bind_prog_Ok_iff)
  obtain es ws where "rs = map Ok es" "map (read_withdrawal N C b) es = map Ok ws"
    "db_withdrawals s' = db_withdrawals s1 @ map2 (withdrawal_row_of T n t) es ws"
    using Cons.IH [OF rest] by blast
  with e insert_withdrawal_rows [OF e(3)] show ?case
    by (intro exI [of _ "e # es"] exI [of _ "w # ws"]) simp
qed

lemma bind_lift_OkE:
  assumes "bind_prog (lift_result r) f s = (Ok y, s')"
  obtains x where "r = Ok x" "f x s = (Ok y, s')"
  using assms by (auto simp: bind_prog_Ok_iff)

text \<open>The states between the stages of a successful run that matter for the two tables.\<close>

lemma staking_stages:
  assumes "index_staking_events T N C b n t events s = (Ok (), s')"
  obtains s1 s2 s3 fees s4 s5 where
    "delete_deposits_for_block n s = (Ok (), s1)" "delete_withdrawals_for_block n s1 = (Ok (), s2)"
    "same_deposits s2 s3" "same_withdrawals s2 s3"
    "collect_fees T (find_events as_storage_fee events) Map.empty = Ok fees"
    "on_nominations T n t (find_events as_nominated events) fees s3 = (Ok (), s4)"
    "for_events (find_events as_withdrew events) (on_withdrew T N C b n t) s4 = (Ok (), s5)"
    "same_deposits s5 s'" "same_withdrawals s5 s'"
proof -
  from assms obtain s1 s2 r1 r2 r3 r4 s3 fees s4 s5 u1 u2 where
    st: "delete_deposits_for_block n s = (Ok (), s1)" "delete_withdrawals_for_block n s1 = (Ok (), s2)"
    "for_events (find_events as_registered events) (on_registered T N C b n t) s2 = (Ok (), r1)"
    "for_events (find_events as_deregistered events) (on_status ''deregistered'') r1 = (Ok (), r2)"
    "for_events (find_events as_slashed events) (on_status ''slashed'') r2 = (Ok (), r3)"
    "for_events (find_events as_deactivated events) (on_status ''deactivated'') r3 = (Ok (), r4)"
    "for_events (find_events as_reactivated events) (on_status ''registered'') r4 = (Ok (), s3)"
    "collect_fees T (find_events as_storage_fee events) Map.empty = Ok fees"
    "on_nominations T n t (find_events as_nominated events) fees s3 = (Ok (), s4)"
    "for_events (find_events as_withdrew events) (on_withdrew T N C b n t) s4 = (Ok (), s5)"
    "for_events (find_events as_unlocked events) (on_unlocked T n) s5 = (Ok (), u1)"
    "for_events (find_events as_staked_unlocked events) (on_staked_unlocked T N b n) u1 = (Ok (), u2)"
    "for_events (find_events as_epoch_completed events) (index_epoch_share_prices T N C b n t) u2 = (Ok (), s')"
    unfolding index_staking_events_def
    by (elim then_prog_OkE bind_lift_OkE) (simp add: old.unit.exhaust)
  note d = keeps_Ok [OF deposits.stages_keep(1)] keeps_Ok [OF deposits.stages_keep(2)]
    keeps_Ok [OF deposits.stages_keep(3)] keeps_Ok [OF deposits.stages_keep(4)]
    keeps_Ok [OF deposits.stages_keep(5)]
  note w = keeps_Ok [OF withdrawals.stages_keep(1)] keeps_Ok [OF withdrawals.stages_keep(2)]
    keeps_Ok [OF withdrawals.stages_keep(3)] keeps_Ok [OF withdrawals.stages_keep(4)]
    keeps_Ok [OF withdrawals.stages_keep(5)]
  have "same_deposits s2 s3"
    using d(1) [OF st(3)] d(2) [OF st(4)] d(2) [OF st(5)] d(2) [OF st(6)] d(2) [OF st(7)]
    by (simp add: same_deposits_def)
  moreover have "same_withdrawals s2 s3"
    using w(1) [OF st(3)] w(2) [OF st(4)] w(2) [OF st(5)] w(2) [OF st(6)] w(2) [OF st(7)]
    by (simp add: same_withdrawals_def)
  moreover have "same_deposits s5 s'"
    using d(3) [OF st(11)] d(4) [OF st(12)] d(5) [OF st(13)] by (simp add: same_deposits_def)
  moreover have "same_withdrawals s5 s'"
    using w(3) [OF st(11)] w(4) [OF st(12)] w(5) [OF st(13)] by (simp add: same_withdrawals_def)
  ultimately show ?thesis using st(1,2,8,9,10) by (intro that)
qed

lemma on_nominations_withdrawals: "keeps same_withdrawals (on_nominations T n t rs fees)"
proof (induction rs arbitrary: fees)
  case Nil
  show ?case unfolding on_nominations.simps by (rule keeps_ret [OF withdrawals.R_refl])
next
  case (Cons r rs)
  have "keeps same_withdrawals (insert_deposit i a x y n t)" for i a x y
    unfolding insert_deposit_def
    by (rule withdrawals.row_write) (auto simp: same_withdrawals_def)
  then show ?case
    unfolding on_nominations.simps event_ok_def Let_def
    by (intro keeps_bind [OF withdrawals.R_trans] keeps_lift [OF withdrawals.R_refl])
      (auto split: prod.splits intro!: keeps_then [OF withdrawals.R_trans]
        withdrawals.upsert_nominator_keeps Cons)
qed

lemma on_withdrew_deposits: "keeps same_deposits (on_withdrew T N C b n t e)"
  unfolding on_withdrew_def insert_withdrawal_def
  by (intro keeps_bind [OF deposits.R_trans] keeps_lift [OF deposits.R_refl] deposits.row_write)
    (auto simp: same_deposits_def)

lemma staking_tables:
  assumes "index_staking_events T N C b n t events s = (Ok (), s')"
  shows "\<exists>fs es ws vs. find_events as_storage_fee events = map Ok fs \<and>
    find_events as_nominated events = map Ok es \<and> find_events as_withdrew events = map Ok ws \<and>
    map (read_withdrawal N C b) ws = map Ok vs \<and>
    db_deposits s' = delete_where (\<lambda>r. dr_block_height r = ucast n) (db_deposits s) @
      deposit_rows T n t es (foldl (push_fee T) Map.empty fs) \<and>
    db_withdrawals s' = delete_where (\<lambda>r. wr_block_height r = ucast n) (db_withdrawals s) @
      map2 (withdrawal_row_of T n t) ws vs"
proof -
  from staking_stages [OF assms] obtain s1 s2 s3 fees s4 s5 where
    st: "delete_deposits_for_block n s = (Ok (), s1)" "delete_withdrawals_for_block n s1 = (Ok (), s2)"
    "same_deposits s2 s3" "same_withdrawals s2 s3"
    "collect_fees T (find_events as_storage_fee events) Map.empty = Ok fees"
    "on_nominations T n t (find_events as_nominated events) fees s3 = (Ok (), s4)"
    "for_events (find_events as_withdrew events) (on_withdrew T N C b n t) s4 = (Ok (), s5)"
    "same_deposits s5 s'" "same_withdrawals s5 s'" .
  have "db_deposits s2 = delete_where (\<lambda>r. dr_block_height r = ucast n) (db_deposits s)"
    "db_withdrawals s2 = delete_where (\<lambda>r. wr_block_height r = ucast n) (db_withdrawals s)"
    using write_row_Ok [OF st(1) [unfolded delete_deposits_for_block_def]]
      write_row_Ok [OF st(2) [unfolded delete_withdrawals_for_block_def]] by auto
  moreover have "db_withdrawals s4 = db_withdrawals s3"
    using keeps_Ok [OF on_nominations_withdrawals st(6)] by (simp add: same_withdrawals_def)
  moreover have "db_deposits s5 = db_deposits s4"
    using keeps_Ok [OF deposits.for_events_keeps [OF on_withdrew_deposits] st(7)]
    by (simp add: same_deposits_def)
  moreover obtain fs where "find_events as_storage_fee events = map Ok fs" "fees = foldl (push_fee T) Map.empty fs"
    using collect_fees_Ok [OF st(5)] by blast
  moreover obtain es where "find_events as_nominated events = map Ok es"
    "db_deposits s4 = db_deposits s3 @ deposit_rows T n t es fees"
    using on_nominations_rows [OF st(6)] by blast
  moreover obtain ws vs where "find_events as_withdrew events = map Ok ws"
    "map (read_withdrawal N C b) ws = map Ok vs"
    "db_withdrawals s5 = db_withdrawals s4 @ map2 (withdrawal_row_of T n t) ws vs"
    using on_withdrew_rows [OF st(7)] by blast
  ultimately show ?thesis
    using st(3,4,8,9) unfolding same_deposits_def same_withdrawals_def by auto
qed

lemma staking_block:
  assumes "index_staking_for_block T N C n s = (Ok (), s')"
  obtains b t events where "block_ext_at_number (cl_node N) n = Ok b" "block_time_of T N C b = Ok t"
    "cl_events N (be_hash b) = Ok events" "index_staking_events T N C b n t events s = (Ok (), s')"
proof -
  from assms show ?thesis
    unfolding index_staking_for_block_def by (elim bind_lift_OkE) (auto intro: that)
qed

lemma map_Ok_inj: "map Ok xs = map Ok ys \<longleftrightarrow> xs = ys"
  by (simp add: inj_map_eq_map inj_def)

lemma staking_rows:
  assumes "index_staking_for_block T N C n s = (Ok (), s')"
    and "block_ext_at_number (cl_node N) n = Ok b" and "block_time_of T N C b = Ok t"
    and "cl_events N (be_hash b) = Ok events"
    and "find_events as_nominated events = map Ok es" and "find_events as_withdrew events = map Ok ws"
  obtains fs vs where "map (read_withdrawal N C b) ws = map Ok vs"
    "db_deposits s' = filter (\<lambda>r. dr_block_height r \<noteq> ucast n) (db_deposits s) @
        deposit_rows T n t es (foldl (push_fee T) Map.empty fs)"
    "db_withdrawals s' = filter (\<lambda>r. wr_block_height r \<noteq> ucast n) (db_withdrawals s) @
        map2 (withdrawal_row_of T n t) ws vs"
proof -
  have "index_staking_events T N C b n t events s = (Ok (), s')"
    by (rule staking_block [OF assms(1)]) (use assms(2-4) in simp)
  from staking_tables [OF this, unfolded delete_where_def assms(5,6) map_Ok_inj] show ?thesis
    by (elim exE conjE) (rule that, simp_all)
qed

lemma deposit_rows_of_nominator:
  "map (\<lambda>r. (dr_amount r, dr_block_height r, dr_block_time r))
      (filter (\<lambda>r. dr_address r = a \<and> dr_operator_id r = i) (deposit_rows T n t es fees)) =
    map (\<lambda>e. (unat (on_amount e), ucast n, t)) (filter (\<lambda>e. tl_ss58 T (on_nominator_id e) = a \<and> on_operator_id e = i) es)"
  by (induction es arbitrary: fees) (simp_all add: Let_def split: prod.splits)

lemma withdrawal_rows_of_nominator:
  "filter (\<lambda>r. wr_address r = a \<and> wr_operator_id r = i) (map2 (withdrawal_row_of T n t) ws vs) =
    map (\<lambda>(e, w). withdrawal_row_of T n t e w)
      (filter (\<lambda>x. tl_ss58 T (ne_nominator_id (fst x)) = a \<and> ne_operator_id (fst x) = i) (zip ws vs))"
  by (simp add: filter_map o_def split_def withdrawal_row_of_def)


lemma deposit_rows_time: "\<forall>r \<in> set (deposit_rows T n t es fees). dr_block_time r = t"
  by (induction es arbitrary: fees) (auto simp: Let_def split: prod.splits)

lemma withdrawals_of_nominator_read:
  assumes "map f ws = map Ok vs"
  shows "map fst (filter (\<lambda>x. P (fst x)) (zip ws vs)) = filter P ws"
    and "map f (filter P ws) = map Ok (map snd (filter (\<lambda>x. P (fst x)) (zip ws vs)))"
proof -
  have len: "length ws = length vs" using assms by (rule map_eq_imp_length_eq)
  then show "map fst (filter (\<lambda>x. P (fst x)) (zip ws vs)) = filter P ws"
    by (induction ws vs rule: list_induct2) simp_all
  from len assms show "map f (filter P ws) = map Ok (map snd (filter (\<lambda>x. P (fst x)) (zip ws vs)))"
    by (induction ws vs rule: list_induct2) simp_all
qed

text \<open>
  C9: after a successful run the deposits are those of other blocks followed by exactly one row per
  nomination of this block, in order, and the withdrawals are those of other blocks
  followed by exactly one row per withdrawal event, with the shares, amount and refund
  read from the chain.
\<close>

theorem block_ledger_exact:
  assumes "index_staking_for_block T N C n s = (Ok (), s')"
  shows "\<exists>b t events fs es ws vs. block_ext_at_number (cl_node N) n = Ok b \<and>
    block_time_of T N C b = Ok t \<and> cl_events N (be_hash b) = Ok events \<and>
    find_events as_storage_fee events = map Ok fs \<and>
    find_events as_nominated events = map Ok es \<and> find_events as_withdrew events = map Ok ws \<and>
    map (read_withdrawal N C b) ws = map Ok vs \<and>
    db_deposits s' = filter (\<lambda>r. dr_block_height r \<noteq> ucast n) (db_deposits s) @
      deposit_rows T n t es (foldl (push_fee T) Map.empty fs) \<and>
    db_withdrawals s' = filter (\<lambda>r. wr_block_height r \<noteq> ucast n) (db_withdrawals s) @
      map2 (withdrawal_row_of T n t) ws vs"
proof -
  from staking_block [OF assms] obtain b t events where
    b: "block_ext_at_number (cl_node N) n = Ok b" "block_time_of T N C b = Ok t"
    "cl_events N (be_hash b) = Ok events" "index_staking_events T N C b n t events s = (Ok (), s')" .
  from staking_tables [OF b(4), unfolded delete_where_def] b(1-3) show ?thesis by blast
qed

definition ex_nomination :: "u128 \<Rightarrow> event_details" where
  "ex_nomination x = Ed_OperatorNominated (Ok \<lparr>on_operator_id = 1, on_nominator_id = 7, on_amount = x\<rparr>)"

definition ex_fee :: "u128 \<Rightarrow> event_details" where
  "ex_fee x = Ed_StorageFeeDeposited (Ok \<lparr>sf_operator_id = 1, sf_nominator_id = 7, sf_amount = x\<rparr>)"

definition ex_staking_client :: chain_client where
  "ex_staking_client = \<lparr>
     cl_node = \<lparr>rpc_block_hash = (\<lambda>_. Ok (Some 80)), rpc_header = (\<lambda>_. Ok (Some
       \<lparr>hd_parent_hash = 70, hd_number = 8, hd_state_root = 0, hd_extrinsics_root = 0, hd_digest = []\<rparr>))\<rparr>,
     cl_fetch = (\<lambda>_ _ _ _. Ok (Some [9, 0, 0, 0, 0, 0, 0, 0])), cl_iter = (\<lambda>_ _ _. Ok []),
     cl_value = (\<lambda>_ _. Ok None),
     cl_events = (\<lambda>_. Ok [Ok (ex_fee 4), Ok (ex_nomination 50), Ok (ex_nomination 60)]),
     cl_decode_events = (\<lambda>_. []), cl_constant = (\<lambda>_ _. Ok 2), cl_twox_128 = (\<lambda>_. []),
     cl_encode_u32 = (\<lambda>n. [ucast n]), cl_system_chain = Ok ''mainnet'',
     cl_system_properties = Ok (\<lambda>_. None)\<rparr>"

lemma ex_scale_u64: "dec_u64 scale [9, 0, 0, 0, 0, 0, 0, 0] = Ok (9, [])"
  by (simp add: scale_def dec_word_def dec_bind_def dec_return_def dec_le_def)

lemmas ex_staking_defs = index_staking_for_block_def block_ext_at_number_def block_ext_at_hash_def
      ex_staking_client_def block_time_of_def timestamp_def read_storage_def try_read_storage_def
      decode_value_def ex_scale_u64 plain_text_def index_staking_events_def find_events_def ex_fee_def
      ex_nomination_def List.map_filter_simps for_events_def delete_deposits_for_block_def
      delete_withdrawals_for_block_def then_prog_def bind_prog_def event_ok_def push_fee_def take_fee_def
      upsert_nominator_def write_nominator_def refresh_nominator_count_eq insert_deposit_def Let_def

lemma ex_staking_runs:
  assumes "db_faults s = []"
  shows "\<exists>s'. index_staking_for_block plain_text ex_staking_client scale n s = (Ok (), s') \<and> db_faults s' = []"
  using assms
  by (simp add: ex_staking_defs)

theorem block_ledger_exact_witness:
  "\<exists>s'. index_staking_for_block plain_text ex_staking_client scale 8 empty_db = (Ok (), s') \<and>
     map dr_amount (db_deposits s') = [50, 60] \<and> map dr_storage_fee (db_deposits s') = [4, 0]"
proof -
  have "db_faults empty_db = []" by (simp add: empty_db_def)
  from ex_staking_runs [OF this] obtain s' where
    run: "index_staking_for_block plain_text ex_staking_client scale 8 empty_db = (Ok (), s')" by blast
  have "find_events as_storage_fee events = [Ok \<lparr>sf_operator_id = 1, sf_nominator_id = 7, sf_amount = 4\<rparr>]"
    "find_events as_nominated events = [Ok \<lparr>on_operator_id = 1, on_nominator_id = 7, on_amount = 50\<rparr>,
       Ok \<lparr>on_operator_id = 1, on_nominator_id = 7, on_amount = 60\<rparr>]"
    if "cl_events ex_staking_client h = Ok events" for h events
    using that by (auto simp: ex_staking_client_def find_events_def ex_fee_def ex_nomination_def
        List.map_filter_simps)
  with block_ledger_exact [OF run] run show ?thesis
    by (auto simp: empty_db_def Cons_eq_map_conv push_fee_def take_fee_def Let_def)
qed

lemma deposit_rows_height: "r \<in> set (deposit_rows T n t es fees) \<Longrightarrow> dr_block_height r = ucast n"
  by (induction es arbitrary: fees) (auto simp: Let_def split: prod.splits)

lemma withdrawal_rows_height:
  "r \<in> set (map2 (withdrawal_row_of T n t) ws vs) \<Longrightarrow> wr_block_height r = ucast n"
  by (auto simp: withdrawal_row_of_def)

lemma delete_then_append:
  "(\<And>r. r \<in> set ys \<Longrightarrow> P r) \<Longrightarrow> delete_where P (delete_where P xs @ ys) @ ys = delete_where P xs @ ys"
  by (auto simp: delete_where_def filter_empty_conv)

text \<open>
  C11: indexing the same block a second time leaves the deposit and withdrawal tables exactly as the
  first run left them: no row is lost, duplicated or reordered.
\<close>

theorem reindexing_idempotent:
  assumes "index_staking_for_block T N C n s = (Ok (), s1)"
    and "index_staking_for_block T N C n s1 = (Ok (), s2)"
  shows "db_deposits s2 = db_deposits s1 \<and> db_withdrawals s2 = db_withdrawals s1"
proof -
  from staking_block [OF assms(1)] obtain b t events where
    b: "block_ext_at_number (cl_node N) n = Ok b" "block_time_of T N C b = Ok t"
    "cl_events N (be_hash b) = Ok events" and r1: "index_staking_events T N C b n t events s = (Ok (), s1)" .
  have r2: "index_staking_events T N C b n t events s1 = (Ok (), s2)"
    by (rule staking_block [OF assms(2)]) (use b in simp)
  from staking_tables [OF r1] obtain fs es ws vs where
    t1: "find_events as_storage_fee events = map Ok fs" "find_events as_nominated events = map Ok es"
    "find_events as_withdrew events = map Ok ws" "map (read_withdrawal N C b) ws = map Ok vs"
    "db_deposits s1 = delete_where (\<lambda>r. dr_block_height r = ucast n) (db_deposits s) @
      deposit_rows T n t es (foldl (push_fee T) Map.empty fs)"
    "db_withdrawals s1 = delete_where (\<lambda>r. wr_block_height r = ucast n) (db_withdrawals s) @
      map2 (withdrawal_row_of T n t) ws vs"
    by blast
  from staking_tables [OF r2] obtain fs' es' ws' vs' where
    t2: "find_events as_storage_fee events = map Ok fs'" "find_events as_nominated events = map Ok es'"
    "find_events as_withdrew events = map Ok ws'" "map (read_withdrawal N C b) ws' = map Ok vs'"
    "db_deposits s2 = delete_where (\<lambda>r. dr_block_height r = ucast n) (db_deposits s1) @
      deposit_rows T n t es' (foldl (push_fee T) Map.empty fs')"
    "db_withdrawals s2 = delete_where (\<lambda>r. wr_block_height r = ucast n) (db_withdrawals s1) @
      map2 (withdrawal_row_of T n t) ws' vs'"
    by blast
  have "fs' = fs" "es' = es" and ws: "ws' = ws" using t1(1-3) t2(1-3) by simp_all
  moreover have "vs' = vs" using t1(4) t2(4) ws by simp
  ultimately have "db_deposits s2 = delete_where (\<lambda>r. dr_block_height r = ucast n) (db_deposits s1) @
      deposit_rows T n t es (foldl (push_fee T) Map.empty fs)"
    and "db_withdrawals s2 = delete_where (\<lambda>r. wr_block_height r = ucast n) (db_withdrawals s1) @
      map2 (withdrawal_row_of T n t) ws vs"
    using t2(5,6) by simp_all
  then show ?thesis
    unfolding t1(5,6)
    by (simp only: delete_then_append [OF deposit_rows_height] delete_then_append [OF withdrawal_rows_height])
qed

theorem reindexing_idempotent_witness:
  "\<exists>s1 s2. index_staking_for_block plain_text ex_staking_client scale 8 empty_db = (Ok (), s1) \<and>
     index_staking_for_block plain_text ex_staking_client scale 8 s1 = (Ok (), s2) \<and>
     db_deposits s2 = db_deposits s1"
proof -
  have "db_faults empty_db = []" by (simp add: empty_db_def)
  from ex_staking_runs [OF this] obtain s1 where
    r1: "index_staking_for_block plain_text ex_staking_client scale 8 empty_db = (Ok (), s1)" "db_faults s1 = []"
    by blast
  from ex_staking_runs [OF r1(2)] obtain s2 where
    r2: "index_staking_for_block plain_text ex_staking_client scale 8 s1 = (Ok (), s2)" by blast
  from reindexing_idempotent [OF r1(1) r2] r1(1) r2 show ?thesis by blast
qed

subsection \<open>Storage fees\<close>

definition fee_key :: "text_lib \<Rightarrow> operator_nominated \<Rightarrow> u64 \<times> string" where
  "fee_key T e = (on_operator_id e, tl_ss58 T (on_nominator_id e))"

definition fees_of :: "text_lib \<Rightarrow> storage_fee_deposited list \<Rightarrow> u64 \<times> string \<Rightarrow> u128 list" where
  "fees_of T fs k = map sf_amount (filter (\<lambda>f. (sf_operator_id f, tl_ss58 T (sf_nominator_id f)) = k) fs)"

definition fee_list :: "fees \<Rightarrow> u64 \<times> string \<Rightarrow> u128 list" where
  "fee_list fees k = (case fees k of None \<Rightarrow> [] | Some xs \<Rightarrow> xs)"

lemma fee_list_push:
  "fee_list (push_fee T fees f) k = fee_list fees k @
     (if (sf_operator_id f, tl_ss58 T (sf_nominator_id f)) = k then [sf_amount f] else [])"
  by (auto simp: fee_list_def push_fee_def Let_def)

lemma fee_list_foldl: "fee_list (foldl (push_fee T) fees fs) k = fee_list fees k @ fees_of T fs k"
  by (induction fs arbitrary: fees) (auto simp: fees_of_def fee_list_push)

lemma fee_list_empty [simp]: "fee_list (\<lambda>x. None) k = []"
  by (simp add: fee_list_def)

lemma take_fee_value:
  "take_fee fees k = (fee, fees') \<Longrightarrow> fee = (if fee_list fees k = [] then 0 else hd (fee_list fees k))"
  by (auto simp: take_fee_def fee_list_def split: option.splits list.splits)

lemma take_fee_rest:
  "take_fee fees k = (fee, fees') \<Longrightarrow>
     fee_list fees' k' = (if k' = k then tl (fee_list fees k) else fee_list fees k')"
  by (auto simp: take_fee_def fee_list_def split: option.splits list.splits if_splits)

lemma nominations_succeed:
  "db_faults s = [] \<Longrightarrow> \<exists>s'. on_nominations T n t (map Ok es) fees s = (Ok (), s')"
proof (induction es arbitrary: fees s)
  case Nil
  then show ?case by simp
next
  case (Cons e es)
  obtain fee fees' where "take_fee fees (on_operator_id e, tl_ss58 T (on_nominator_id e)) = (fee, fees')"
    by fastforce
  then show ?case
    using Cons by (simp add: event_ok_def bind_prog_def then_prog_def upsert_nominator_def
        write_nominator_def refresh_nominator_count_eq insert_deposit_def Let_def)
qed

lemma deposit_rows_nth:
  assumes "i < length es"
  shows "dr_storage_fee (deposit_rows T n t es fees ! i) =
    (let k = fee_key T (es ! i); j = length (filter (\<lambda>e. fee_key T e = k) (take i es))
     in if j < length (fee_list fees k) then unat (fee_list fees k ! j) else 0)"
  using assms
proof (induction es arbitrary: i fees)
  case Nil
  then show ?case by simp
next
  case (Cons e es)
  obtain fee fees' where take: "take_fee fees (fee_key T e) = (fee, fees')" by fastforce
  have rows: "deposit_rows T n t (e # es) fees =
      \<lparr>dr_operator_id = on_operator_id e, dr_address = tl_ss58 T (on_nominator_id e),
        dr_amount = unat (on_amount e), dr_storage_fee = unat fee, dr_block_height = ucast n,
        dr_block_time = t\<rparr> # deposit_rows T n t es fees'"
    using take by (simp add: fee_key_def Let_def)
  show ?case
  proof (cases i)
    case 0
    then show ?thesis
      unfolding rows using take_fee_value [OF take] by (simp add: Let_def hd_conv_nth)
  next
    case (Suc j)
    let ?k = "fee_key T (es ! j)" and ?m = "length (filter (\<lambda>e. fee_key T e = fee_key T (es ! j)) (take j es))"
    have "dr_storage_fee (deposit_rows T n t es fees' ! j) =
        (if ?m < length (fee_list fees' ?k) then unat (fee_list fees' ?k ! ?m) else 0)"
      using Cons.IH [of j fees'] Cons.prems Suc by (simp add: Let_def)
    moreover have "fee_list fees' ?k = (if ?k = fee_key T e then tl (fee_list fees (fee_key T e)) else fee_list fees ?k)"
      by (rule take_fee_rest [OF take])
    ultimately show ?thesis
      unfolding rows using Suc by (auto simp: Let_def nth_tl)
  qed
qed

text \<open>
  C10: storage fees are matched with nominations one by one: the \<open>j\<close>-th nomination of an operator by
  a nominator within a block is stored with the \<open>j\<close>-th storage fee of the same operator and
  nominator in that block, and with zero when there is none.
\<close>

theorem storage_fees_matched:
  assumes "collect_fees T (map Ok fs) Map.empty = Ok fees"
    and "on_nominations T n t (map Ok es) fees s = (Ok (), s')" and "i < length es"
  shows "dr_storage_fee (db_deposits s' ! (length (db_deposits s) + i)) =
    (let k = fee_key T (es ! i); j = length (filter (\<lambda>e. fee_key T e = k) (take i es))
     in if j < length (fees_of T fs k) then unat (fees_of T fs k ! j) else 0)"
proof -
  from collect_fees_Ok [OF assms(1)] have fees: "fees = foldl (push_fee T) Map.empty fs"
    by (auto dest: map_injective)
  from on_nominations_rows [OF assms(2)] have "db_deposits s' = db_deposits s @ deposit_rows T n t es fees"
    by (auto dest: map_injective)
  then have "dr_storage_fee (db_deposits s' ! (length (db_deposits s) + i)) =
      dr_storage_fee (deposit_rows T n t es fees ! i)"
    by simp
  also have "\<dots> = (let k = fee_key T (es ! i); j = length (filter (\<lambda>e. fee_key T e = k) (take i es))
     in if j < length (fees_of T fs k) then unat (fees_of T fs k ! j) else 0)"
    unfolding deposit_rows_nth [OF assms(3)] fees fee_list_foldl by (simp add: Let_def)
  finally show ?thesis .
qed

definition ex_nominated :: "u128 \<Rightarrow> operator_nominated" where
  "ex_nominated x = \<lparr>on_operator_id = 1, on_nominator_id = 7, on_amount = x\<rparr>"

lemma ex_no_faults: "db_faults empty_db = []"
  by (simp add: empty_db_def)

theorem storage_fees_matched_witness:
  "\<exists>fees s'. collect_fees plain_text (map Ok [\<lparr>sf_operator_id = 1, sf_nominator_id = 7, sf_amount = 4\<rparr>,
       \<lparr>sf_operator_id = 1, sf_nominator_id = 7, sf_amount = 5\<rparr>]) Map.empty = Ok fees \<and>
     on_nominations plain_text 8 9 (map Ok [ex_nominated 50, ex_nominated 60]) fees empty_db = (Ok (), s') \<and>
     dr_storage_fee (db_deposits s' ! 1) = 5"
proof -
  let ?fs = "[\<lparr>sf_operator_id = 1, sf_nominator_id = 7, sf_amount = 4\<rparr>, \<lparr>sf_operator_id = 1, sf_nominator_id = 7, sf_amount = 5\<rparr>]"
  obtain fees where fees: "collect_fees plain_text (map Ok ?fs) Map.empty = Ok fees" by simp
  obtain s' where run: "on_nominations plain_text 8 9 (map Ok [ex_nominated 50, ex_nominated 60]) fees empty_db = (Ok (), s')"
    using nominations_succeed [OF ex_no_faults] by blast
  have "dr_storage_fee (db_deposits s' ! (length (db_deposits empty_db) + 1)) = 5"
    by (subst storage_fees_matched [OF fees run]) (simp_all add: fee_key_def fees_of_def Let_def ex_nominated_def)
  then have "dr_storage_fee (db_deposits s' ! 1) = 5" by (simp add: empty_db_def)
  with fees run show ?thesis by blast
qed

subsection \<open>Counters of active nominators\<close>

definition counts_except :: "i64 set \<Rightarrow> db \<Rightarrow> bool" where
  "counts_except X s \<longleftrightarrow> (\<forall>r \<in> set (db_operators s). or_operator_id r \<in> X \<or>
     or_nominator_count r = active_count (or_operator_id r) (db_nominators s))"

abbreviation counts_ok :: "db \<Rightarrow> bool" where
  "counts_ok \<equiv> counts_except {}"

lemma counts_faults [simp]: "counts_except X (s\<lparr>db_faults := fs\<rparr>) = counts_except X s"
  by (simp add: counts_except_def)

lemmas counts_write = preserves_ok [OF preserves_write_row [where I = "counts_except X"]] for X

lemma active_count_upsert_other:
  "nr_operator_id row \<noteq> j \<Longrightarrow>
     active_count j (upsert nominator_key merge_nominator row rows) = active_count j rows"
proof -
  assume "nr_operator_id row \<noteq> j"
  then have "length (filter (\<lambda>r. nr_operator_id r = j \<and> nr_status r = ''active'')
        (upsert nominator_key merge_nominator row rows)) =
      length (filter (\<lambda>r. nr_operator_id r = j \<and> nr_status r = ''active'') rows)"
    by (induction rows) (auto simp: nominator_key_def merge_nominator_def)
  then show ?thesis by (simp add: active_count_def)
qed

lemma upsert_operator_row:
  assumes "upsert_operator op s = (Ok (), s')"
  shows "\<exists>r. or_operator_id r = uo_operator_id op \<and>
    db_operators s' = upsert or_operator_id merge_operator r (db_operators s) \<and> db_nominators s' = db_nominators s"
  using write_row_Ok [OF assms [unfolded upsert_operator_def]]
  by (elim exE conjE) (rule exI, auto simp: bind_result_Ok_iff)

lemma counts_same:
  assumes "counts_except X s" and "db_nominators s' = db_nominators s"
    and "map (\<lambda>r. (or_operator_id r, or_nominator_count r)) (db_operators s') =
      map (\<lambda>r. (or_operator_id r, or_nominator_count r)) (db_operators s)"
  shows "counts_except X s'"
proof -
  have pairs: "counts_except X u \<longleftrightarrow> (\<forall>(i, c) \<in> set (map (\<lambda>r. (or_operator_id r, or_nominator_count r)) (db_operators u)).
      i \<in> X \<or> c = active_count i (db_nominators u))" for u
    by (auto simp: counts_except_def)
  show ?thesis using assms unfolding pairs by simp
qed

lemma counts_other:
  "ok_preserves (counts_except X) (delete_deposits_for_block n)"
  "ok_preserves (counts_except X) (delete_withdrawals_for_block n)"
  "ok_preserves (counts_except X) (update_operator_status i st)"
  "ok_preserves (counts_except X) (update_operator_stats i st u v w t)"
  "ok_preserves (counts_except X) (insert_deposit i a u v n t)"
  "ok_preserves (counts_except X) (insert_withdrawal wa)"
  "ok_preserves (counts_except X) (upsert_epoch_share_price T p)"
  unfolding stmt_defs
  by (rule counts_write, simp, erule counts_same; auto simp: update_where_def)+

lemma counts_stmt:
  assumes "exec_stmt T c s = (Ok (), s')" and "counts_except X s"
  shows "counts_except {i. refresh_due i c (i \<in> X)} s'"
proof (cases c)
  case (WriteNominator j a st n)
  with assms(1) have "db_operators s' = db_operators s" "db_nominators s' = upsert nominator_key merge_nominator
      \<lparr>nr_operator_id = j, nr_address = a, nr_status = st, nr_block_height = ucast n\<rparr> (db_nominators s)"
    by (auto simp: write_nominator_def dest!: write_row_Ok)
  then have "db_operators s' = db_operators s"
    "i \<noteq> j \<Longrightarrow> active_count i (db_nominators s') = active_count i (db_nominators s)" for i
    by (simp_all add: active_count_upsert_other)
  then show ?thesis using assms(2) WriteNominator by (auto simp: counts_except_def) metis
next
  case (UpsertOperator op)
  with assms(1) obtain r where r: "or_operator_id r = uo_operator_id op"
    "db_operators s' = upsert or_operator_id merge_operator r (db_operators s)" "db_nominators s' = db_nominators s"
    using upsert_operator_row [of op s s'] by auto
  have "set (upsert or_operator_id merge_operator r rows) \<subseteq>
      {x. or_operator_id x = uo_operator_id op} \<union> set rows" for rows
    by (induction rows) (auto simp: merge_operator_def r(1))
  then have "or_operator_id x = uo_operator_id op \<or> x \<in> set (db_operators s)" if "x \<in> set (db_operators s')" for x
    using that unfolding r(2) by blast
  then show ?thesis using assms(2) UpsertOperator r(3) by (auto simp: counts_except_def) metis
next
  case (RefreshCount j)
  with assms(1) have "db_operators s' = update_where (\<lambda>r. or_operator_id r = j)
      (\<lambda>r. r\<lparr>or_nominator_count := active_count j (db_nominators s)\<rparr>) (db_operators s)"
    "db_nominators s' = db_nominators s"
    by (auto simp: refresh_nominator_count_eq dest!: write_row_Ok)
  then show ?thesis using assms(2) RefreshCount by (auto simp: counts_except_def update_where_def)
qed (use assms in \<open>simp_all add: ok_preservesD [OF counts_other(1)] ok_preservesD [OF counts_other(2)]
    ok_preservesD [OF counts_other(3)] ok_preservesD [OF counts_other(4)] ok_preservesD [OF counts_other(5)]
    ok_preservesD [OF counts_other(6)] ok_preservesD [OF counts_other(7)]\<close>)

lemma counts_history:
  assumes "for_prog h (\<lambda>x. exec_stmt T (f x)) s = (Ok (), s')" and "counts_except X s"
  shows "counts_except {i. fold (\<lambda>x. refresh_due i (f x)) h (i \<in> X)} s'"
  using assms
proof (induction h arbitrary: s X)
  case (Cons x h)
  then obtain s1 where "exec_stmt T (f x) s = (Ok (), s1)" "for_prog h (\<lambda>x. exec_stmt T (f x)) s1 = (Ok (), s')"
    by (auto simp: then_prog_def bind_prog_Ok_iff)
  with Cons.IH counts_stmt [OF _ Cons.prems(2)] show ?case by fastforce
qed simp

text \<open>
  C12: the counters shown by the API stay exact: if every operator's counter equals the number of its
  active nominators before a block is indexed, it does so after the block was indexed with
  success, also for operators the block registers after nominators were recorded for them.
\<close>

theorem nominator_counts_stay_exact:
  assumes "index_staking_for_block T N C n s = (Ok (), s')" and "counts_ok s"
  shows "counts_ok s'"
proof -
  from code_block [of T n N C] obtain code r where
    code: "straight_line (exec_stmt T) code r (index_staking_for_block T N C n)" "staking_shape n code"
    by (auto simp: has_code_def)
  from counts_history [where f = "\<lambda>c. c", OF straight_line_Ok [OF code(1) assms(1)] assms(2)] code(2)
  show ?thesis by (simp add: staking_shape_def)
qed

theorem nominator_counts_stay_exact_witness:
  "\<exists>s'. index_staking_for_block plain_text ex_staking_client scale 8 (empty_db\<lparr>db_operators := [ex_op 1, ex_op 2]\<rparr>) = (Ok (), s') \<and>
     counts_ok s'"
proof -
  let ?s = "empty_db\<lparr>db_operators := [ex_op 1, ex_op 2]\<rparr>"
  have h: "db_faults ?s = []" "counts_ok ?s"
    by (simp_all add: empty_db_def counts_except_def ex_op_def active_count_def)
  from ex_staking_runs [OF h(1)] obtain s' where
    "index_staking_for_block plain_text ex_staking_client scale 8 ?s = (Ok (), s')" by blast
  from nominator_counts_stay_exact [OF this h(2)] this show ?thesis by blast
qed

end
