(* ===== verification/Api.thy ===== *)
theory Api
  imports Staking_Correct
begin

section \<open>The HTTP interface of the indexer\<close>

text \<open>
  The handlers of \<open>indexer/src/api.rs\<close> and the conversions of rows to responses. A handler is
  an operation on the database that returns the value serialised as JSON, or the error whose
  status and body \<open>respond\<close> gives. The deserialised path and query string are its arguments:
  a field with a serde default is an option. The order in which the database returns rows
  with equal sort keys is the parameter \<open>scan\<close> of the query a handler makes.
\<close>

definition MAX_RECENT_TRANSFERS :: u64 where
  "MAX_RECENT_TRANSFERS = 10"

definition MAX_SHARE_PRICE_LIMIT :: i64 where
  "MAX_SHARE_PRICE_LIMIT = 50"

definition MAX_TX_HISTORY_LIMIT :: i64 where
  "MAX_TX_HISTORY_LIMIT = 50"

text \<open>\<open>Ord::clamp\<close> and \<open>Ord::max\<close> on signed 64-bit integers.\<close>

definition clamp_i64 :: "i64 \<Rightarrow> i64 \<Rightarrow> i64 \<Rightarrow> i64" where
  "clamp_i64 x lo hi = (if sint x < sint lo then lo else if sint hi < sint x then hi else x)"

definition max_i64 :: "i64 \<Rightarrow> i64 \<Rightarrow> i64" where
  "max_i64 x y = (if sint y < sint x then x else y)"

datatype 'a response = Json 'a | Failure nat string | Aborted string

primrec respond :: "('a, indexer_error) result \<Rightarrow> 'a response" where
  "respond (Ok x) = Json x"
| "respond (Err e) = Failure (fst (error_response e)) (snd (error_response e))"
| "respond (Panic p) = Aborted p"

subsection \<open>Health\<close>

record health =
  consensus_processed_block_number :: u32
  auto_evm_processed_block_number :: u32
  staking_processed_block_number :: u32

text \<open>
  The three reads of \<open>try_join!\<close> run concurrently and only read: they are made one after the
  other, and the first error ends them.
\<close>

definition health_check :: "health db_op" where
  "health_check =
     bind_prog (get_last_processed_block (get_xdm_processor_key Consensus)) (\<lambda>cn.
     bind_prog (get_last_processed_block (get_xdm_processor_key (Domain (DomainId 0)))) (\<lambda>aen.
     bind_prog (get_last_processed_block CHECKPOINT_KEY) (\<lambda>staking.
     ret \<lparr>consensus_processed_block_number = cn, auto_evm_processed_block_number = aen,
       staking_processed_block_number = staking\<rparr>)))"

subsection \<open>Transfers\<close>

record block_details =
  bd_block_number :: u32
  bd_block_hash :: string
  bd_block_time :: datetime

fun maybe_block_details :: "i64 option \<times> string option \<times> datetime option \<Rightarrow> block_details option" where
  "maybe_block_details (Some n, Some h, Some t) =
     Some \<lparr>bd_block_number = ucast n, bd_block_hash = h, bd_block_time = t\<rparr>"
| "maybe_block_details _ = None"

record xdm_transfer =
  xa_src_chain :: string
  xa_dst_chain :: string
  xa_channel_id :: string
  xa_nonce :: string
  xa_sender :: "string option"
  xa_receiver :: "string option"
  xa_amount :: "string option"
  xa_initiated_src_block :: "block_details option"
  xa_executed_dst_block :: "block_details option"
  xa_acknowledged_src_block :: "block_details option"
  xa_transfer_successful :: "bool option"

definition xdm_transfer_of :: "text_lib \<Rightarrow> string \<Rightarrow> xdm_transfer_row \<Rightarrow> (xdm_transfer, indexer_error) result" where
  "xdm_transfer_of T decimal_scale r = bind_result
     (case xq_amount r of None \<Rightarrow> Ok None
      | Some a \<Rightarrow> map_ok (\<lambda>d. Some (tl_decimal_div T d decimal_scale)) (expect (tl_decimal T a) ''invalid decimal''))
     (\<lambda>amount. Ok \<lparr>xa_src_chain = xq_src_chain r, xa_dst_chain = xq_dst_chain r,
       xa_channel_id = xq_channel_id r, xa_nonce = xq_nonce r, xa_sender = xq_sender r,
       xa_receiver = xq_receiver r, xa_amount = amount,
       xa_initiated_src_block = maybe_block_details (xq_initiated r),
       xa_executed_dst_block = maybe_block_details (xq_executed r),
       xa_acknowledged_src_block = maybe_block_details (xq_acknowledged r),
       xa_transfer_successful = xq_successful r\<rparr>)"

definition xdm_address_transfers ::
  "text_lib \<Rightarrow> (xdm_rec list \<Rightarrow> xdm_rec list) \<Rightarrow> string \<Rightarrow> string \<Rightarrow> xdm_transfer list db_op" where
  "xdm_address_transfers T scan decimal_scale address =
     bind_prog (get_xdm_transfer_for_address scan address) (\<lambda>rows.
     lift_result (try_collect (map (xdm_transfer_of T decimal_scale) rows)))"

definition recent_xdm_transfers ::
  "text_lib \<Rightarrow> (xdm_rec list \<Rightarrow> xdm_rec list) \<Rightarrow> string \<Rightarrow> u64 option \<Rightarrow> xdm_transfer list db_op" where
  "recent_xdm_transfers T scan decimal_scale query_limit =
     (let lim = (case query_limit of None \<Rightarrow> MAX_RECENT_TRANSFERS | Some l \<Rightarrow> l);
          lim = (if MAX_RECENT_TRANSFERS < lim then MAX_RECENT_TRANSFERS else lim)
      in bind_prog (get_recent_xdm_transfers scan lim) (\<lambda>rows.
         lift_result (try_collect (map (xdm_transfer_of T decimal_scale) rows))))"

subsection \<open>Operators\<close>

record operator_response =
  oa_id :: string
  oa_domain_id :: string
  oa_owner_account :: string
  oa_signing_key :: string
  oa_minimum_nominator_stake :: string
  oa_nomination_tax :: u8
  oa_total_stake :: string
  oa_total_shares :: string
  oa_total_storage_fee_deposit :: string
  oa_status :: string
  oa_nominator_count :: i64

definition map_operator_row :: "operator_row \<Rightarrow> operator_response" where
  "map_operator_row r = \<lparr>oa_id = oq_operator_id r, oa_domain_id = oq_domain_id r,
     oa_owner_account = oq_owner_account r, oa_signing_key = oq_signing_key r,
     oa_minimum_nominator_stake = oq_minimum_nominator_stake r,
     oa_nomination_tax = ucast (oq_nomination_tax r), oa_total_stake = oq_total_stake r,
     oa_total_shares = oq_total_shares r,
     oa_total_storage_fee_deposit = oq_total_storage_fee_deposit r, oa_status = oq_status r,
     oa_nominator_count = oq_nominator_count r\<rparr>"

definition get_all_operators_handler :: "operator_response list db_op" where
  "get_all_operators_handler = bind_prog get_all_operators (\<lambda>rows. ret (map map_operator_row rows))"

definition get_operator_handler :: "i64 \<Rightarrow> operator_response db_op" where
  "get_operator_handler operator_id = bind_prog (get_operator operator_id) (\<lambda>row. case row of
     Some r \<Rightarrow> ret (map_operator_row r)
   | None \<Rightarrow> lift_result (Err (I_NotFound (''Operator '' @ show_int (sint operator_id) @ '' not found''))))"

subsection \<open>Share prices\<close>

record share_prices_query =
  sq_limit :: "i64 option"
  sq_since :: "datetime option"
  sq_until :: "datetime option"

record share_price_response =
  sa_operator_id :: string
  sa_domain_id :: string
  sa_epoch_index :: i64
  sa_share_price :: string
  sa_total_stake :: string
  sa_total_shares :: string
  sa_block_height :: string
  sa_timestamp :: datetime

definition share_price_response_of :: "share_price_row \<Rightarrow> share_price_response" where
  "share_price_response_of r = \<lparr>sa_operator_id = sq_operator_id r, sa_domain_id = sq_domain_id r,
     sa_epoch_index = sq_epoch_index r, sa_share_price = sq_share_price r,
     sa_total_stake = sq_total_stake r, sa_total_shares = sq_total_shares r,
     sa_block_height = sq_block_height r, sa_timestamp = sq_block_time r\<rparr>"

definition operator_share_prices ::
  "price_scan \<Rightarrow> i64 \<Rightarrow> share_prices_query \<Rightarrow> share_price_response list db_op" where
  "operator_share_prices scan operator_id q =
     (let lim = clamp_i64 (case sq_limit q of None \<Rightarrow> MAX_SHARE_PRICE_LIMIT | Some l \<Rightarrow> l) 1 MAX_SHARE_PRICE_LIMIT
      in bind_prog (case (sq_since q, sq_until q) of
           (Some since, _) \<Rightarrow> get_share_prices_since scan operator_id since lim
         | (None, Some til) \<Rightarrow> get_share_prices_until scan operator_id til lim
         | (None, None) \<Rightarrow> get_share_prices_latest scan operator_id lim)
       (\<lambda>rows. ret (map share_price_response_of rows)))"

subsection \<open>Nominators\<close>

record nominator_count_response =
  nc_operator_id :: i64
  nc_active_count :: i64

definition operator_nominator_count :: "i64 \<Rightarrow> nominator_count_response db_op" where
  "operator_nominator_count operator_id = bind_prog (get_active_nominator_count operator_id)
     (\<lambda>n. ret \<lparr>nc_operator_id = operator_id, nc_active_count = n\<rparr>)"

definition nominator_operator_ids ::
  "(nominator_rec list \<Rightarrow> nominator_rec list) \<Rightarrow> string \<Rightarrow> string list db_op" where
  "nominator_operator_ids scan address = get_nominator_operator_ids scan address"

subsection \<open>Deposits and withdrawals\<close>

record tx_history_query =
  tq_address :: string
  tq_limit :: "i64 option"
  tq_offset :: "i64 option"

definition history_limit :: "tx_history_query \<Rightarrow> i64" where
  "history_limit q = clamp_i64 (case tq_limit q of None \<Rightarrow> MAX_TX_HISTORY_LIMIT | Some l \<Rightarrow> l) 1 MAX_TX_HISTORY_LIMIT"

definition history_offset :: "tx_history_query \<Rightarrow> i64" where
  "history_offset q = max_i64 (case tq_offset q of None \<Rightarrow> 0 | Some x \<Rightarrow> x) 0"

record deposit_response =
  da_operator_id :: string
  da_address :: string
  da_amount :: string
  da_storage_fee :: string
  da_block_height :: i64
  da_timestamp :: datetime

definition deposit_response_of :: "deposit_row \<Rightarrow> deposit_response" where
  "deposit_response_of r = \<lparr>da_operator_id = dq_operator_id r, da_address = dq_address r,
     da_amount = dq_amount r, da_storage_fee = dq_storage_fee r, da_block_height = dq_block_height r,
     da_timestamp = dq_block_time r\<rparr>"

definition operator_deposits ::
  "(deposit_rec list \<Rightarrow> deposit_rec list) \<Rightarrow> i64 \<Rightarrow> tx_history_query \<Rightarrow> deposit_response list db_op" where
  "operator_deposits scan operator_id q =
     bind_prog (get_deposits scan (tq_address q) operator_id (history_limit q) (history_offset q))
       (\<lambda>rows. ret (map deposit_response_of rows))"

record withdrawal_response =
  wa_operator_id :: string
  wa_address :: string
  wa_shares :: string
  wa_amount :: string
  wa_storage_fee_refund :: string
  wa_block_height :: i64
  wa_timestamp :: datetime

definition withdrawal_response_of :: "withdrawal_row \<Rightarrow> withdrawal_response" where
  "withdrawal_response_of r = \<lparr>wa_operator_id = wq_operator_id r, wa_address = wq_address r,
     wa_shares = wq_shares r, wa_amount = wq_amount r,
     wa_storage_fee_refund = wq_storage_fee_refund r, wa_block_height = wq_block_height r,
     wa_timestamp = wq_block_time r\<rparr>"

definition operator_withdrawals ::
  "(withdrawal_rec list \<Rightarrow> withdrawal_rec list) \<Rightarrow> i64 \<Rightarrow> tx_history_query \<Rightarrow> withdrawal_response list db_op" where
  "operator_withdrawals scan operator_id q =
     bind_prog (get_withdrawals scan (tq_address q) operator_id (history_limit q) (history_offset q))
       (\<lambda>rows. ret (map withdrawal_response_of rows))"

end
