(* ===== verification/Api_Correct.thy ===== *)
theory Api_Correct
  imports Api
begin

section \<open>What the API answers\<close>

text \<open>
  The answers of the handlers: bounded and ordered pages that together hold every row, the
  data of a registered operator, the checkpoints, and the errors. The contract of the two
  history handlers is the locale \<open>history\<close>, interpreted on deposits and withdrawals.
\<close>

subsection \<open>Limits and offsets\<close>

lemma sint_of_nat_i64: "n < 2 ^ 63 \<Longrightarrow> sint (of_nat n :: i64) = int n"
  by (simp add: signed_of_nat signed_take_bit_int_eq_self)

lemma clamp_i64_bounds:
  "sint lo \<le> sint hi \<Longrightarrow> sint lo \<le> sint (clamp_i64 x lo hi) \<and> sint (clamp_i64 x lo hi) \<le> sint hi"
  by (auto simp: clamp_i64_def)

lemma history_limit_bounds: "1 \<le> sint (history_limit q) \<and> sint (history_limit q) \<le> 50"
  using clamp_i64_bounds [of 1 50] by (simp add: history_limit_def MAX_TX_HISTORY_LIMIT_def)

lemma history_offset_nonneg: "0 \<le> sint (history_offset q)"
  by (auto simp: history_offset_def max_i64_def)

lemma history_limit_of_nat:
  "1 \<le> l \<Longrightarrow> l \<le> 50 \<Longrightarrow> sint (history_limit \<lparr>tq_address = a, tq_limit = Some (of_nat l), tq_offset = x\<rparr>) = int l"
  using sint_of_nat_i64 [of l] by (simp add: history_limit_def clamp_i64_def MAX_TX_HISTORY_LIMIT_def)

lemma history_offset_of_nat:
  "k < 2 ^ 63 \<Longrightarrow> sint (history_offset \<lparr>tq_address = a, tq_limit = x, tq_offset = Some (of_nat k)\<rparr>) = int k"
  using sint_of_nat_i64 [of k] by (simp add: history_offset_def max_i64_def)

lemma limit_rows_Ok:
  "0 \<le> sint l \<Longrightarrow> 0 \<le> sint off \<Longrightarrow>
     limit_rows l off rows = Ok (take (nat (sint l)) (drop (nat (sint off)) rows))"
  by (simp add: limit_rows_def limit_offset_def)

lemma order_by_desc_perm:
  assumes "mset xs = mset ys" and "distinct (map f ys)"
  shows "order_by_desc f xs = order_by_desc f ys"
proof -
  have "inj_on f (set (rev xs))"
    using assms by (metis distinct_map mset_eq_setD set_rev)
  then have "sort_key f (rev xs) = sort_key f (rev ys)"
    using assms(1) by (intro sort_key_inj_key_eq) simp_all
  then show ?thesis by (simp add: order_by_desc_def)
qed

lemma scan_filter_mset: "scan_law scan \<Longrightarrow> mset (filter P (scan rows)) = mset (filter P rows)"
  by (simp add: scan_law_def)

subsection \<open>Histories\<close>

lemma newest_prefix:
  fixes f :: "'a \<Rightarrow> 'b :: linorder"
  assumes "sorted_wrt (\<ge>) (map f ys)" and "\<And>y. y \<in> set ys \<Longrightarrow> f y \<le> t"
  shows "take (length (filter (\<lambda>y. f y = t) ys)) ys = filter (\<lambda>y. f y = t) ys"
  using assms
proof (induction ys)
  case (Cons y ys)
  show ?case
  proof (cases "f y = t")
    case False
    with Cons.prems have "f y < t" by (auto simp: order_less_le)
    with Cons.prems(1) have "filter (\<lambda>y. f y = t) ys = []" by (auto simp: filter_empty_conv)
    with False show ?thesis by simp
  qed (use Cons in auto)
qed simp

lemma mset_order_by_desc [simp]: "mset (order_by_desc f xs) = mset xs"
  by (simp add: order_by_desc_def)

lemma newest_row_first:
  assumes "scan_law scan" and "unique_key key rows" and "lookup key k rows = Some r" and "hit r" and "time r = t"
    and "\<And>x. x \<in> set rows \<Longrightarrow> hit x \<Longrightarrow> key x \<noteq> k \<Longrightarrow> time x < t"
  shows "\<exists>rest. order_by_desc time (filter hit (scan rows)) = r # rest"
proof -
  let ?ys = "order_by_desc time (filter hit (scan rows))"
  have later: "time x = t \<longleftrightarrow> key x = k" if "x \<in> set rows" "hit x" for x
    using assms(2,3,5,6) that lookup_unique [OF assms(2) that(1)] by (metis less_irrefl option.inject)
  have "mset (filter (\<lambda>x. time x = t) ?ys) = mset (filter (\<lambda>x. time x = t) (filter hit rows))"
    by (metis mset_filter mset_order_by_desc scan_filter_mset [OF assms(1)])
  also have "filter (\<lambda>x. time x = t) (filter hit rows) = filter hit (filter (\<lambda>x. key x = k) rows)"
    using later by (auto simp: filter_filter intro!: filter_cong)
  also have "\<dots> = [r]" by (simp add: filter_unique_key [OF assms(2,3)] assms(4))
  finally have one: "filter (\<lambda>x. time x = t) ?ys = [r]" by (simp only: mset_single_iff mset.simps)
  have "time x \<le> t" if "x \<in> set ?ys" for x
  proof -
    from that have "x \<in> set rows" "hit x" by (simp_all add: scan_law_set [OF assms(1)])
    with later [of x] assms(6) [of x] show ?thesis by (cases "key x = k") auto
  qed
  then have "take (length (filter (\<lambda>x. time x = t) ?ys)) ?ys = filter (\<lambda>x. time x = t) ?ys"
    by (rule newest_prefix [OF sorted_order_by_desc])
  then have "take 1 ?ys = [r]" by (simp add: one)
  then show ?thesis by (cases ?ys) auto
qed

locale history =
  fixes rows :: "db \<Rightarrow> 'r list" and hit :: "string \<Rightarrow> 'r \<Rightarrow> bool" and time :: "'r \<Rightarrow> datetime"
    and resp :: "'r \<Rightarrow> 'a" and handler :: "('r list \<Rightarrow> 'r list) \<Rightarrow> tx_history_query \<Rightarrow> 'a list db_op"
  assumes handler_rows: "db_faults s = [] \<Longrightarrow> handler scan q s =
    (Ok (map resp (take (nat (sint (history_limit q))) (drop (nat (sint (history_offset q)))
      (order_by_desc time (filter (hit (tq_address q)) (scan (rows s))))))), s)"
begin

lemma page_bounded:
  assumes "db_faults s = []" and "scan_law scan"
  shows "\<exists>rs. handler scan q s = (Ok (map resp rs), s) \<and> length rs \<le> 50 \<and>
    set rs \<subseteq> {r \<in> set (rows s). hit (tq_address q) r} \<and> sorted_wrt (\<ge>) (map time rs)"
proof (intro exI conjI)
  let ?all = "order_by_desc time (filter (hit (tq_address q)) (scan (rows s)))"
  let ?rs = "take (nat (sint (history_limit q))) (drop (nat (sint (history_offset q))) ?all)"
  show "handler scan q s = (Ok (map resp ?rs), s)" by (rule handler_rows [OF assms(1)])
  show "length ?rs \<le> 50" using history_limit_bounds [of q] by (auto simp: min_le_iff_disj)
  have "set ?rs \<subseteq> set ?all" by (meson set_drop_subset set_take_subset subset_trans)
  then show "set ?rs \<subseteq> {r \<in> set (rows s). hit (tq_address q) r}"
    by (simp add: scan_law_set [OF assms(2)])
  show "sorted_wrt (\<ge>) (map time ?rs)"
    using sorted_order_by_desc [of time "filter (hit (tq_address q)) (scan (rows s))"]
    by (simp add: take_map [symmetric] drop_map [symmetric] sorted_wrt_take sorted_wrt_drop)
qed

lemma pages_complete:
  assumes "db_faults s = []" and "\<And>k. scan_law (scan k)" and "distinct (map time (filter (hit a) (rows s)))"
    and "1 \<le> l" and "l \<le> 50" and "n * l < 2 ^ 63"
  shows "\<exists>page. (\<forall>k \<in> {..<n}. fst (handler (scan k) \<lparr>tq_address = a, tq_limit = Some (of_nat l),
      tq_offset = Some (of_nat (k * l))\<rparr> s) = Ok (page k)) \<and>
    concat (map page [0..<n]) = map resp (take (n * l) (order_by_desc time (filter (hit a) (rows s))))"
proof (intro exI conjI ballI)
  let ?all = "order_by_desc time (filter (hit a) (rows s))"
  let ?page = "\<lambda>k. take l (drop (k * l) (map resp ?all))"
  fix k assume "k \<in> {..<n}"
  then have "k * l < 2 ^ 63" using assms(6) by (meson lessThan_iff less_imp_le_nat le_less_trans mult_le_mono1)
  moreover have "order_by_desc time (filter (hit a) (scan k (rows s))) = ?all"
    by (rule order_by_desc_perm [OF scan_filter_mset [OF assms(2)] assms(3)])
  ultimately show "fst (handler (scan k) \<lparr>tq_address = a, tq_limit = Some (of_nat l),
      tq_offset = Some (of_nat (k * l))\<rparr> s) = Ok (?page k)"
    unfolding handler_rows [OF assms(1)]
    using history_limit_of_nat [OF assms(4,5)] history_offset_of_nat [of "k * l"]
    by (simp add: take_map drop_map del: of_nat_mult)
next
  let ?all = "order_by_desc time (filter (hit a) (rows s))"
  show "concat (map (\<lambda>k. take l (drop (k * l) (map resp ?all))) [0..<n]) = map resp (take (n * l) ?all)"
    by (subst concat_full_chunks [where n = l and xs = "map resp ?all"]) (simp_all add: take_map)
qed

lemma newest_first:
  assumes "db_faults s = []" and "scan_law scan" and "rows s = old @ new"
    and "\<forall>r \<in> set old. time r < t" and "\<forall>r \<in> set new. time r = t"
    and "length (filter (hit a) new) \<le> 50"
  shows "\<exists>page. handler scan \<lparr>tq_address = a, tq_limit = None, tq_offset = None\<rparr> s = (Ok page, s) \<and>
    mset (take (length (filter (hit a) new)) page) = mset (map resp (filter (hit a) new))"
proof -
  let ?all = "order_by_desc time (filter (hit a) (scan (rows s)))"
  have all: "mset ?all = mset (filter (hit a) (old @ new))"
    using scan_filter_mset [OF assms(2)] assms(3) by simp
  have "filter (\<lambda>r. time r = t) (filter (hit a) old) = []" 
    using assms(4) by (fastforce simp: filter_empty_conv)
  moreover have "filter (\<lambda>r. time r = t) (filter (hit a) new) = filter (hit a) new"
    by (rule filter_True) (simp add: assms(5))
  ultimately have newest: "mset (filter (\<lambda>r. time r = t) ?all) = mset (filter (hit a) new)"
    by (metis (no_types) all append_Nil filter_append mset_filter)
  have "time r \<le> t" if "r \<in> set ?all" for r
    using that assms(4,5) mset_eq_setD [OF all] by (fastforce intro: less_imp_le)
  then have "take (length (filter (\<lambda>r. time r = t) ?all)) ?all = filter (\<lambda>r. time r = t) ?all"
    by (rule newest_prefix [OF sorted_order_by_desc])
  then have "mset (take (length (filter (hit a) new)) ?all) = mset (filter (hit a) new)"
    using newest by (metis mset_eq_length)
  moreover have "history_limit \<lparr>tq_address = a, tq_limit = None, tq_offset = None\<rparr> = 50"
    "history_offset \<lparr>tq_address = a, tq_limit = None, tq_offset = None\<rparr> = 0"
    by (simp_all add: history_limit_def history_offset_def clamp_i64_def max_i64_def MAX_TX_HISTORY_LIMIT_def)
  ultimately show ?thesis
    using assms(6) by (simp add: handler_rows [OF assms(1)] take_map min_absorb1)
qed

end

lemma history_query_rows:
  "db_faults s = [] \<Longrightarrow> bind_prog (query (\<lambda>s. map_ok (map f) (limit_rows (history_limit q) (history_offset q) (xs s))))
     (\<lambda>rows. ret (map g rows)) s =
   (Ok (map (g \<circ> f) (take (nat (sint (history_limit q))) (drop (nat (sint (history_offset q))) (xs s)))), s)"
  using history_limit_bounds [of q] history_offset_nonneg [of q]
  by (simp add: bind_prog_def limit_rows_Ok)

interpretation deposit_history: history db_deposits "\<lambda>a r. dr_address r = a \<and> dr_operator_id r = opid" dr_block_time
  "deposit_response_of \<circ> deposit_from_row" "\<lambda>scan. operator_deposits scan opid" for opid
  by unfold_locales (simp only: operator_deposits_def get_deposits_def history_query_rows)

interpretation withdrawal_history: history db_withdrawals "\<lambda>a r. wr_address r = a \<and> wr_operator_id r = opid" wr_block_time
  "withdrawal_response_of \<circ> withdrawal_from_row" "\<lambda>scan. operator_withdrawals scan opid" for opid
  by unfold_locales (simp only: operator_withdrawals_def get_withdrawals_def history_query_rows)

text \<open>
  C31: the answer of the deposit and withdrawal history never exceeds 50 rows, whatever limit and
  offset a client sends, negative ones included: it is a successful answer that holds only rows
  of the operator and the address asked for, the newest first.
\<close>

theorem history_bounded:
  assumes "db_faults s = []" and "scan_law dscan" and "scan_law wscan"
  shows "(\<exists>rs. operator_deposits dscan opid q s = (Ok (map (deposit_response_of \<circ> deposit_from_row) rs), s) \<and>
      length rs \<le> 50 \<and> set rs \<subseteq> {r \<in> set (db_deposits s). dr_address r = tq_address q \<and> dr_operator_id r = opid} \<and>
      sorted_wrt (\<ge>) (map dr_block_time rs)) \<and>
    (\<exists>rs. operator_withdrawals wscan opid q s = (Ok (map (withdrawal_response_of \<circ> withdrawal_from_row) rs), s) \<and>
      length rs \<le> 50 \<and> set rs \<subseteq> {r \<in> set (db_withdrawals s). wr_address r = tq_address q \<and> wr_operator_id r = opid} \<and>
      sorted_wrt (\<ge>) (map wr_block_time rs))"
  using deposit_history.page_bounded [OF assms(1,2)] withdrawal_history.page_bounded [OF assms(1,3)] by blast

definition ex_deposit :: "nat \<Rightarrow> datetime \<Rightarrow> deposit_rec" where
  "ex_deposit x t = \<lparr>dr_operator_id = 1, dr_address = ''st1'', dr_amount = x, dr_storage_fee = 0,
     dr_block_height = 5, dr_block_time = t\<rparr>"

definition ex_history :: db where
  "ex_history = empty_db\<lparr>db_deposits := [ex_deposit 10 100, ex_deposit 20 200, ex_deposit 30 300]\<rparr>"

theorem history_bounded_witness:
  "\<exists>rs. operator_deposits (\<lambda>rows. rows) 1 \<lparr>tq_address = ''st1'', tq_limit = Some 1000, tq_offset = Some (- 7)\<rparr> ex_history =
     (Ok (map (deposit_response_of \<circ> deposit_from_row) rs), ex_history) \<and> length rs \<le> 50"
proof -
  have "db_faults ex_history = []" by (simp add: ex_history_def empty_db_def)
  from history_bounded [OF this scan_law_id scan_law_id, of 1 "\<lparr>tq_address = ''st1'', tq_limit = Some 1000, tq_offset = Some (- 7)\<rparr>"]
  show ?thesis by blast
qed

text \<open>
  C18: the pages of a history are complete: when the matching rows have different times, the
  \<open>n\<close> pages of \<open>l\<close> rows at the offsets 0, \<open>l\<close>, 2\<open>l\<close>, ... put together are the first
  \<open>n * l\<close> rows of the history, each once and in order, even if the database scans the table
  in another order for each page.
\<close>

theorem history_pages_complete:
  assumes "db_faults s = []" and "\<And>k. scan_law (dscan k)" and "\<And>k. scan_law (wscan k)"
    and "distinct (map dr_block_time (filter (\<lambda>r. dr_address r = a \<and> dr_operator_id r = opid) (db_deposits s)))"
    and "distinct (map wr_block_time (filter (\<lambda>r. wr_address r = a \<and> wr_operator_id r = opid) (db_withdrawals s)))"
    and "1 \<le> l" and "l \<le> 50" and "n * l < 2 ^ 63"
  shows "(\<exists>page. (\<forall>k \<in> {..<n}. fst (operator_deposits (dscan k) opid \<lparr>tq_address = a,
        tq_limit = Some (of_nat l), tq_offset = Some (of_nat (k * l))\<rparr> s) = Ok (page k)) \<and>
      concat (map page [0..<n]) = map (deposit_response_of \<circ> deposit_from_row) (take (n * l)
        (order_by_desc dr_block_time (filter (\<lambda>r. dr_address r = a \<and> dr_operator_id r = opid) (db_deposits s))))) \<and>
    (\<exists>page. (\<forall>k \<in> {..<n}. fst (operator_withdrawals (wscan k) opid \<lparr>tq_address = a,
        tq_limit = Some (of_nat l), tq_offset = Some (of_nat (k * l))\<rparr> s) = Ok (page k)) \<and>
      concat (map page [0..<n]) = map (withdrawal_response_of \<circ> withdrawal_from_row) (take (n * l)
        (order_by_desc wr_block_time (filter (\<lambda>r. wr_address r = a \<and> wr_operator_id r = opid) (db_withdrawals s)))))"
  using deposit_history.pages_complete [OF assms(1,2,4,6-8)]
    withdrawal_history.pages_complete [OF assms(1,3,5,6-8)] by (rule conjI)

theorem history_pages_complete_witness:
  "\<exists>page. (\<forall>k \<in> {..<2}. fst (operator_deposits (if k = 0 then rev else (\<lambda>rows. rows)) 1
       \<lparr>tq_address = ''st1'', tq_limit = Some (of_nat 2), tq_offset = Some (of_nat (k * 2))\<rparr> ex_history) = Ok (page k)) \<and>
     map da_amount (concat (map page [0..<2])) = [show_nat 30, show_nat 20, show_nat 10]"
proof -
  let ?scan = "\<lambda>k :: nat. if k = 0 then rev else (\<lambda>rows. rows)"
  have h: "db_faults ex_history = []" "distinct (map dr_block_time (filter (\<lambda>r. dr_address r = ''st1'' \<and> dr_operator_id r = 1) (db_deposits ex_history)))"
    "distinct (map wr_block_time (filter (\<lambda>r. wr_address r = ''st1'' \<and> wr_operator_id r = 1) (db_withdrawals ex_history)))"
    by (simp_all add: ex_history_def empty_db_def ex_deposit_def)
  have scans: "scan_law (if k = 0 then rev else (\<lambda>rows. rows))" for k :: nat
    by (simp add: scan_law_def)
  have all: "order_by_desc dr_block_time (filter (\<lambda>r. dr_address r = ''st1'' \<and> dr_operator_id r = 1) (db_deposits ex_history)) =
      [ex_deposit 30 300, ex_deposit 20 200, ex_deposit 10 100]"
    by (simp add: ex_history_def ex_deposit_def order_by_desc_def)
  have nums: "(1::nat) \<le> 2" "(2::nat) \<le> 50" "2 * 2 < (2::nat) ^ 63" by simp_all
  have take: "take (2 * 2) [ex_deposit 30 300, ex_deposit 20 200, ex_deposit 10 100] =
      [ex_deposit 30 300, ex_deposit 20 200, ex_deposit 10 100]" by simp
  from history_pages_complete [where dscan = ?scan and wscan = "\<lambda>_ rows. rows",
      OF h(1) scans scan_law_id h(2,3) nums, THEN conjunct1, unfolded all take]
  obtain page where page: "\<forall>k \<in> {..<2}. fst (operator_deposits (?scan k) 1
       \<lparr>tq_address = ''st1'', tq_limit = Some (of_nat 2), tq_offset = Some (of_nat (k * 2))\<rparr> ex_history) = Ok (page k)"
    and "concat (map page [0..<2]) = map (deposit_response_of \<circ> deposit_from_row) [ex_deposit 30 300, ex_deposit 20 200, ex_deposit 10 100]"
    by (elim exE conjE)
  then show ?thesis
    by (intro exI [of _ page] conjI) (assumption, simp add: ex_deposit_def deposit_response_of_def deposit_from_row_def)
qed

text \<open>
  Without different times, and all rows of a block have the same time, a page may repeat a
  row that an earlier page showed and leave out another.
\<close>

lemma paging_ties_lose_rows:
  "\<exists>s scan. db_faults s = [] \<and> (\<forall>k. scan_law (scan k)) \<and>
     map dr_amount (db_deposits s) = [10, 20] \<and>
     (\<forall>k \<in> {0, 1}. map_ok (map da_amount) (fst (operator_deposits (scan k) 1 \<lparr>tq_address = ''st1'',
        tq_limit = Some 1, tq_offset = Some (of_nat k)\<rparr> s)) = Ok [show_nat 10])"
proof (intro exI conjI)
  let ?s = "empty_db\<lparr>db_deposits := [ex_deposit 10 100, ex_deposit 20 100]\<rparr>"
  let ?scan = "\<lambda>k :: nat. if k = 0 then (\<lambda>rows. rows) else rev"
  show "db_faults ?s = []" "map dr_amount (db_deposits ?s) = [10, 20]"
    by (simp_all add: empty_db_def ex_deposit_def)
  then show "\<forall>k \<in> {0, 1}. map_ok (map da_amount) (fst (operator_deposits (?scan k) 1 \<lparr>tq_address = ''st1'',
      tq_limit = Some 1, tq_offset = Some (of_nat k)\<rparr> ?s)) = Ok [show_nat 10]"
    by (simp add: deposit_history.handler_rows history_limit_def history_offset_def clamp_i64_def max_i64_def
        MAX_TX_HISTORY_LIMIT_def ex_deposit_def order_by_desc_def deposit_response_of_def deposit_from_row_def)
  show "\<forall>k. scan_law (?scan k)" by (simp add: scan_law_def)
qed

subsection \<open>From the events of a block to the histories\<close>

lemma deposits_served:
  assumes "db_faults s = []" and "scan_law scan" and "db_deposits s = old @ deposit_rows T n t es fees"
    and "\<forall>r \<in> set old. dr_block_time r < t"
    and "mine = filter (\<lambda>e. tl_ss58 T (on_nominator_id e) = a \<and> on_operator_id e = i) es" and "length mine \<le> 50"
  shows "\<exists>page. operator_deposits scan i \<lparr>tq_address = a, tq_limit = None, tq_offset = None\<rparr> s = (Ok page, s) \<and>
    mset (map (\<lambda>d. (da_amount d, da_block_height d, da_timestamp d)) (take (length mine) page)) =
    mset (map (\<lambda>e. (show_nat (unat (on_amount e)), ucast n, t)) mine)"
proof -
  let ?new = "filter (\<lambda>r. dr_address r = a \<and> dr_operator_id r = i) (deposit_rows T n t es fees)"
  have mine: "map (\<lambda>r. (dr_amount r, dr_block_height r, dr_block_time r)) ?new =
      map (\<lambda>e. (unat (on_amount e), ucast n, t)) mine"
    unfolding assms(5) by (rule deposit_rows_of_nominator)
  then have len: "length ?new = length mine" by (rule map_eq_imp_length_eq)
  from deposit_history.newest_first [OF assms(1-4) deposit_rows_time, of a i, unfolded len, OF assms(6)]
  obtain page where page: "operator_deposits scan i \<lparr>tq_address = a, tq_limit = None, tq_offset = None\<rparr> s = (Ok page, s)"
    "mset (take (length mine) page) = mset (map (deposit_response_of \<circ> deposit_from_row) ?new)" by (elim exE conjE)
  let ?fields = "\<lambda>d. (da_amount d, da_block_height d, da_timestamp d)"
  have "mset (map ?fields (take (length mine) page)) = mset (map ?fields (map (deposit_response_of \<circ> deposit_from_row) ?new))"
    using page(2) by (metis mset_map)
  also have "\<dots> = mset (map (\<lambda>(x, y). (show_nat x, y)) (map (\<lambda>r. (dr_amount r, dr_block_height r, dr_block_time r)) ?new))"
    by (simp add: deposit_response_of_def deposit_from_row_def o_def multiset.map_comp)
  also have "\<dots> = mset (map (\<lambda>e. (show_nat (unat (on_amount e)), ucast n, t)) mine)"
    unfolding mine by (simp add: o_def multiset.map_comp)
  finally show ?thesis using page(1) by blast
qed

lemma withdrawals_served:
  assumes "db_faults s = []" and "scan_law scan" and "db_withdrawals s = old @ map2 (withdrawal_row_of T n t) ws vs"
    and "\<forall>r \<in> set old. wr_block_time r < t"
    and "gone = filter (\<lambda>x. tl_ss58 T (ne_nominator_id (fst x)) = a \<and> ne_operator_id (fst x) = i) (zip ws vs)"
    and "length gone \<le> 50"
  shows "\<exists>page. operator_withdrawals scan i \<lparr>tq_address = a, tq_limit = None, tq_offset = None\<rparr> s = (Ok page, s) \<and>
    mset (map (\<lambda>d. (wa_shares d, wa_amount d, wa_storage_fee_refund d, wa_block_height d, wa_timestamp d))
      (take (length gone) page)) =
    mset (map (\<lambda>x. (show_nat (unat (nw_shares (snd x))), show_nat (unat (nw_amount (snd x))),
      show_nat (unat (nw_storage_fee_refund (snd x))), ucast n, t)) gone)"
proof -
  note new = withdrawal_rows_of_nominator [of a i T n t ws vs, folded assms(5)]
  have "\<forall>r \<in> set (map2 (withdrawal_row_of T n t) ws vs). wr_block_time r = t"
    by (auto simp: withdrawal_row_of_def)
  from withdrawal_history.newest_first [OF assms(1-4) this, of a i, unfolded new length_map, OF assms(6)]
  obtain page where page: "operator_withdrawals scan i \<lparr>tq_address = a, tq_limit = None, tq_offset = None\<rparr> s = (Ok page, s)"
    "mset (take (length gone) page) = mset (map (withdrawal_response_of \<circ> withdrawal_from_row)
      (map (\<lambda>(e, w). withdrawal_row_of T n t e w) gone))" by (elim exE conjE)
  let ?fields = "\<lambda>d. (wa_shares d, wa_amount d, wa_storage_fee_refund d, wa_block_height d, wa_timestamp d)"
  have "mset (map ?fields (take (length gone) page)) = mset (map ?fields (map (withdrawal_response_of \<circ> withdrawal_from_row)
      (map (\<lambda>(e, w). withdrawal_row_of T n t e w) gone)))"
    using page(2) by (metis mset_map)
  then show ?thesis using page(1)
    by (simp add: withdrawal_response_of_def withdrawal_from_row_def withdrawal_row_of_def o_def split_def multiset.map_comp)
qed

text \<open>
  C14: the staking activity of a block is served from its events: after the newest block was
  indexed, the history of deposits of a nominator at an operator, asked for without limit or
  offset, begins with exactly the nominations the block has for them, with amount, height
  and time; the history of withdrawals begins with their withdrawals of the block, with shares,
  amount and refund as the chain has them. A page has room for 50 of each.
\<close>

theorem staking_activity_served:
  assumes "index_staking_for_block T N C n s = (Ok (), s')" and "db_faults s' = []"
    and "block_ext_at_number (cl_node N) n = Ok b" and "block_time_of T N C b = Ok t"
    and "cl_events N (be_hash b) = Ok events"
    and "find_events as_nominated events = map Ok es" and "find_events as_withdrew events = map Ok ws"
    and "\<forall>r \<in> set (db_deposits s). dr_block_height r \<noteq> ucast n \<longrightarrow> dr_block_time r < t"
    and "\<forall>r \<in> set (db_withdrawals s). wr_block_height r \<noteq> ucast n \<longrightarrow> wr_block_time r < t"
    and "scan_law dscan" and "scan_law wscan"
    and "mine = filter (\<lambda>e. tl_ss58 T (on_nominator_id e) = a \<and> on_operator_id e = i) es" and "length mine \<le> 50"
    and "gone = filter (\<lambda>e. tl_ss58 T (ne_nominator_id e) = a \<and> ne_operator_id e = i) ws" and "length gone \<le> 50"
  shows "(\<exists>page. operator_deposits dscan i \<lparr>tq_address = a, tq_limit = None, tq_offset = None\<rparr> s' = (Ok page, s') \<and>
      mset (map (\<lambda>d. (da_amount d, da_block_height d, da_timestamp d)) (take (length mine) page)) =
      mset (map (\<lambda>e. (show_nat (unat (on_amount e)), ucast n, t)) mine)) \<and>
    (\<exists>page vs. operator_withdrawals wscan i \<lparr>tq_address = a, tq_limit = None, tq_offset = None\<rparr> s' = (Ok page, s') \<and>
      map (read_withdrawal N C b) gone = map Ok vs \<and>
      mset (map (\<lambda>d. (wa_shares d, wa_amount d, wa_storage_fee_refund d, wa_block_height d, wa_timestamp d)) (take (length gone) page)) =
      mset (map (\<lambda>v. (show_nat (unat (nw_shares v)), show_nat (unat (nw_amount v)),
        show_nat (unat (nw_storage_fee_refund v)), ucast n, t)) vs))"
proof -
  from staking_rows [OF assms(1,3-7)] obtain fs vs where
    vs: "map (read_withdrawal N C b) ws = map Ok vs"
    and rows: "db_deposits s' = filter (\<lambda>r. dr_block_height r \<noteq> ucast n) (db_deposits s) @
        deposit_rows T n t es (foldl (push_fee T) Map.empty fs)"
      "db_withdrawals s' = filter (\<lambda>r. wr_block_height r \<noteq> ucast n) (db_withdrawals s) @
        map2 (withdrawal_row_of T n t) ws vs" .
  have old: "\<forall>r \<in> set (filter (\<lambda>r. dr_block_height r \<noteq> ucast n) (db_deposits s)). dr_block_time r < t"
    "\<forall>r \<in> set (filter (\<lambda>r. wr_block_height r \<noteq> ucast n) (db_withdrawals s)). wr_block_time r < t"
    using assms(8,9) by simp_all
  let ?gone = "filter (\<lambda>x. tl_ss58 T (ne_nominator_id (fst x)) = a \<and> ne_operator_id (fst x) = i) (zip ws vs)"
  note read = withdrawals_of_nominator_read [OF vs,
      of "\<lambda>e. tl_ss58 T (ne_nominator_id e) = a \<and> ne_operator_id e = i", folded assms(14)]
  have len: "length ?gone = length gone" using arg_cong [OF read(1), of length] by simp
  from withdrawals_served [OF assms(2,11) rows(2) old(2) refl, of a i, unfolded len, OF assms(15)]
  obtain page where "operator_withdrawals wscan i \<lparr>tq_address = a, tq_limit = None, tq_offset = None\<rparr> s' = (Ok page, s')"
    "mset (map (\<lambda>d. (wa_shares d, wa_amount d, wa_storage_fee_refund d, wa_block_height d, wa_timestamp d)) (take (length gone) page)) =
      mset (map (\<lambda>x. (show_nat (unat (nw_shares (snd x))), show_nat (unat (nw_amount (snd x))),
        show_nat (unat (nw_storage_fee_refund (snd x))), ucast n, t)) ?gone)" by (elim exE conjE)
  with read(2) have "operator_withdrawals wscan i \<lparr>tq_address = a, tq_limit = None, tq_offset = None\<rparr> s' = (Ok page, s') \<and>
      map (read_withdrawal N C b) gone = map Ok (map snd ?gone) \<and>
      mset (map (\<lambda>d. (wa_shares d, wa_amount d, wa_storage_fee_refund d, wa_block_height d, wa_timestamp d)) (take (length gone) page)) =
      mset (map (\<lambda>v. (show_nat (unat (nw_shares v)), show_nat (unat (nw_amount v)),
        show_nat (unat (nw_storage_fee_refund v)), ucast n, t)) (map snd ?gone))"
    by (simp only: map_map o_def)
  then show ?thesis
    using deposits_served [OF assms(2,10) rows(1) old(1) assms(12,13)] by blast
qed

theorem staking_activity_served_witness:
  "\<exists>s' page. index_staking_for_block plain_text ex_staking_client scale 8 empty_db = (Ok (), s') \<and>
     operator_deposits rev 1 \<lparr>tq_address = show_nat 7, tq_limit = None, tq_offset = None\<rparr> s' = (Ok page, s') \<and>
     mset (map da_amount (take 2 page)) = {#show_nat 50, show_nat 60#}"
proof -
  have no: "db_faults empty_db = []" by (simp add: empty_db_def)
  from ex_staking_runs [OF this] obtain s' where
    run: "index_staking_for_block plain_text ex_staking_client scale 8 empty_db = (Ok (), s')" "db_faults s' = []" by blast
  from staking_block [OF run(1)] obtain b t events where
    b: "block_ext_at_number (cl_node ex_staking_client) 8 = Ok b" "block_time_of plain_text ex_staking_client scale b = Ok t"
    "cl_events ex_staking_client (be_hash b) = Ok events" .
  let ?es = "[\<lparr>on_operator_id = 1, on_nominator_id = 7, on_amount = 50\<rparr>, \<lparr>on_operator_id = 1, on_nominator_id = 7, on_amount = 60\<rparr>]"
  have events: "find_events as_nominated events = map Ok ?es" "find_events as_withdrew events = map Ok []"
    using b(3) by (auto simp: ex_staking_client_def find_events_def ex_fee_def ex_nomination_def List.map_filter_simps)
  have mine: "?es = filter (\<lambda>e. tl_ss58 plain_text (on_nominator_id e) = show_nat 7 \<and> on_operator_id e = 1) ?es"
    by (simp add: plain_text_def)
  have bounds: "length ?es \<le> 50" "length ([] :: nominator_event list) \<le> 50" by simp_all
  have old: "\<forall>r \<in> set (db_deposits empty_db). dr_block_height r \<noteq> ucast (8 :: u32) \<longrightarrow> dr_block_time r < t"
    "\<forall>r \<in> set (db_withdrawals empty_db). wr_block_height r \<noteq> ucast (8 :: u32) \<longrightarrow> wr_block_time r < t"
    by (simp_all add: empty_db_def)
  have rev: "scan_law rev" by (simp add: scan_law_def)
  from staking_activity_served [OF run b events old rev rev mine bounds(1) _ bounds(2)]
  obtain page where page: "operator_deposits rev 1 \<lparr>tq_address = show_nat 7, tq_limit = None, tq_offset = None\<rparr> s' = (Ok page, s')"
    "mset (map (\<lambda>d. (da_amount d, da_block_height d, da_timestamp d)) (take (length ?es) page)) =
      mset (map (\<lambda>e. (show_nat (unat (on_amount e)), ucast (8 :: u32), t)) ?es)" by auto
  from arg_cong [OF page(2), of "image_mset fst"] have "mset (map da_amount (take (Suc (Suc 0)) page)) = {#show_nat 50, show_nat 60#}"
    by (simp add: multiset.map_comp o_def)
  then have "mset (map da_amount (take 2 page)) = {#show_nat 50, show_nat 60#}" by (simp only: numeral_2_eq_2)
  with run(1) page(1) show ?thesis by blast
qed

subsection \<open>Operators\<close>

lemma get_operator_handler_row:
  "db_faults s = [] \<Longrightarrow> get_operator_handler i s = ((case lookup or_operator_id i (db_operators s) of
     Some r \<Rightarrow> Ok (map_operator_row (operator_from_row r))
   | None \<Rightarrow> Err (I_NotFound (''Operator '' @ show_int (sint i) @ '' not found''))), s)"
  by (simp add: get_operator_handler_def get_operator_def bind_prog_def split: option.splits)

lemma ucast_u8_up_down: "(ucast (ucast (x :: u8) :: 16 word) :: u8) = x"
  by (rule bit_word_eqI) (auto simp: bit_ucast_iff dest: bit_imp_le_length)

lemma read_operator_layout:
  assumes "scale_codec C E" and "length (oc_signing_key x) = 32" and "status_wf (oc_status x)"
    and "cl_fetch N (be_hash b) ''Domains'' ''Operators'' (Key_Operator i) = Ok (Some (enc_operator E x))"
  shows "read_operator N C b i = Ok
    \<lparr>fo_signing_key = oc_signing_key x, fo_current_domain_id = oc_current_domain_id x,
     fo_minimum_nominator_stake = oc_minimum_nominator_stake x,
     fo_nomination_tax = oc_nomination_tax x, fo_current_total_stake = oc_current_total_stake x,
     fo_current_total_shares = oc_current_total_shares x, fo_status = compact_status (oc_status x),
     fo_total_storage_fee_deposit = oc_total_storage_fee_deposit x\<rparr>"
  unfolding read_operator_def
  by (rule read_storage_Ok [where rest = "[]", OF _ scale_codec.reads_operator [OF assms(1-3)]]) (simp add: assms(4))

lemma read_owner_layout:
  assumes "scale_codec C E" and "length owner = 32"
    and "cl_fetch N (be_hash b) ''Domains'' ''OperatorIdOwner'' (Key_Operator i) = Ok (Some (enc_bytes32 E owner))"
  shows "read_owner N C b i = Ok (account_of_bytes owner)"
proof -
  have "read_storage N (dec_bytes32 C) b ''Domains'' ''OperatorIdOwner'' (Key_Operator i) = Ok owner"
    by (rule read_storage_Ok [where rest = "[]", OF _ scale_codec.bytes32 [OF assms(1,2)]]) (simp add: assms(3))
  then show ?thesis by (simp add: read_owner_def)
qed

text \<open>
  C13: an operator whose registration was indexed is served with exactly the data the chain has
  for it: from the bytes of the chain's storage over the decoder, the row and the query, the
  answer for its id holds its domain, owner address, signing key, stakes, status and tax as the
  chain has them, the tax unchanged by its way through a 16-bit column, and the current number
  of its active nominators.
\<close>

theorem registered_operator_served:
  assumes "scale_codec C E" and "length (oc_signing_key x) = 32" and "status_wf (oc_status x)" and "length owner = 32"
    and "cl_fetch N (be_hash b) ''Domains'' ''Operators'' (Key_Operator (op_operator_id e)) = Ok (Some (enc_operator E x))"
    and "cl_fetch N (be_hash b) ''Domains'' ''OperatorIdOwner'' (Key_Operator (op_operator_id e)) = Ok (Some (enc_bytes32 E owner))"
    and "db_faults s = []" and "lookup or_operator_id (op_operator_id e) (db_operators s) = None"
  shows "\<exists>s'. on_registered T N C b n t e s = (Ok (), s') \<and>
    respond (fst (get_operator_handler (op_operator_id e) s')) = Json
      \<lparr>oa_id = show_int (sint (op_operator_id e)), oa_domain_id = show_int (sint (oc_current_domain_id x)),
       oa_owner_account = tl_ss58 T (account_of_bytes owner), oa_signing_key = ''0x'' @ tl_hex_encode T (oc_signing_key x),
       oa_minimum_nominator_stake = show_nat (unat (oc_minimum_nominator_stake x)),
       oa_nomination_tax = oc_nomination_tax x, oa_total_stake = show_nat (unat (oc_current_total_stake x)),
       oa_total_shares = show_nat (unat (oc_current_total_shares x)),
       oa_total_storage_fee_deposit = show_nat (unat (oc_total_storage_fee_deposit x)),
       oa_status = as_str (compact_status (oc_status x)),
       oa_nominator_count = active_count (op_operator_id e) (db_nominators s')\<rparr>"
  using read_operator_layout [OF assms(1-3,5)] read_owner_layout [OF assms(1,4,6)] assms(7,8)
  by (simp add: on_registered_def read_or_skip_def upsert_operator_def upsert_nominator_def
      write_nominator_def refresh_nominator_count_eq then_prog_def bind_prog_def get_operator_handler_row
      operator_table.lookup_upsert lookup_update_where map_operator_row_def operator_from_row_def ucast_u8_up_down)

definition ex_registered_client :: chain_client where
  "ex_registered_client = ex_staking_client\<lparr>cl_fetch := (\<lambda>_ _ storage _. Ok (Some
     (if storage = ''Operators'' then enc_operator scale_enc ex_operator else enc_bytes32 scale_enc (replicate 32 9))))\<rparr>"

theorem registered_operator_served_witness:
  "\<exists>s'. on_registered plain_text ex_registered_client scale ex_block 8 9 \<lparr>op_operator_id = 3\<rparr> empty_db = (Ok (), s') \<and>
     (\<exists>r. respond (fst (get_operator_handler 3 s')) = Json r \<and> oa_nomination_tax r = 5 \<and>
        oa_status r = ''deregistered'' \<and> oa_total_stake r = show_nat 90)"
proof -
  have h: "length (oc_signing_key ex_operator) = 32" "status_wf (oc_status ex_operator)" "length (replicate 32 (9 :: u8)) = 32"
    "cl_fetch ex_registered_client (be_hash ex_block) ''Domains'' ''Operators'' (Key_Operator (op_operator_id \<lparr>op_operator_id = 3\<rparr>)) =
       Ok (Some (enc_operator scale_enc ex_operator))"
    "cl_fetch ex_registered_client (be_hash ex_block) ''Domains'' ''OperatorIdOwner'' (Key_Operator (op_operator_id \<lparr>op_operator_id = 3\<rparr>)) =
       Ok (Some (enc_bytes32 scale_enc (replicate 32 9)))"
    "lookup or_operator_id (op_operator_id \<lparr>op_operator_id = 3\<rparr>) (db_operators empty_db) = None"
    by (simp_all add: ex_operator_def ex_registered_client_def empty_db_def)
  from registered_operator_served [OF scale_format.scale_codec_axioms h(1-5) ex_no_faults h(6), where T = plain_text and n = 8 and t = 9]
  show ?thesis by (auto simp: ex_operator_def)
qed

subsection \<open>Share prices\<close>

lemma share_price_limit: "1 \<le> sint (clamp_i64 l 1 MAX_SHARE_PRICE_LIMIT)" "sint (clamp_i64 l 1 MAX_SHARE_PRICE_LIMIT) \<le> 50"
  using clamp_i64_bounds [of 1 50] by (simp_all add: MAX_SHARE_PRICE_LIMIT_def)


lemma index_price_writes:
  assumes "scale_codec C E" and "length (oc_signing_key x) = 32" and "status_wf (oc_status x)" and "db_faults s = []"
    and "ec_domain_id e = DomainId d"
    and "cl_fetch N (be_hash b) ''Domains'' ''OperatorEpochSharePrice''
      (Key_Operator_Epoch i (DomainEpoch (DomainId d) (ec_completed_epoch_index e))) = Ok (Some (enc_u64 E raw))"
    and "cl_fetch N (be_hash b) ''Domains'' ''Operators'' (Key_Operator i) = Ok (Some (enc_operator E x))"
    and "share_price_of T raw = Ok ratio" and "tl_price_column T ratio = Some price"
  shows "\<exists>s'. index_operator_share_price T N C b e n t i s = (Ok (), s') \<and> db_faults s' = [] \<and>
    db_share_prices s' = upsert share_price_key merge_share_price
      \<lparr>sp_operator_id = i, sp_domain_id = d, sp_epoch_index = ucast (ec_completed_epoch_index e), sp_share_price = price,
       sp_total_stake = unat (oc_current_total_stake x), sp_total_shares = unat (oc_current_total_shares x),
       sp_block_height = ucast n, sp_block_time = t\<rparr> (db_share_prices s)"
proof -
  have "try_read_storage N (dec_u64 C) b ''Domains'' ''OperatorEpochSharePrice''
      (Key_Operator_Epoch i (DomainEpoch (DomainId d) (ec_completed_epoch_index e))) = Ok (Some raw)"
    using assms(6) scale_codec.u64 [OF assms(1), of raw]
    by (simp add: try_read_storage_def decode_value_reads [where rest = "[]", simplified])
  then show ?thesis
    using assms(4,5,8,9)
    by (simp add: index_operator_share_price_def read_or_skip_def read_operator_layout [OF assms(1-3,7)]
        upsert_epoch_share_price_def update_operator_stats_def bind_prog_def then_prog_def)
qed

lemma latest_prices:
  assumes "db_faults s = []"
    and "order_by_desc sp_block_time (filter (\<lambda>r. sp_operator_id r = i) (scan (db_share_prices s))) = r # rest"
  shows "\<exists>rs. fst (operator_share_prices scan i \<lparr>sq_limit = l, sq_since = None, sq_until = None\<rparr> s) =
    Ok (share_price_response_of (share_price_from_row r) # rs) \<and> length rs < 50"
proof -
  let ?lim = "clamp_i64 (case l of None \<Rightarrow> MAX_SHARE_PRICE_LIMIT | Some l \<Rightarrow> l) 1 MAX_SHARE_PRICE_LIMIT"
  have lim: "0 \<le> sint ?lim" by (rule order_trans [OF _ share_price_limit(1)]) simp
  have "nat z = Suc (nat (z - 1)) \<and> nat (z - 1) < 50" if "1 \<le> z" "z \<le> 50" for z :: int
    using that by auto
  from this [OF share_price_limit] show ?thesis
    using assms
    by (intro exI [of _ "map (share_price_response_of \<circ> share_price_from_row) (take (nat (sint ?lim - 1)) rest)"])
      (simp add: operator_share_prices_def get_share_prices_latest_def bind_prog_def limit_rows_Ok [OF lim] Let_def min_less_iff_disj)
qed

text \<open>
  C15: the share price of an epoch is served as the chain has it: from the bytes of the chain's
  storage over the decoder, the decimal division and the row, the answer for the operator begins
  with the price, stake and shares of the epoch indexed last, whatever limit a client sends,
  negative ones included, and has at most 50 entries.
\<close>

theorem epoch_price_served:
  assumes "scale_codec C E" and "length (oc_signing_key x) = 32" and "status_wf (oc_status x)" and "db_faults s = []"
    and "ec_domain_id e = DomainId d"
    and "cl_fetch N (be_hash b) ''Domains'' ''OperatorEpochSharePrice''
      (Key_Operator_Epoch i (DomainEpoch (DomainId d) (ec_completed_epoch_index e))) = Ok (Some (enc_u64 E raw))"
    and "cl_fetch N (be_hash b) ''Domains'' ''Operators'' (Key_Operator i) = Ok (Some (enc_operator E x))"
    and "share_price_of T raw = Ok ratio" and "tl_price_column T ratio = Some price"
    and "unique_key share_price_key (db_share_prices s)" and "scan_law scan"
    and "\<forall>r \<in> set (db_share_prices s). sp_operator_id r = i \<longrightarrow>
      share_price_key r = (i, d, ucast (ec_completed_epoch_index e)) \<or> sp_block_time r < t"
  shows "\<exists>s' rest. index_operator_share_price T N C b e n t i s = (Ok (), s') \<and>
    fst (operator_share_prices scan i \<lparr>sq_limit = l, sq_since = None, sq_until = None\<rparr> s') = Ok
      (\<lparr>sa_operator_id = show_int (sint i), sa_domain_id = show_int (sint d),
        sa_epoch_index = ucast (ec_completed_epoch_index e), sa_share_price = price,
        sa_total_stake = show_nat (unat (oc_current_total_stake x)),
        sa_total_shares = show_nat (unat (oc_current_total_shares x)),
        sa_block_height = show_int (sint (ucast n :: i64)), sa_timestamp = t\<rparr> # rest) \<and> length rest < 50"
proof -
  let ?r = "\<lparr>sp_operator_id = i, sp_domain_id = d, sp_epoch_index = ucast (ec_completed_epoch_index e), sp_share_price = price,
       sp_total_stake = unat (oc_current_total_stake x), sp_total_shares = unat (oc_current_total_shares x),
       sp_block_height = ucast n, sp_block_time = t\<rparr>"
  obtain s' where s': "index_operator_share_price T N C b e n t i s = (Ok (), s')" "db_faults s' = []"
    "db_share_prices s' = upsert share_price_key merge_share_price ?r (db_share_prices s)"
    using index_price_writes [OF assms(1-9)] by blast
  have key: "share_price_key ?r = (i, d, ucast (ec_completed_epoch_index e))" by (simp add: share_price_key_def)
  have uniq: "unique_key share_price_key (db_share_prices s')"
    unfolding s'(3) by (rule price_table.unique_upsert [OF assms(10)])
  have "merge_share_price old ?r = ?r" if "lookup share_price_key (share_price_key ?r) (db_share_prices s) = Some old" for old
    using lookup_Some_key [OF that] by (cases old) (simp add: merge_share_price_def share_price_key_def)
  then have row: "lookup share_price_key (share_price_key ?r) (db_share_prices s') = Some ?r"
    unfolding s'(3) price_table.lookup_upsert by (simp split: option.splits)
  have other: "sp_block_time y < t" if "y \<in> set (db_share_prices s')" "sp_operator_id y = i" "share_price_key y \<noteq> share_price_key ?r" for y
  proof -
    have "lookup share_price_key (share_price_key y) (db_share_prices s) = Some y"
      using lookup_unique [OF uniq that(1)] price_table.lookup_upsert_other [OF that(3)] by (simp add: s'(3))
    with assms(12) that(2,3) key lookup_in_set show ?thesis by metis
  qed
  obtain rest where ordered: "order_by_desc sp_block_time (filter (\<lambda>r. sp_operator_id r = i) (scan (db_share_prices s'))) = ?r # rest"
    using newest_row_first [where hit = "\<lambda>r. sp_operator_id r = i" and time = sp_block_time and t = t, OF assms(11) uniq row]
      other by force
  from latest_prices [where scan = scan and l = l, OF s'(2) ordered] s'(1) show ?thesis
    by (auto simp: share_price_response_of_def share_price_from_row_def)
qed

definition ex_epoch_client :: chain_client where
  "ex_epoch_client = ex_staking_client\<lparr>cl_fetch := (\<lambda>_ _ storage _. Ok (Some
     (if storage = ''Operators'' then enc_operator scale_enc ex_operator else enc_u64 scale_enc 5)))\<rparr>"

theorem epoch_price_served_witness:
  "\<exists>s' p rest. index_operator_share_price plain_text ex_epoch_client scale ex_block
       \<lparr>ec_domain_id = DomainId 0, ec_completed_epoch_index = 12\<rparr> 8 9 3 empty_db = (Ok (), s') \<and>
     fst (operator_share_prices rev 3 \<lparr>sq_limit = Some (- 1), sq_since = None, sq_until = None\<rparr> s') = Ok (p # rest) \<and>
     sa_share_price p = show_nat 5 @ ''/'' @ show_nat (10 ^ 18) \<and> sa_epoch_index p = 12"
proof -
  let ?e = "\<lparr>ec_domain_id = DomainId 0, ec_completed_epoch_index = 12\<rparr>"
  have h: "length (oc_signing_key ex_operator) = 32" "status_wf (oc_status ex_operator)" "ec_domain_id ?e = DomainId 0"
    "cl_fetch ex_epoch_client (be_hash ex_block) ''Domains'' ''OperatorEpochSharePrice''
      (Key_Operator_Epoch 3 (DomainEpoch (DomainId 0) (ec_completed_epoch_index ?e))) = Ok (Some (enc_u64 scale_enc 5))"
    "cl_fetch ex_epoch_client (be_hash ex_block) ''Domains'' ''Operators'' (Key_Operator 3) = Ok (Some (enc_operator scale_enc ex_operator))"
    "share_price_of plain_text 5 = Ok (show_nat 5 @ ''/'' @ show_nat (10 ^ 18))"
    "tl_price_column plain_text (show_nat 5 @ ''/'' @ show_nat (10 ^ 18)) = Some (show_nat 5 @ ''/'' @ show_nat (10 ^ 18))"
    by (simp_all add: ex_operator_def ex_epoch_client_def share_price_of_def plain_text_def)
  have "unique_key share_price_key (db_share_prices empty_db)" "scan_law rev"
    "\<forall>r \<in> set (db_share_prices empty_db). sp_operator_id r = 3 \<longrightarrow>
      share_price_key r = (3, 0, ucast (ec_completed_epoch_index ?e)) \<or> sp_block_time r < 9"
    by (simp_all add: empty_db_def unique_key_def scan_law_def)
  from epoch_price_served [OF scale_format.scale_codec_axioms h(1,2) ex_no_faults h(3-7) this, of 8 "Some (- 1)"]
  show ?thesis by (elim exE conjE) (intro exI conjI, assumption+, simp_all)
qed

subsection \<open>Checkpoints\<close>

lemma checkpoint_writes:
  assumes "db_faults s = []"
  shows "\<exists>s'. for_prog ws (\<lambda>(k, n). set_last_processed_block k n) s = (Ok (), s') \<and> db_faults s' = [] \<and>
    (\<forall>k. map_option md_block (lookup md_process k (db_metadata s')) =
       (case map_of (rev ws) k of Some n \<Rightarrow> Some (ucast n)
        | None \<Rightarrow> map_option md_block (lookup md_process k (db_metadata s))))"
  using assms
proof (induction ws arbitrary: s)
  case Nil
  then show ?case by simp
next
  case (Cons w ws)
  obtain k n where w: "w = (k, n)" by (cases w)
  let ?s = "s\<lparr>db_metadata := upsert md_process merge_metadata \<lparr>md_process = k, md_block = ucast n\<rparr> (db_metadata s)\<rparr>"
  have step: "set_last_processed_block k n s = (Ok (), ?s)" and nf: "db_faults ?s = []"
    using Cons.prems by (simp_all add: set_last_processed_block_def)
  from Cons.IH [OF nf] obtain s' where s': "for_prog ws (\<lambda>(k, n). set_last_processed_block k n) ?s = (Ok (), s')" "db_faults s' = []"
    and rows: "map_option md_block (lookup md_process j (db_metadata s')) = (case map_of (rev ws) j of Some n \<Rightarrow> Some (ucast n)
        | None \<Rightarrow> map_option md_block (lookup md_process j (db_metadata ?s)))" for j
    by (elim exE conjE) blast
  have "map_option md_block (lookup md_process j (db_metadata s')) = (case map_of (rev (w # ws)) j of Some n \<Rightarrow> Some (ucast n)
        | None \<Rightarrow> map_option md_block (lookup md_process j (db_metadata s)))" for j
    unfolding rows [of j]
    by (auto simp: w map_add_def metadata_table.lookup_upsert merge_metadata_def split: option.splits)
  then show ?case
    using s' step by (intro exI [of _ s']) (simp add: w then_prog_Ok)
qed

lemma health_row:
  "db_faults s = [] \<Longrightarrow> get_last_processed_block k s =
     ((case map_option md_block (lookup md_process k (db_metadata s)) of
         None \<Rightarrow> Err (I_DB RowNotFound) | Some b \<Rightarrow> Ok (ucast b)), s)"
  by (simp add: get_last_processed_block_def split: option.splits)

text \<open>
  C30: the health endpoint reports, for each of the three processors, the checkpoint it wrote last,
  whatever checkpoints are written in whatever order; as long as one of them has written none
  it answers with an internal server error.
\<close>

theorem health_reports_last_checkpoints:
  assumes "db_faults s = []" and "db_metadata s = []"
  shows "\<exists>s'. for_prog ws (\<lambda>(k, n). set_last_processed_block k n) s = (Ok (), s') \<and>
    respond (fst (health_check s')) =
      (case (map_of (rev ws) (get_xdm_processor_key Consensus), map_of (rev ws) (get_xdm_processor_key (Domain (DomainId 0))),
         map_of (rev ws) CHECKPOINT_KEY) of
        (Some cn, Some aen, Some stk) \<Rightarrow> Json \<lparr>consensus_processed_block_number = cn,
          auto_evm_processed_block_number = aen, staking_processed_block_number = stk\<rparr>
      | _ \<Rightarrow> Failure 500 ''internal server error'')"
proof -
  from checkpoint_writes [OF assms(1), of ws] obtain s' where
    s': "for_prog ws (\<lambda>(k, n). set_last_processed_block k n) s = (Ok (), s')" "db_faults s' = []"
    and rows: "map_option md_block (lookup md_process k (db_metadata s')) = map_option ucast (map_of (rev ws) k)" for k
    unfolding assms(2) by (elim exE conjE) (auto split: option.splits)
  show ?thesis
    by (intro exI [of _ s'] conjI s'(1))
      (auto simp: health_check_def bind_prog_def health_row [OF s'(2)] rows error_response_def split: option.splits)
qed

theorem health_reports_last_checkpoints_witness:
  "\<exists>s'. for_prog [(''xdm_processor_Consensus'', 100), (''staking_processor_Consensus'', 90), (''xdm_processor_Domain(0)'', 80),
       (''xdm_processor_Consensus'', 200)] (\<lambda>(k, n). set_last_processed_block k n) empty_db = (Ok (), s') \<and>
     respond (fst (health_check s')) = Json \<lparr>consensus_processed_block_number = 200,
       auto_evm_processed_block_number = 80, staking_processed_block_number = 90\<rparr>"
proof -
  have "db_metadata empty_db = []" by (simp add: empty_db_def)
  moreover have "show_nat 0 = ''0''" by code_simp
  ultimately show ?thesis
    using health_reports_last_checkpoints [OF ex_no_faults, of "[(''xdm_processor_Consensus'', 100), (''staking_processor_Consensus'', 90),
      (''xdm_processor_Domain(0)'', 80), (''xdm_processor_Consensus'', 200)]"]
    by (simp add: get_xdm_processor_key_def CHECKPOINT_KEY_def)
qed

end
