(* ===== verification/Alert_Events.thy ===== *)
theory Alert_Events
  imports Alert_Types Subspace_Client "HOL-Library.Multiset"
begin

section \<open>Transfers, low balances and other monitored events\<close>

text \<open>
  \<open>watch_events\<close> of \<open>alerter/src/events.rs\<close> with the event types of \<open>event_types.rs\<close>.
  For every block of every message of the listener, the monitor searches the block's events,
  reads the balance of watched accounts that paid in the block, and sends its alerts. The
  node is the parameter \<open>N\<close>, with accounts as storage keys. \<open>parse\<close> is the parameter that
  reads an SS58 address. A map with ordered keys is a partial function: collecting pairs
  into it keeps the last value of a key.
\<close>

subsection \<open>Events of a block\<close>

record balance_withdraw =
  bw_who :: account_id
  bw_amount :: u128

record balance_deposit =
  bp_who :: account_id
  bp_amount :: u128

record balance_transfer =
  bt_from :: account_id
  bt_to :: account_id
  bt_amount :: u128

record fraud_proof_processed =
  fp_domain_id :: u32
  fp_new_head_receipt_number :: "u32 option"

record operator_slashed =
  sl_operator_id :: u64
  sl_reason :: slashed_reason

text \<open>An event as the client hands it out: its name, with the outcome of decoding its fields.\<close>

datatype chain_event =
    Ce_BalanceTransfer "(balance_transfer, shared_error) result"
  | Ce_BalanceDeposit "(balance_deposit, shared_error) result"
  | Ce_BalanceWithdraw "(balance_withdraw, shared_error) result"
  | Ce_DomainRuntimeUpgraded "(u32, shared_error) result"
  | Ce_DomainInstantiated "(u32, shared_error) result"
  | Ce_FraudProofProcessed "(fraud_proof_processed, shared_error) result"
  | Ce_OperatorSlashed "(operator_slashed, shared_error) result"
  | Ce_OperatorOffline "(operator_offline, shared_error) result"
  | Ce_Sudo "(unit, shared_error) result"
  | Ce_CodeUpdated "(unit, shared_error) result"
  | Ce_Other

type_synonym 'e ce_finder = "(chain_event, 'e) event_finder"
type_synonym alert_client = "(account_id, chain_event) client"

fun as_balance_transfer :: "balance_transfer ce_finder" where
  "as_balance_transfer (Ce_BalanceTransfer r) = Some r" | "as_balance_transfer _ = None"

fun as_balance_deposit :: "balance_deposit ce_finder" where
  "as_balance_deposit (Ce_BalanceDeposit r) = Some r" | "as_balance_deposit _ = None"

fun as_balance_withdraw :: "balance_withdraw ce_finder" where
  "as_balance_withdraw (Ce_BalanceWithdraw r) = Some r" | "as_balance_withdraw _ = None"

fun as_runtime_upgraded :: "u32 ce_finder" where
  "as_runtime_upgraded (Ce_DomainRuntimeUpgraded r) = Some r" | "as_runtime_upgraded _ = None"

fun as_domain_instantiated :: "u32 ce_finder" where
  "as_domain_instantiated (Ce_DomainInstantiated r) = Some r" | "as_domain_instantiated _ = None"

fun as_fraud_proof :: "fraud_proof_processed ce_finder" where
  "as_fraud_proof (Ce_FraudProofProcessed r) = Some r" | "as_fraud_proof _ = None"

fun as_operator_slashed :: "operator_slashed ce_finder" where
  "as_operator_slashed (Ce_OperatorSlashed r) = Some r" | "as_operator_slashed _ = None"

fun as_operator_offline :: "operator_offline ce_finder" where
  "as_operator_offline (Ce_OperatorOffline r) = Some r" | "as_operator_offline _ = None"

fun as_sudo :: "unit ce_finder" where
  "as_sudo (Ce_Sudo r) = Some r" | "as_sudo _ = None"

fun as_code_updated :: "unit ce_finder" where
  "as_code_updated (Ce_CodeUpdated r) = Some r" | "as_code_updated _ = None"

text \<open>The trait \<open>TransferEvent\<close>: what its four methods return, for each of its three instances.\<close>

record transfer_event =
  te_transfer_type :: transfer_type
  te_amount :: u128
  te_from :: "account_id option"
  te_to :: "account_id option"

definition withdraw_transfer :: "balance_withdraw \<Rightarrow> transfer_event" where
  "withdraw_transfer e = \<lparr>te_transfer_type = Withdraw, te_amount = bw_amount e,
     te_from = Some (bw_who e), te_to = None\<rparr>"

definition deposit_transfer :: "balance_deposit \<Rightarrow> transfer_event" where
  "deposit_transfer e = \<lparr>te_transfer_type = Deposit, te_amount = bp_amount e,
     te_from = None, te_to = Some (bp_who e)\<rparr>"

definition balance_transfer_event :: "balance_transfer \<Rightarrow> transfer_event" where
  "balance_transfer_event e = \<lparr>te_transfer_type = Transfer, te_amount = bt_amount e,
     te_from = Some (bt_from e), te_to = Some (bt_to e)\<rparr>"

subsection \<open>Configuration\<close>

record account =
  ac_name :: string
  ac_address :: string

record balance_alert =
  ba_name :: string
  ba_address :: string
  ba_threshold_ai3 :: u64

record resolved_balance_alert =
  ra_name :: string
  ra_address :: string
  ra_threshold :: u128

definition pow10_u128 :: "nat \<Rightarrow> (u128, 'e) result" where
  "pow10_u128 n = (if (10::nat) ^ n < 2 ^ 128 then Ok (10 ^ n) else Panic ''attempt to multiply with overflow'')"

definition parse_address :: "(string \<Rightarrow> account_id option) \<Rightarrow> string \<Rightarrow> (account_id, 'e) result" where
  "parse_address parse address = expect (parse address) ''Must be a valid SS58 address''"

definition resolve_alert ::
  "(string \<Rightarrow> account_id option) \<Rightarrow> u128 \<Rightarrow> balance_alert \<Rightarrow> (account_id \<times> resolved_balance_alert, alerter_error) result" where
  "resolve_alert parse scl alert =
     bind_result (parse_address parse (ba_address alert)) (\<lambda>account_id.
     bind_result (mul_checked (ucast (ba_threshold_ai3 alert)) scl) (\<lambda>threshold.
     Ok (account_id, \<lparr>ra_name = ba_name alert, ra_address = ba_address alert, ra_threshold = threshold\<rparr>)))"

definition build_balance_alert_map ::
  "(string \<Rightarrow> account_id option) \<Rightarrow> balance_alert list \<Rightarrow> u8 \<Rightarrow>
     (account_id \<rightharpoonup> resolved_balance_alert, alerter_error) result" where
  "build_balance_alert_map parse alerts token_decimals =
     bind_result (pow10_u128 (unat token_decimals)) (\<lambda>scl.
     bind_result (try_collect (map (resolve_alert parse scl) alerts)) (\<lambda>entries.
     Ok (map_of (rev entries))))"

definition account_mapped_name ::
  "(string \<Rightarrow> account_id option) \<Rightarrow> account list \<Rightarrow> (account_id \<rightharpoonup> account, alerter_error) result" where
  "account_mapped_name parse accounts =
     bind_result (try_collect (map (\<lambda>a. map_ok (\<lambda>i. (i, a)) (parse_address parse (ac_address a))) accounts))
       (\<lambda>entries. Ok (map_of (rev entries)))"

subsection \<open>Alerts of a block\<close>

definition known_transfer :: "(account_id \<rightharpoonup> account) \<Rightarrow> transfer_event \<Rightarrow> transfer_known_account_event option" where
  "known_transfer accounts e =
     (case Option.bind (te_from e) accounts of
        Some a \<Rightarrow> Some \<lparr>tk_direction = Sender, tk_transfer_type = te_transfer_type e, tk_name = ac_name a,
          tk_address = ac_address a, tk_amount = te_amount e\<rparr>
      | None \<Rightarrow> (case Option.bind (te_to e) accounts of
          Some a \<Rightarrow> Some \<lparr>tk_direction = Receiver, tk_transfer_type = te_transfer_type e, tk_name = ac_name a,
            tk_address = ac_address a, tk_amount = te_amount e\<rparr>
        | None \<Rightarrow> None))"

definition filter_known_account_transfers ::
  "transfer_event list \<Rightarrow> (account_id \<rightharpoonup> account) \<Rightarrow> transfer_known_account_event list" where
  "filter_known_account_transfers events accounts = List.map_filter (known_transfer accounts) events"

text \<open>The loop of \<open>check_low_balances\<close>, with the accounts checked so far and the alerts raised so far.\<close>

fun check_balances ::
  "alert_client \<Rightarrow> codec \<Rightarrow> block_ext \<Rightarrow> (account_id \<rightharpoonup> resolved_balance_alert) \<Rightarrow> balance_withdraw list \<Rightarrow>
     account_id set \<Rightarrow> low_balance_event list \<Rightarrow> (low_balance_event list, alerter_error) result" where
  "check_balances N C b balance_alerts [] checked alerts = Ok alerts"
| "check_balances N C b balance_alerts (w # ws) checked alerts =
     (case balance_alerts (bw_who w) of
        None \<Rightarrow> check_balances N C b balance_alerts ws checked alerts
      | Some a \<Rightarrow>
          if bw_who w \<in> checked then check_balances N C b balance_alerts ws checked alerts
          else (case free_balance N C b (bw_who w) of
            Ok (Some free) \<Rightarrow> check_balances N C b balance_alerts ws (insert (bw_who w) checked)
              (if free < ra_threshold a
               then alerts @ [\<lparr>lb_name = ra_name a, lb_address = ra_address a, lb_balance = free, lb_threshold = ra_threshold a\<rparr>]
               else alerts)
          | Ok None \<Rightarrow> check_balances N C b balance_alerts ws (insert (bw_who w) checked) alerts
          | Err e \<Rightarrow> check_balances N C b balance_alerts ws (insert (bw_who w) checked) alerts
          | Panic p \<Rightarrow> Panic p))"

definition check_low_balances ::
  "alert_client \<Rightarrow> codec \<Rightarrow> block_ext \<Rightarrow> balance_withdraw list \<Rightarrow> (account_id \<rightharpoonup> resolved_balance_alert) \<Rightarrow>
     (low_balance_event list, alerter_error) result" where
  "check_low_balances N C b withdrawals balance_alerts = check_balances N C b balance_alerts withdrawals {} []"

definition find_all :: "'e ce_finder \<Rightarrow> (chain_event, shared_error) result list \<Rightarrow> ('e list, alerter_error) result" where
  "find_all f block_events = map_err A_Subspace (try_collect (find_events f block_events))"

definition as_alert_events ::
  "'e ce_finder \<Rightarrow> ('e \<Rightarrow> event) \<Rightarrow> (chain_event, shared_error) result list \<Rightarrow> (event list, alerter_error) result" where
  "as_alert_events f into block_events = map_ok (map into) (find_all f block_events)"

definition block_alert_events ::
  "alert_client \<Rightarrow> codec \<Rightarrow> (account_id \<rightharpoonup> account) \<Rightarrow> (account_id \<rightharpoonup> resolved_balance_alert) \<Rightarrow> block_ext \<Rightarrow>
     (event list, alerter_error) result" where
  "block_alert_events N C accounts balance_alerts b =
     bind_result (map_err A_Subspace (cl_events N (be_hash b))) (\<lambda>evs.
     bind_result (find_all as_balance_transfer evs) (\<lambda>ts.
     bind_result (find_all as_balance_deposit evs) (\<lambda>ds.
     bind_result (find_all as_balance_withdraw evs) (\<lambda>withdrawals.
     bind_result (check_low_balances N C b withdrawals balance_alerts) (\<lambda>low_balance_events.
     let transfers = filter_known_account_transfers (map balance_transfer_event ts) accounts
           @ filter_known_account_transfers (map deposit_transfer ds) accounts
           @ filter_known_account_transfers (map withdraw_transfer withdrawals) accounts in
     bind_result (as_alert_events as_runtime_upgraded EvDomainRuntimeUpgraded evs) (\<lambda>e1.
     bind_result (as_alert_events as_domain_instantiated EvDomainInstantiated evs) (\<lambda>e2.
     bind_result (as_alert_events as_fraud_proof
       (\<lambda>e. EvFraudProofProcessed (fp_domain_id e) (fp_new_head_receipt_number e)) evs) (\<lambda>e3.
     bind_result (as_alert_events as_operator_slashed
       (\<lambda>e. EvOperatorSlashed (sl_operator_id e) (sl_reason e)) evs) (\<lambda>e4.
     bind_result (as_alert_events as_operator_offline EvOperatorOffline evs) (\<lambda>e5.
     bind_result (as_alert_events as_sudo (\<lambda>_. EvSudo) evs) (\<lambda>e6.
     bind_result (as_alert_events as_code_updated (\<lambda>_. EvCodeUpdated) evs) (\<lambda>e7.
     Ok (map EvTransfer transfers @ map EvLowBalance low_balance_events @ e1 @ e2 @ e3 @ e4 @ e5 @ e6 @ e7)))))))))))))"

subsection \<open>The loop\<close>

text \<open>The state is the log of the alerts sent.\<close>

definition watch_block ::
  "alert_client \<Rightarrow> codec \<Rightarrow> (account_id \<rightharpoonup> account) \<Rightarrow> (account_id \<rightharpoonup> resolved_balance_alert) \<Rightarrow> block_ext \<Rightarrow>
     (alert list, unit, alerter_error) prog" where
  "watch_block N C accounts balance_alerts b =
     bind_prog (lift_result (block_alert_events N C accounts balance_alerts b))
       (\<lambda>events sent. (Ok (), sent @ map AlertEvent events))"

definition watch_message ::
  "alert_client \<Rightarrow> codec \<Rightarrow> (account_id \<rightharpoonup> account) \<Rightarrow> (account_id \<rightharpoonup> resolved_balance_alert) \<Rightarrow>
     (blocks_ext, recv_error) result \<Rightarrow> (alert list, unit, alerter_error) prog" where
  "watch_message N C accounts balance_alerts r =
     bind_prog (lift_result (map_err A_BroadRecvErr r))
       (\<lambda>m. for_prog (bx_blocks m) (watch_block N C accounts balance_alerts))"

text \<open>The loop over the messages received so far: it goes on until an iteration fails.\<close>

definition watch_events ::
  "(string \<Rightarrow> account_id option) \<Rightarrow> alert_client \<Rightarrow> codec \<Rightarrow> account list \<Rightarrow> balance_alert list \<Rightarrow> u8 \<Rightarrow>
     (blocks_ext, recv_error) result list \<Rightarrow> (alert list, unit, alerter_error) prog" where
  "watch_events parse N C accounts balance_alerts token_decimals inputs =
     bind_prog (lift_result (account_mapped_name parse accounts)) (\<lambda>transfer_account_map.
     bind_prog (lift_result (build_balance_alert_map parse balance_alerts token_decimals)) (\<lambda>balance_alert_map.
     for_prog inputs (watch_message N C transfer_account_map balance_alert_map)))"

subsection \<open>Low balances\<close>

text \<open>The elements of a list in the order in which they first occur.\<close>

primrec first_occurrences :: "'a list \<Rightarrow> 'a list" where
  "first_occurrences [] = []"
| "first_occurrences (x # xs) = x # filter (\<lambda>y. y \<noteq> x) (first_occurrences xs)"

lemma set_first_occurrences [simp]: "set (first_occurrences xs) = set xs"
  by (induction xs) auto

lemma distinct_first_occurrences [simp]: "distinct (first_occurrences xs)"
  by (induction xs) auto

text \<open>The alert due for an account, from the configuration and its balance alone.\<close>

definition low_balance_of ::
  "(string \<Rightarrow> account_id option) \<Rightarrow> balance_alert list \<Rightarrow> u8 \<Rightarrow> (u128 option, shared_error) result \<Rightarrow> account_id \<Rightarrow>
     low_balance_event option" where
  "low_balance_of parse cfg d balance a = (case find (\<lambda>c. parse (ba_address c) = Some a) (rev cfg) of
     None \<Rightarrow> None
   | Some c \<Rightarrow> (case balance of
       Ok (Some free) \<Rightarrow> if unat free < unat (ba_threshold_ai3 c) * 10 ^ unat d
         then Some \<lparr>lb_name = ba_name c, lb_address = ba_address c, lb_balance = free,
           lb_threshold = of_nat (unat (ba_threshold_ai3 c) * 10 ^ unat d)\<rparr> else None
     | _ \<Rightarrow> None))"

lemma unat_ucast_u64_u128 [simp]: "unat (ucast (x :: u64) :: u128) = unat x"
proof -
  have "unat x < 2 ^ 64" using unsigned_less [of x, where 'a = nat] by simp
  then have "take_bit 128 (unat x) = unat x" by (intro take_bit_nat_eq_self) simp
  then show ?thesis by (simp add: unsigned_ucast_eq)
qed

lemma resolve_alert_Ok:
  assumes "pow10_u128 d = Ok scl" and "resolve_alert parse scl c = Ok (a, r)"
  shows "parse (ba_address c) = Some a \<and> ra_name r = ba_name c \<and> ra_address r = ba_address c \<and>
    unat (ra_threshold r) = unat (ba_threshold_ai3 c) * 10 ^ d"
proof -
  have "unat scl = 10 ^ d"
    using assms(1) unat_of_nat_small [of "10 ^ d", where 'a = 128]
    by (auto simp: pow10_u128_def split: if_splits)
  with assms(2) show ?thesis
    by (auto simp: resolve_alert_def parse_address_def dest!: mul_checked_unat)
qed

lemma resolved_find:
  assumes "list_all2 (\<lambda>c (a, r). parse (ba_address c) = Some a \<and> Q c r) cs es"
  shows "case find (\<lambda>c. parse (ba_address c) = Some a) cs of
    None \<Rightarrow> map_of es a = None | Some c \<Rightarrow> \<exists>r. map_of es a = Some r \<and> Q c r"
  using assms by (induction rule: list_all2_induct) (auto split: option.splits prod.splits)

lemma balance_alert_map_Ok:
  assumes "build_balance_alert_map parse cfg d = Ok m"
  shows "case find (\<lambda>c. parse (ba_address c) = Some a) (rev cfg) of
    None \<Rightarrow> m a = None
  | Some c \<Rightarrow> \<exists>r. m a = Some r \<and> ra_name r = ba_name c \<and> ra_address r = ba_address c \<and>
      unat (ra_threshold r) = unat (ba_threshold_ai3 c) * 10 ^ unat d"
proof -
  from assms obtain scl es where scl: "pow10_u128 (unat d) = (Ok scl :: (_, alerter_error) result)"
    and es: "list_all2 (\<lambda>c y. resolve_alert parse scl c = Ok y) cfg es" and m: "m = map_of (rev es)"
    by (auto simp: build_balance_alert_map_def try_collect_map_iff)
  have "list_all2 (\<lambda>c (a, r). parse (ba_address c) = Some a \<and> (ra_name r = ba_name c \<and>
      ra_address r = ba_address c \<and> unat (ra_threshold r) = unat (ba_threshold_ai3 c) * 10 ^ unat d)) (rev cfg) (rev es)"
    unfolding list_all2_rev using es
    by (rule list_all2_mono) (use resolve_alert_Ok [OF scl] in \<open>auto split: prod.splits\<close>)
  from resolved_find [OF this] show ?thesis unfolding m .
qed

lemma map_filter_skip:
  "f x = None \<Longrightarrow> List.map_filter f (filter (\<lambda>y. y \<noteq> x \<and> P y) xs) = List.map_filter f (filter P xs)"
  by (induction xs) (auto simp: List.map_filter_simps split: option.splits)

lemma check_balances_eq:
  assumes "\<And>w p. w \<in> set ws \<Longrightarrow> free_balance N C b (bw_who w) \<noteq> Panic p"
    and "\<And>a. lb a = (case m a of None \<Rightarrow> None | Some r \<Rightarrow> (case free_balance N C b a of
      Ok (Some free) \<Rightarrow> if free < ra_threshold r then Some \<lparr>lb_name = ra_name r, lb_address = ra_address r,
        lb_balance = free, lb_threshold = ra_threshold r\<rparr> else None | _ \<Rightarrow> None))"
  shows "check_balances N C b m ws checked alerts =
    Ok (alerts @ List.map_filter lb (filter (\<lambda>a. a \<notin> checked) (first_occurrences (map bw_who ws))))"
  using assms(1)
proof (induction ws arbitrary: checked alerts)
  case Nil
  then show ?case by (simp add: List.map_filter_simps)
next
  case (Cons w ws)
  let ?a = "bw_who w"
  have IH: "check_balances N C b m ws ch al =
      Ok (al @ List.map_filter lb (filter (\<lambda>a. a \<notin> ch) (first_occurrences (map bw_who ws))))" for ch al
    by (rule Cons.IH) (use Cons.prems in auto)
  show ?case
  proof (cases "m ?a")
    case None
    then have "lb ?a = None" by (simp add: assms(2))
    with None IH show ?thesis
      by (simp add: List.map_filter_simps map_filter_skip)
  next
    case (Some r)
    have neq: "free_balance N C b ?a \<noteq> Panic p" for p using Cons.prems by simp
    show ?thesis
    proof (cases "?a \<in> checked")
      case True
      then have "filter (\<lambda>y. y \<noteq> ?a \<and> y \<notin> checked) xs = filter (\<lambda>y. y \<notin> checked) xs" for xs
        by (metis (mono_tags, lifting) filter_cong)
      with True Some IH show ?thesis by simp
    next
      case False
      have "filter (\<lambda>y. y \<notin> insert ?a checked) xs = filter (\<lambda>y. y \<noteq> ?a \<and> y \<notin> checked) xs" for xs
        by (rule filter_cong) auto
      with False Some IH neq assms(2) [of ?a] show ?thesis
        by (auto simp: List.map_filter_simps split: result.splits option.splits)
    qed
  qed
qed

text \<open>
  C17: the low-balance check of a block equals its reference definition: every watched account with
  a withdrawal in the block is checked once, in the order of its first withdrawal, and an alert
  is raised exactly when its free balance is read and lies below the configured number of whole
  tokens times ten to the number of decimals, with the name and address configured last for the
  account and with no overflow in the threshold.
\<close>

theorem low_balance_alerts_exact:
  assumes "build_balance_alert_map parse cfg d = Ok m"
    and "\<And>w p. w \<in> set ws \<Longrightarrow> free_balance N C b (bw_who w) \<noteq> Panic p"
  shows "check_low_balances N C b ws m = Ok (List.map_filter
    (\<lambda>a. low_balance_of parse cfg d (free_balance N C b a) a) (first_occurrences (map bw_who ws)))"
proof -
  have "low_balance_of parse cfg d (free_balance N C b a) a =
      (case m a of None \<Rightarrow> None | Some r \<Rightarrow> (case free_balance N C b a of
      Ok (Some free) \<Rightarrow> if free < ra_threshold r then Some \<lparr>lb_name = ra_name r, lb_address = ra_address r,
        lb_balance = free, lb_threshold = ra_threshold r\<rparr> else None | _ \<Rightarrow> None))" for a
  proof (cases "find (\<lambda>c. parse (ba_address c) = Some a) (rev cfg)")
    case None
    then show ?thesis using balance_alert_map_Ok [OF assms(1), of a] by (simp add: low_balance_of_def)
  next
    case (Some c)
    with balance_alert_map_Ok [OF assms(1), of a] obtain r where r: "m a = Some r" "ra_name r = ba_name c"
      "ra_address r = ba_address c" and t: "unat (ra_threshold r) = unat (ba_threshold_ai3 c) * 10 ^ unat d" by auto
    have "ra_threshold r = of_nat (unat (ba_threshold_ai3 c) * 10 ^ unat d)"
      unfolding t [symmetric] by simp
    with Some r t show ?thesis
      by (simp add: low_balance_of_def word_less_nat_alt split: result.splits option.splits)
  qed
  from check_balances_eq [OF assms(2) this] show ?thesis
    by (simp add: check_low_balances_def)
qed

definition ex_low_client :: alert_client where
  "ex_low_client = \<lparr>
     cl_node = \<lparr>rpc_block_hash = (\<lambda>_. Ok None), rpc_header = (\<lambda>_. Ok None)\<rparr>,
     cl_fetch = (\<lambda>_ _ _ a. if a = 9 then Ok None else Ok (Some (enc_account scale_enc (0, 0, 1, 0) (if a = 7 then 4999 else 5000, 0, 0, 0)))),
     cl_iter = (\<lambda>_ _ _. Ok []), cl_value = (\<lambda>_ _. Ok None), cl_events = (\<lambda>_. Ok []),
     cl_decode_events = (\<lambda>_. []), cl_constant = (\<lambda>_ _. Ok 2), cl_twox_128 = (\<lambda>_. []),
     cl_encode_u32 = (\<lambda>n. [ucast n]), cl_system_chain = Ok ''mainnet'',
     cl_system_properties = Ok (\<lambda>_. None)\<rparr>"

definition ex_parse :: "string \<Rightarrow> account_id option" where
  "ex_parse s = (if s = ''st7'' then Some 7 else if s = ''st8'' then Some 8 else if s = ''st9'' then Some 9 else None)"

lemma ex_free_balance:
  "free_balance ex_low_client scale b a = Ok (if a = 9 then None else Some (if a = 7 then 4999 else 5000))"
proof -
  have "decode_value (decode_account_info scale) (enc_account scale_enc (0, 0, 1, 0) (x, 0, 0, 0)) =
      Ok \<lparr>si_data = \<lparr>sa_free = x\<rparr>\<rparr>" for x
    using decode_value_reads [where rest = "[]", OF scale_format.reads_account [of "(0, 0, 1, 0)" x "(0, 0, 0)"]] by simp
  then show ?thesis by (simp add: free_balance_def try_read_storage_def ex_low_client_def)
qed

definition ex_watch :: "balance_alert list" where
  "ex_watch = [\<lparr>ba_name = ''seven'', ba_address = ''st7'', ba_threshold_ai3 = 5\<rparr>,
     \<lparr>ba_name = ''eight'', ba_address = ''st8'', ba_threshold_ai3 = 5\<rparr>,
     \<lparr>ba_name = ''nine'', ba_address = ''st9'', ba_threshold_ai3 = 5\<rparr>]"

definition ex_paid :: "account_id \<Rightarrow> balance_withdraw" where
  "ex_paid a = \<lparr>bw_who = a, bw_amount = 1\<rparr>"

lemma ex_balance_map: "\<exists>m. build_balance_alert_map ex_parse ex_watch 3 = Ok m"
  by (simp add: build_balance_alert_map_def pow10_u128_def ex_watch_def resolve_alert_def parse_address_def
      ex_parse_def mul_checked_def)

theorem low_balance_alerts_exact_witness:
  "\<exists>m. build_balance_alert_map ex_parse ex_watch 3 = Ok m \<and>
     check_low_balances ex_low_client scale ex_block [ex_paid 8, ex_paid 7, ex_paid 7, ex_paid 9, ex_paid 2] m =
       Ok [\<lparr>lb_name = ''seven'', lb_address = ''st7'', lb_balance = 4999, lb_threshold = 5000\<rparr>]"
proof -
  obtain m where m: "build_balance_alert_map ex_parse ex_watch 3 = Ok m" using ex_balance_map by blast
  have "free_balance ex_low_client scale ex_block (bw_who w) \<noteq> Panic p" for w p by (simp add: ex_free_balance)
  from low_balance_alerts_exact [OF m this, of "[ex_paid 8, ex_paid 7, ex_paid 7, ex_paid 9, ex_paid 2]"] m show ?thesis
    by (simp add: ex_paid_def ex_free_balance low_balance_of_def ex_watch_def ex_parse_def List.map_filter_simps)
qed

subsection \<open>Every monitored event is reported\<close>

text \<open>The alert due for one event of a block, for each kind of event by itself.\<close>

definition reported :: "transfer_direction \<Rightarrow> transfer_type \<Rightarrow> u128 \<Rightarrow> account \<Rightarrow> event" where
  "reported dir ty x a = EvTransfer \<lparr>tk_direction = dir, tk_transfer_type = ty, tk_name = ac_name a,
     tk_address = ac_address a, tk_amount = x\<rparr>"

fun alert_of :: "(account_id \<rightharpoonup> account) \<Rightarrow> chain_event \<Rightarrow> event option" where
  "alert_of A (Ce_BalanceTransfer (Ok t)) =
     (if bt_from t \<in> dom A then map_option (reported Sender Transfer (bt_amount t)) (A (bt_from t))
      else map_option (reported Receiver Transfer (bt_amount t)) (A (bt_to t)))"
| "alert_of A (Ce_BalanceDeposit (Ok t)) = map_option (reported Receiver Deposit (bp_amount t)) (A (bp_who t))"
| "alert_of A (Ce_BalanceWithdraw (Ok t)) = map_option (reported Sender Withdraw (bw_amount t)) (A (bw_who t))"
| "alert_of A (Ce_DomainRuntimeUpgraded (Ok i)) = Some (EvDomainRuntimeUpgraded i)"
| "alert_of A (Ce_DomainInstantiated (Ok d)) = Some (EvDomainInstantiated d)"
| "alert_of A (Ce_FraudProofProcessed (Ok e)) = Some (EvFraudProofProcessed (fp_domain_id e) (fp_new_head_receipt_number e))"
| "alert_of A (Ce_OperatorSlashed (Ok e)) = Some (EvOperatorSlashed (sl_operator_id e) (sl_reason e))"
| "alert_of A (Ce_OperatorOffline (Ok e)) = Some (EvOperatorOffline e)"
| "alert_of A (Ce_Sudo (Ok u)) = Some EvSudo"
| "alert_of A (Ce_CodeUpdated (Ok u)) = Some EvCodeUpdated"
| "alert_of A _ = None"

fun is_low_balance :: "event \<Rightarrow> bool" where
  "is_low_balance (EvLowBalance _) = True" | "is_low_balance _ = False"

text \<open>The events of one kind that decode.\<close>

definition decoded :: "'e ce_finder \<Rightarrow> (chain_event, shared_error) result list \<Rightarrow> 'e list" where
  "decoded f raw = List.map_filter (\<lambda>r. Option.bind (ok r) (\<lambda>ev. Option.bind (f ev) ok)) raw"

lemma find_all_decoded: "find_all f raw = Ok xs \<Longrightarrow> xs = decoded f raw"
proof -
  assume "find_all f raw = Ok xs"
  then have "find_events f raw = map Ok xs" by (simp add: find_all_def try_collect_Ok_iff)
  then show ?thesis
    unfolding find_events_def decoded_def
    by (induction raw arbitrary: xs) (auto simp: List.map_filter_simps split: result.splits option.splits)
qed

lemma as_alert_events_decoded: "as_alert_events f into raw = Ok xs \<Longrightarrow> xs = map into (decoded f raw)"
  by (auto simp: as_alert_events_def dest: find_all_decoded)

lemma mset_alerts:
  "mset (List.map_filter (alert_of A) (List.map_filter ok raw)) =
     mset (map EvTransfer (List.map_filter (known_transfer A) (map balance_transfer_event (decoded as_balance_transfer raw)))) +
     mset (map EvTransfer (List.map_filter (known_transfer A) (map deposit_transfer (decoded as_balance_deposit raw)))) +
     mset (map EvTransfer (List.map_filter (known_transfer A) (map withdraw_transfer (decoded as_balance_withdraw raw)))) +
     mset (map EvDomainRuntimeUpgraded (decoded as_runtime_upgraded raw)) +
     mset (map EvDomainInstantiated (decoded as_domain_instantiated raw)) +
     mset (map (\<lambda>e. EvFraudProofProcessed (fp_domain_id e) (fp_new_head_receipt_number e)) (decoded as_fraud_proof raw)) +
     mset (map (\<lambda>e. EvOperatorSlashed (sl_operator_id e) (sl_reason e)) (decoded as_operator_slashed raw)) +
     mset (map EvOperatorOffline (decoded as_operator_offline raw)) +
     mset (map (\<lambda>_. EvSudo) (decoded as_sudo raw)) + mset (map (\<lambda>_. EvCodeUpdated) (decoded as_code_updated raw))"
proof (induction raw)
  case Nil
  then show ?case by (simp add: decoded_def List.map_filter_simps)
next
  case (Cons r raw)
  show ?case
  proof (cases "ok r")
    case None
    then show ?thesis using Cons by (simp add: decoded_def List.map_filter_simps)
  next
    case (Some ev)
    show ?thesis
      by (cases "(A, ev)" rule: alert_of.cases)
        (use Some Cons in \<open>auto simp: decoded_def List.map_filter_simps known_transfer_def reported_def
          balance_transfer_event_def deposit_transfer_def withdraw_transfer_def split: option.splits\<close>)
  qed
qed

lemma no_low_balance:
  "(\<And>x. \<not> is_low_balance (f x)) \<Longrightarrow> filter (\<lambda>e. \<not> is_low_balance e) (map f xs) = map f xs"
  by (induction xs) auto

lemma low_balances_only: "filter (\<lambda>e. \<not> is_low_balance e) (map EvLowBalance xs) = []"
  by (induction xs) auto

text \<open>
  C16: a block's alerts lose and invent no event: apart from the low-balance alerts they are, as a
  multiset, the alerts due for the block's events one by one, so that each transfer, deposit or
  withdrawal that touches a known account is reported exactly once, as sent if the sender is
  known and as received otherwise, and each of the other monitored events exactly once.
\<close>

theorem block_alerts_exact:
  assumes "block_alert_events N C accounts m b = Ok evs" and "cl_events N (be_hash b) = Ok raw"
  shows "mset (filter (\<lambda>e. \<not> is_low_balance e) evs) =
    mset (List.map_filter (alert_of accounts) (List.map_filter ok raw))"
proof -
  from assms obtain lows where "evs = map EvTransfer
        (List.map_filter (known_transfer accounts) (map balance_transfer_event (decoded as_balance_transfer raw)) @
         List.map_filter (known_transfer accounts) (map deposit_transfer (decoded as_balance_deposit raw)) @
         List.map_filter (known_transfer accounts) (map withdraw_transfer (decoded as_balance_withdraw raw))) @
      map EvLowBalance lows @ map EvDomainRuntimeUpgraded (decoded as_runtime_upgraded raw) @
      map EvDomainInstantiated (decoded as_domain_instantiated raw) @
      map (\<lambda>e. EvFraudProofProcessed (fp_domain_id e) (fp_new_head_receipt_number e)) (decoded as_fraud_proof raw) @
      map (\<lambda>e. EvOperatorSlashed (sl_operator_id e) (sl_reason e)) (decoded as_operator_slashed raw) @
      map EvOperatorOffline (decoded as_operator_offline raw) @ map (\<lambda>_. EvSudo) (decoded as_sudo raw) @
      map (\<lambda>_. EvCodeUpdated) (decoded as_code_updated raw)"
    unfolding block_alert_events_def Let_def filter_known_account_transfers_def
    by (auto dest!: find_all_decoded as_alert_events_decoded)
  then show ?thesis
    unfolding mset_alerts by (simp add: no_low_balance low_balances_only del: mset_filter)
qed

definition ex_alert_client :: alert_client where
  "ex_alert_client = ex_low_client\<lparr>cl_events := (\<lambda>_. Ok [Ok (Ce_BalanceWithdraw (Ok (ex_paid 7))),
     Ok Ce_Other, Ok (Ce_Sudo (Ok ())), Ok (Ce_BalanceTransfer (Ok \<lparr>bt_from = 7, bt_to = 8, bt_amount = 20\<rparr>))])\<rparr>"

definition ex_accounts :: "account_id \<rightharpoonup> account" where
  "ex_accounts = [8 \<mapsto> \<lparr>ac_name = ''eight'', ac_address = ''st8''\<rparr>]"

lemma ex_block_alerts: "\<exists>evs. block_alert_events ex_alert_client scale ex_accounts Map.empty ex_block = Ok evs"
  by (simp add: block_alert_events_def ex_alert_client_def find_all_def find_events_def List.map_filter_simps
      check_low_balances_def ex_paid_def as_alert_events_def)

theorem block_alerts_exact_witness:
  "\<exists>evs. block_alert_events ex_alert_client scale ex_accounts Map.empty ex_block = Ok evs \<and>
     mset (filter (\<lambda>e. \<not> is_low_balance e) evs) = {#EvSudo, EvTransfer \<lparr>tk_direction = Receiver,
       tk_transfer_type = Transfer, tk_name = ''eight'', tk_address = ''st8'', tk_amount = 20\<rparr>#}"
proof -
  obtain evs where evs: "block_alert_events ex_alert_client scale ex_accounts Map.empty ex_block = Ok evs"
    using ex_block_alerts by blast
  have raw: "cl_events ex_alert_client (be_hash ex_block) = Ok [Ok (Ce_BalanceWithdraw (Ok (ex_paid 7))),
     Ok Ce_Other, Ok (Ce_Sudo (Ok ())), Ok (Ce_BalanceTransfer (Ok \<lparr>bt_from = 7, bt_to = 8, bt_amount = 20\<rparr>))]"
    by (simp add: ex_alert_client_def)
  have "mset (filter (\<lambda>e. \<not> is_low_balance e) evs) = {#EvSudo, EvTransfer \<lparr>tk_direction = Receiver,
       tk_transfer_type = Transfer, tk_name = ''eight'', tk_address = ''st8'', tk_amount = 20\<rparr>#}"
    unfolding block_alerts_exact [OF evs raw]
    by (simp add: List.map_filter_simps ex_paid_def reported_def ex_accounts_def)
  with evs show ?thesis by blast
qed

subsection \<open>The monitor\<close>

definition block_alerts ::
  "alert_client \<Rightarrow> codec \<Rightarrow> (account_id \<rightharpoonup> account) \<Rightarrow> (account_id \<rightharpoonup> resolved_balance_alert) \<Rightarrow> block_ext \<Rightarrow> alert list" where
  "block_alerts N C am bm b = (case block_alert_events N C am bm b of Ok es \<Rightarrow> map AlertEvent es | _ \<Rightarrow> [])"

definition readable ::
  "alert_client \<Rightarrow> codec \<Rightarrow> (account_id \<rightharpoonup> account) \<Rightarrow> (account_id \<rightharpoonup> resolved_balance_alert) \<Rightarrow> block_ext \<Rightarrow> bool" where
  "readable N C am bm b \<longleftrightarrow> ok (block_alert_events N C am bm b) \<noteq> None"

text \<open>The blocks of the messages received before the channel first fails.\<close>

fun received_blocks :: "(blocks_ext, recv_error) result list \<Rightarrow> block_ext list" where
  "received_blocks (Ok m # rs) = bx_blocks m @ received_blocks rs"
| "received_blocks _ = []"

lemma check_balances_no_Err: "check_balances N C b m ws checked alerts \<noteq> Err e"
  by (induction N C b m ws checked alerts rule: check_balances.induct) (auto split: option.splits result.splits)

lemma block_alert_events_Err:
  "block_alert_events N C am bm b = Err e \<Longrightarrow> \<exists>x. e = A_Subspace x"
  by (auto simp: block_alert_events_def Let_def find_all_def as_alert_events_def check_low_balances_def
      result_Err_iffs check_balances_no_Err)

lemma watch_blocks_run:
  "\<exists>r. for_prog bs (watch_block N C am bm) sent =
     (r, sent @ concat (map (block_alerts N C am bm) (takeWhile (readable N C am bm) bs))) \<and>
     (r = Ok () \<longleftrightarrow> list_all (readable N C am bm) bs) \<and> (\<forall>e. r = Err e \<longrightarrow> (\<exists>x. e = A_Subspace x))"
proof (induction bs arbitrary: sent)
  case Nil
  then show ?case by simp
next
  case (Cons b bs)
  show ?case
  proof (cases "block_alert_events N C am bm b")
    case (Ok es)
    with Cons [of "sent @ map AlertEvent es"] show ?thesis
      by (auto simp: then_prog_def watch_block_def bind_prog_def block_alerts_def readable_def)
  qed (auto simp: then_prog_def watch_block_def bind_prog_def readable_def dest: block_alert_events_Err)
qed

lemma watch_messages_run:
  "\<exists>r. for_prog inputs (watch_message N C am bm) sent =
     (r, sent @ concat (map (block_alerts N C am bm) (takeWhile (readable N C am bm) (received_blocks inputs)))) \<and>
     (r = Ok () \<longleftrightarrow> list_all (\<lambda>i. ok i \<noteq> None) inputs \<and> list_all (readable N C am bm) (received_blocks inputs)) \<and>
     (\<forall>e. r = Err e \<longrightarrow> (\<exists>x. e = A_Subspace x) \<or> (\<exists>x. e = A_BroadRecvErr x))"
proof (induction inputs arbitrary: sent rule: received_blocks.induct)
  case (1 m rs)
  let ?run = "\<lambda>bs. concat (map (block_alerts N C am bm) (takeWhile (readable N C am bm) bs))"
  obtain r where r: "for_prog (bx_blocks m) (watch_block N C am bm) sent = (r, sent @ ?run (bx_blocks m))"
    "r = Ok () \<longleftrightarrow> list_all (readable N C am bm) (bx_blocks m)" "\<And>e. r = Err e \<Longrightarrow> \<exists>x. e = A_Subspace x"
    using watch_blocks_run [of "bx_blocks m" N C am bm sent] by blast
  show ?case
  proof (cases "r = Ok ()")
    case True
    then have all: "takeWhile (readable N C am bm) (bx_blocks m @ bs) = bx_blocks m @ takeWhile (readable N C am bm) bs" for bs
      using r(2) by (simp add: takeWhile_append2 list_all_iff)
    have "takeWhile (readable N C am bm) (bx_blocks m) = bx_blocks m" using all [of "[]"] by simp
    with 1 [of "sent @ ?run (bx_blocks m)"] r True all show ?thesis
      by (auto simp: then_prog_def watch_message_def bind_prog_def)
  next
    case False
    then have "takeWhile (readable N C am bm) (bx_blocks m @ bs) = takeWhile (readable N C am bm) (bx_blocks m)" for bs
      using r(2) by (auto simp: list_all_iff takeWhile_append1)
    with False r show ?thesis
      by (cases r) (auto simp: then_prog_def watch_message_def bind_prog_def)
  qed
qed (auto simp: then_prog_def watch_message_def bind_prog_def)

text \<open>
  C27: the monitor sends, in the order of the blocks, exactly the alerts of the blocks received up
  to the first block whose events cannot be read, and nothing after it. It goes on as long as
  the channel delivers and every block can be read; otherwise it ends with the error of the
  channel or of the node, or with a panic.
\<close>

theorem watch_events_alerts:
  assumes "account_mapped_name parse accounts = Ok am" and "build_balance_alert_map parse cfg d = Ok bm"
  shows "\<exists>r. watch_events parse N C accounts cfg d inputs sent =
     (r, sent @ concat (map (block_alerts N C am bm) (takeWhile (readable N C am bm) (received_blocks inputs)))) \<and>
     (r = Ok () \<longleftrightarrow> list_all (\<lambda>i. ok i \<noteq> None) inputs \<and> list_all (readable N C am bm) (received_blocks inputs)) \<and>
     (\<forall>e. r \<noteq> Err e \<or> (\<exists>x. e = A_Subspace x) \<or> (\<exists>x. e = A_BroadRecvErr x))"
  using watch_messages_run [of inputs N C am bm sent] assms
  by (simp add: watch_events_def)

theorem watch_events_alerts_witness:
  "\<exists>r. watch_events ex_parse ex_alert_client scale [\<lparr>ac_name = ''eight'', ac_address = ''st8''\<rparr>] [] 3
       [Ok \<lparr>bx_blocks = [ex_block], bx_maybe_reorg_data = None\<rparr>, Err Closed] [] =
     (r, [AlertEvent (EvTransfer \<lparr>tk_direction = Receiver, tk_transfer_type = Transfer, tk_name = ''eight'',
        tk_address = ''st8'', tk_amount = 20\<rparr>), AlertEvent EvSudo]) \<and> r \<noteq> Ok ()"
proof -
  have am: "account_mapped_name ex_parse [\<lparr>ac_name = ''eight'', ac_address = ''st8''\<rparr>] = Ok ex_accounts"
    and bm: "build_balance_alert_map ex_parse [] 3 = Ok Map.empty"
    by (simp_all add: account_mapped_name_def parse_address_def ex_parse_def ex_accounts_def
        build_balance_alert_map_def pow10_u128_def fun_eq_iff)
  have evs: "block_alert_events ex_alert_client scale ex_accounts Map.empty ex_block = Ok [EvTransfer \<lparr>tk_direction = Receiver,
      tk_transfer_type = Transfer, tk_name = ''eight'', tk_address = ''st8'', tk_amount = 20\<rparr>, EvSudo]"
    by (simp add: block_alert_events_def ex_alert_client_def find_all_def find_events_def List.map_filter_simps
      check_low_balances_def ex_paid_def as_alert_events_def filter_known_account_transfers_def known_transfer_def
      ex_accounts_def balance_transfer_event_def withdraw_transfer_def)
  show ?thesis
    using watch_events_alerts [OF am bm, of ex_alert_client scale
        "[Ok \<lparr>bx_blocks = [ex_block], bx_maybe_reorg_data = None\<rparr>, Err Closed]" "[]"]
    by (simp add: readable_def evs block_alerts_def) blast
qed

end
