(* ===== verification/Md_Format.thy ===== *)
theory Md_Format
  imports Alert_Events
begin

section \<open>The text of alerts\<close>

text \<open>
  \<open>MdFormat\<close> of \<open>alerter/src/md_format.rs\<close>: the markdown text of every alert. The text of
  durations, hashes and decimals and the encoding of URLs come from third-party crates: they
  are the fields of the parameter \<open>format_lib\<close>. A decimal is represented by its text, and
  \<open>None\<close> stands for a conversion that panics. The locale \<open>format_library\<close> states what is
  relied on: a decimal holds the numbers below \<open>2 ^ 96\<close>, and hexadecimal text has a fixed
  length and determines the hash.
\<close>

record format_lib =
  fl_duration :: "duration \<Rightarrow> string"
  fl_urlencode :: "string \<Rightarrow> string"
  fl_hex :: "hash \<Rightarrow> string"
  fl_show_hash :: "hash \<Rightarrow> string"
  fl_decimal :: "u128 \<Rightarrow> string option"
  fl_decimal_div :: "string \<Rightarrow> string \<Rightarrow> string"

record format_config =
  fc_rpc_url :: string
  fc_token_name :: string
  fc_token_decimals :: u8

definition nl :: string where
  "nl = [CHR 0x0A]"

definition show_word :: "'a::len word \<Rightarrow> string" where
  "show_word n = show_nat (unat n)"

text \<open>\<open>Debug\<close> of \<open>DomainId\<close> and of a string without special characters.\<close>

definition debug_domain_id :: "u32 \<Rightarrow> string" where
  "debug_domain_id d = ''DomainId('' @ show_word d @ '')''"

definition debug_string :: "string \<Rightarrow> string" where
  "debug_string s = [CHR 0x22] @ s @ [CHR 0x22]"

primrec debug_direction :: "transfer_direction \<Rightarrow> string" where
  "debug_direction Sender = ''Sender''"
| "debug_direction Receiver = ''Receiver''"

primrec debug_transfer_type :: "transfer_type \<Rightarrow> string" where
  "debug_transfer_type Transfer = ''Transfer''"
| "debug_transfer_type Withdraw = ''Withdraw''"
| "debug_transfer_type Deposit = ''Deposit''"

subsection \<open>Blocks and balances\<close>

definition format_hash_and_number :: "format_lib \<Rightarrow> format_config \<Rightarrow> hash_and_number \<Rightarrow> string" where
  "format_hash_and_number L cfg b =
     (let link = ''https://polkadot.js.org/apps/?rpc='' @ fl_urlencode L (fc_rpc_url cfg) @
        ''#/explorer/query/0x'' @ fl_hex L (hn_hash b)
      in ''['' @ fl_show_hash L (hn_hash b) @ '']('' @ link @ '') ('' @ show_word (hn_number b) @ '')'')"

fun join :: "string \<Rightarrow> string list \<Rightarrow> string" where
  "join sep [] = []"
| "join sep [x] = x"
| "join sep (x # y # zs) = x @ sep @ join sep (y # zs)"

definition format_hash_and_number_list :: "format_lib \<Rightarrow> format_config \<Rightarrow> hash_and_number list \<Rightarrow> string" where
  "format_hash_and_number_list L cfg bs = join nl (map (\<lambda>b. ''- '' @ format_hash_and_number L cfg b) bs)"

definition format_balance :: "format_lib \<Rightarrow> format_config \<Rightarrow> u128 \<Rightarrow> (string, alerter_error) result" where
  "format_balance L cfg balance =
     bind_result (expect (fl_decimal L balance) ''invalid decimal'') (\<lambda>b.
     bind_result (pow10_u128 (unat (fc_token_decimals cfg))) (\<lambda>p.
     bind_result (expect (fl_decimal L p) ''invalid decimal'') (\<lambda>s.
     Ok (fl_decimal_div L b s @ '' '' @ fc_token_name cfg))))"

subsection \<open>Events\<close>

definition format_low_balance :: "format_lib \<Rightarrow> format_config \<Rightarrow> low_balance_event \<Rightarrow> (string, alerter_error) result" where
  "format_low_balance L cfg e =
     bind_result (format_balance L cfg (lb_balance e)) (\<lambda>balance.
     bind_result (format_balance L cfg (lb_threshold e)) (\<lambda>threshold.
     Ok (''**Low balance warning**'' @ nl @ ''Account: '' @ lb_name e @ '' ['' @ lb_address e @ '']'' @ nl @
       ''Balance: '' @ balance @ nl @ ''Threshold: '' @ threshold)))"

definition format_transfer ::
  "format_lib \<Rightarrow> format_config \<Rightarrow> transfer_known_account_event \<Rightarrow> (string, alerter_error) result" where
  "format_transfer L cfg e =
     bind_result (format_balance L cfg (tk_amount e)) (\<lambda>amount.
     Ok (''**Balance transfer**'' @ nl @ ''Direction: '' @ debug_direction (tk_direction e) @ nl @
       ''Type: '' @ debug_transfer_type (tk_transfer_type e) @ nl @
       ''Account: '' @ tk_name e @ ''['' @ tk_address e @ '']'' @ nl @ ''Amount:'' @ amount))"

primrec format_reason :: "format_lib \<Rightarrow> slashed_reason \<Rightarrow> string" where
  "format_reason L (InvalidBundle n) = ''Invalid bundle at block: '' @ show_word n"
| "format_reason L (BadExecutionReceipt h) = ''Bad execution receipt: 0x'' @ debug_string (fl_hex L h)"

primrec format_event :: "format_lib \<Rightarrow> format_config \<Rightarrow> event \<Rightarrow> (string, alerter_error) result" where
  "format_event L cfg (EvTransfer t) = format_transfer L cfg t"
| "format_event L cfg (EvLowBalance e) = format_low_balance L cfg e"
| "format_event L cfg (EvDomainRuntimeUpgraded i) =
     Ok (''**Domain runtime upgraded**'' @ nl @ ''Runtime ID: '' @ show_word i)"
| "format_event L cfg (EvDomainInstantiated d) =
     Ok (''**Domain instantiated**'' @ nl @ ''Domain ID: '' @ debug_domain_id d)"
| "format_event L cfg (EvFraudProofProcessed d head) = Ok (case head of
       Some n \<Rightarrow> ''**Fraud proof processed**'' @ nl @ ''Domain ID: '' @ debug_domain_id d @ nl @
         ''New head receipt number: '' @ show_word n
     | None \<Rightarrow> ''**Fraud proof processed**'' @ nl @ ''Domain ID: '' @ debug_domain_id d)"
| "format_event L cfg (EvOperatorSlashed i reason) =
     Ok (''**Operator slashed**'' @ nl @ ''Operator ID: '' @ show_word i @ nl @ ''Reason: '' @ format_reason L reason)"
| "format_event L cfg (EvOperatorOffline e) =
     Ok (''**Operator offline**'' @ nl @ ''Operator ID: '' @ show_word (oo_operator_id e) @ nl @
       ''Domain ID: '' @ debug_domain_id (oo_domain_id e) @ nl @
       ''Submitted bundles: '' @ show_word (oo_submitted_bundles e) @ nl @
       ''Expected bundles: '' @ show_word (oo_expected_bundles e) @ nl @
       ''Min required bundles: '' @ show_word (oo_min_required_bundles e))"
| "format_event L cfg EvSudo = Ok ''**Sudo event triggered**''"
| "format_event L cfg EvCodeUpdated = Ok ''**Runtime code updated**''"

subsection \<open>Alerts of the monitors\<close>

definition format_chain_recovery :: "format_lib \<Rightarrow> format_config \<Rightarrow> chain_recovery \<Rightarrow> string" where
  "format_chain_recovery L cfg r = ''**Block production resumed**'' @ nl @
     ''Best block: '' @ format_hash_and_number L cfg (cr_best_block r) @ nl @
     ''Resumed after: '' @ fl_duration L (cr_duration r)"

definition format_slow_slot :: "format_lib \<Rightarrow> slow_slot \<Rightarrow> string" where
  "format_slow_slot L s = ''**Slow slot**'' @ nl @ ''Slot: '' @ show_word (sl_slot s) @ nl @
     ''Previous slot: '' @ show_word (sl_previous_slot s) @ nl @
     ''Slot time: '' @ fl_duration L (sl_slot_time s) @ nl @ ''Threshold: '' @ fl_duration L (sl_threshold s)"

definition format_avg_slow_slot :: "format_lib \<Rightarrow> avg_slow_slot \<Rightarrow> string" where
  "format_avg_slow_slot L s = ''**Average Slow slots**'' @ nl @ ''Slot: '' @ show_word (as_slot s) @ nl @
     ''Slot count: '' @ show_nat (as_slot_count s) @ nl @
     ''Avg Slot time: '' @ fl_duration L (as_avg_slot_time s) @ nl @ ''Threshold: '' @ fl_duration L (as_threshold s)"

definition format_timekeeper_recovery :: "format_lib \<Rightarrow> timekeeper_recovery \<Rightarrow> string" where
  "format_timekeeper_recovery L r = ''**Timekeeper resumed**'' @ nl @ ''Slot: '' @ show_word (tr_slot r) @ nl @
     ''Resumed after: '' @ fl_duration L (tr_duration r)"

definition format_reorg :: "format_lib \<Rightarrow> format_config \<Rightarrow> chain_reorg \<Rightarrow> string" where
  "format_reorg L cfg r = ''**Chain reorg**'' @ nl @
     ''Best block: '' @ format_hash_and_number L cfg (co_best_block r) @ nl @
     ''Common block: '' @ format_hash_and_number L cfg (co_common_block r) @ nl @
     ''Retracted blocks:'' @ nl @ format_hash_and_number_list L cfg (co_retracted r) @ nl @
     ''Enacted blocks:'' @ nl @ format_hash_and_number_list L cfg (co_enacted r) @ nl @
     ''Reorg Depth: '' @ show_nat (length (co_retracted r))"

definition format_chain_stall :: "format_lib \<Rightarrow> format_config \<Rightarrow> chain_stall \<Rightarrow> string" where
  "format_chain_stall L cfg s = ''**Block production stalled**'' @ nl @
     ''Last block: '' @ format_hash_and_number L cfg (cs_last_block s) @ nl @
     ''Time since last block: '' @ fl_duration L (cs_duration s)"

definition format_timekeeper_stall :: "format_lib \<Rightarrow> timekeeper_stall \<Rightarrow> string" where
  "format_timekeeper_stall L s = ''**Timekeeper stalled**'' @ nl @ ''Last slot: '' @ show_word (ts_last_slot s) @ nl @
     ''Time since last block: '' @ fl_duration L (ts_duration s)"

primrec format_alert :: "format_lib \<Rightarrow> format_config \<Rightarrow> alert \<Rightarrow> (string, alerter_error) result" where
  "format_alert L cfg (AlertEvent e) = format_event L cfg e"
| "format_alert L cfg (AlertChainStall s) = Ok (format_chain_stall L cfg s)"
| "format_alert L cfg (AlertChainRecovery r) = Ok (format_chain_recovery L cfg r)"
| "format_alert L cfg (AlertReorg r) = Ok (format_reorg L cfg r)"
| "format_alert L cfg (AlertTimekeeperStall s) = Ok (format_timekeeper_stall L s)"
| "format_alert L cfg (AlertTimekeeperRecovery r) = Ok (format_timekeeper_recovery L r)"
| "format_alert L cfg (AlertSlowSlot s) = Ok (format_slow_slot L s)"
| "format_alert L cfg (AlertAvgSlowSlots s) = Ok (format_avg_slow_slot L s)"

subsection \<open>Which alerts have a text\<close>

fun alert_fits :: "alert \<Rightarrow> bool" where
  "alert_fits (AlertEvent (EvTransfer t)) \<longleftrightarrow> unat (tk_amount t) < 2 ^ 96"
| "alert_fits (AlertEvent (EvLowBalance e)) \<longleftrightarrow> unat (lb_balance e) < 2 ^ 96 \<and> unat (lb_threshold e) < 2 ^ 96"
| "alert_fits _ \<longleftrightarrow> True"

lemma pow10_fits:
  assumes "unat d \<le> 28"
  shows "\<exists>p. pow10_u128 (unat (d :: u8)) = Ok p \<and> unat p < 2 ^ 96"
proof -
  have "(10::nat) ^ unat d \<le> 10 ^ 28" using assms by (intro power_increasing) auto
  also have "(10::nat) ^ 28 < 2 ^ 96" by simp
  finally have lt: "(10::nat) ^ unat d < 2 ^ 96" .
  then have "(10::nat) ^ unat d < 2 ^ 128" by (rule less_trans) simp
  with unat_of_nat_small [of "10 ^ unat d", where 'a = 128] lt show ?thesis
    by (simp add: pow10_u128_def)
qed

lemma tail_inject:
  assumes "p @ h @ s @ c # n @ e = p' @ h' @ s @ c # n' @ e" and "c \<notin> set n" and "c \<notin> set n'"
    and "length h = length h'"
  shows "h = h' \<and> n = n'"
proof -
  have "(p @ h @ s) @ c # n = (p' @ h' @ s) @ c # n'" using assms(1) by simp
  then have "rev n @ c # rev (p @ h @ s) = rev n' @ c # rev (p' @ h' @ s)"
    by (metis append_assoc append_Cons append_Nil rev.simps(2) rev_append)
  then have "n = n'" and "rev h @ rev p = rev h' @ rev p'"
    using append_cons_notin_eq [of c "rev n" "rev n'" "rev (p @ h @ s)" "rev (p' @ h' @ s)"] assms(2,3) by auto
  then show ?thesis using assms(4) by (simp add: append_eq_append_conv)
qed

locale format_library =
  fixes L :: format_lib
  assumes decimal_fits: "fl_decimal L x \<noteq> None \<longleftrightarrow> unat x < 2 ^ 96"
    and hex_length: "length (fl_hex L h) = 64"
    and hex_inject: "fl_hex L h = fl_hex L h' \<Longrightarrow> h = h'"
begin

lemma format_balance_Ok_iff:
  assumes "unat (fc_token_decimals cfg) \<le> 28"
  shows "(\<exists>t. format_balance L cfg x = Ok t) \<longleftrightarrow> unat x < 2 ^ 96"
proof -
  obtain p where "pow10_u128 (unat (fc_token_decimals cfg)) = (Ok p :: (_, alerter_error) result)" "unat p < 2 ^ 96"
    using pow10_fits [OF assms] pow10_u128_def by metis
  then show ?thesis
    using decimal_fits [of x] decimal_fits [of p] by (auto simp: format_balance_def)
qed

lemma format_alert_Ok_iff:
  assumes "unat (fc_token_decimals cfg) \<le> 28"
  shows "(\<exists>t. format_alert L cfg a = Ok t) \<longleftrightarrow> alert_fits a"
proof -
  note b = format_balance_Ok_iff [OF assms]
  have low: "(\<exists>t. format_low_balance L cfg e = Ok t) \<longleftrightarrow>
      (\<exists>t. format_balance L cfg (lb_balance e) = Ok t) \<and> (\<exists>t. format_balance L cfg (lb_threshold e) = Ok t)" for e
    unfolding format_low_balance_def bind_result_Ok_iff result.inject by blast
  have transfer: "(\<exists>t. format_transfer L cfg e = Ok t) \<longleftrightarrow> (\<exists>t. format_balance L cfg (tk_amount e) = Ok t)" for e
    unfolding format_transfer_def bind_result_Ok_iff result.inject by blast
  have "(\<exists>t. format_event L cfg e = Ok t) \<longleftrightarrow> alert_fits (AlertEvent e)" for e
    using b low transfer by (cases e) (simp_all only: format_event.simps alert_fits.simps result.inject ex_simps simp_thms)
  then show ?thesis by (cases a) auto
qed

lemma format_hash_and_number_inject:
  assumes "format_hash_and_number L cfg b = format_hash_and_number L cfg b'"
  shows "b = b'"
proof -
  let ?pre = "\<lambda>b. ''['' @ fl_show_hash L (hn_hash b) @ '']('' @ ''https://polkadot.js.org/apps/?rpc='' @
    fl_urlencode L (fc_rpc_url cfg) @ ''#/explorer/query/0x''"
  have split: "format_hash_and_number L cfg b =
      ?pre b @ fl_hex L (hn_hash b) @ '') '' @ CHR ''('' # show_word (hn_number b) @ '')''" for b
    by (simp add: format_hash_and_number_def)
  have notin: "CHR ''('' \<notin> set (show_word n)" for n :: u32
    using show_nat_chars [of "CHR ''(''" "unat n"] by (auto simp: show_word_def)
  have "fl_hex L (hn_hash b) = fl_hex L (hn_hash b') \<and> show_word (hn_number b) = show_word (hn_number b')"
    by (rule tail_inject [OF assms [unfolded split] notin notin]) (simp add: hex_length)
  then have "hn_number b = hn_number b'" "fl_hex L (hn_hash b) = fl_hex L (hn_hash b')"
    by (auto simp: show_word_def word_unat_eq_iff)
  then show ?thesis using hex_inject by (intro hash_and_number.equality) auto
qed

end

subsection \<open>A concrete library\<close>

definition hex_digit :: "nat \<Rightarrow> char" where
  "hex_digit d = char_of (if d < 10 then 48 + d else 87 + d)"

definition hex_byte :: "u8 \<Rightarrow> string" where
  "hex_byte b = [hex_digit (unat b div 16), hex_digit (unat b mod 16)]"

definition plain_format :: format_lib where
  "plain_format = \<lparr>fl_duration = (\<lambda>d. show_nat d @ ''ns''), fl_urlencode = (\<lambda>s. s),
     fl_hex = (\<lambda>h. concat (map hex_byte (rev (to_le 32 (unat h))))), fl_show_hash = (\<lambda>h. show_nat (unat h)),
     fl_decimal = (\<lambda>x. if unat x < 2 ^ 96 then Some (show_nat (unat x)) else None),
     fl_decimal_div = (\<lambda>a b. a @ ''/'' @ b)\<rparr>"

lemma hex_digit_inject:
  assumes "a < 16" and "b < 16" and "hex_digit a = hex_digit b"
  shows "a = b"
proof -
  have code: "of_char (hex_digit d) = (if d < 10 then 48 + d else 87 + d)" if "d < 16" for d :: nat
    using that by (simp add: hex_digit_def)
  have "(if a < 10 then 48 + a else 87 + a) = (if b < 10 then 48 + b else 87 + b)"
    using code [OF assms(1)] code [OF assms(2)] assms(3) by simp
  then show ?thesis using assms(1,2) by (auto split: if_splits)
qed

lemma hex_byte_inject: "hex_byte a = hex_byte b \<Longrightarrow> a = b"
proof -
  assume eq: "hex_byte a = hex_byte b"
  have lt: "unat x < 256" for x :: u8 using unsigned_less [of x, where 'a = nat] by simp
  have "unat a div 16 = unat b div 16"
    by (rule hex_digit_inject) (use eq lt [of a] lt [of b] in \<open>simp_all add: hex_byte_def less_mult_imp_div_less\<close>)
  moreover have "unat a mod 16 = unat b mod 16"
    by (rule hex_digit_inject) (use eq in \<open>simp_all add: hex_byte_def\<close>)
  ultimately have "unat a = unat b" by (metis div_mult_mod_eq)
  then show ?thesis by (simp add: word_unat_eq_iff)
qed

lemma concat_hex_inject:
  "length xs = length ys \<Longrightarrow> concat (map hex_byte xs) = concat (map hex_byte ys) \<Longrightarrow> xs = ys"
proof (induction rule: list_induct2)
  case (Cons x xs y ys)
  then have "hex_byte x = hex_byte y" "concat (map hex_byte xs) = concat (map hex_byte ys)"
    by (auto simp: hex_byte_def)
  then show ?case using Cons.IH hex_byte_inject by blast
qed simp

lemma length_concat_hex: "length (concat (map hex_byte xs)) = 2 * length xs"
  by (induction xs) (simp_all add: hex_byte_def)

interpretation plain_format: format_library plain_format
proof
  show "fl_decimal plain_format x \<noteq> None \<longleftrightarrow> unat x < 2 ^ 96" for x
    by (simp add: plain_format_def)
  show "length (fl_hex plain_format h) = 64" for h
    unfolding plain_format_def format_lib.simps length_concat_hex by simp
  show "h = h'" if "fl_hex plain_format h = fl_hex plain_format h'" for h h'
  proof -
    have "rev (to_le 32 (unat h)) = rev (to_le 32 (unat h'))"
      by (rule concat_hex_inject) (use that in \<open>simp_all only: plain_format_def format_lib.simps length_rev length_to_le\<close>)
    then have "of_le (to_le 32 (unat h)) = of_le (to_le 32 (unat h'))" by simp
    moreover have "unat x < 256 ^ 32" for x :: hash using unsigned_less [of x, where 'a = nat] by simp
    ultimately show ?thesis by (simp only: of_le_to_le mod_less word_unat_eq_iff)
  qed
qed

end
