(* ===== verification/Slack.thy ===== *)
theory Slack
  imports Md_Format
begin

section \<open>Posting alerts to Slack\<close>

text \<open>
  \<open>alerter/src/slack.rs\<close>: the secret read from a file, the configuration of the bot, and the
  loop that formats the alerts of its channel and posts them. The file system's answers, the
  outcome of the authentication test and of each post are inputs; the requests made are the
  state. The secret is ASCII text.
\<close>

unbundle bit_operations_syntax

subsection \<open>The secret\<close>

record slack_secret =
  sk_token :: string
  sk_team_id :: string

text \<open>The modes \<open>0o400\<close> and \<open>0o600\<close>; the mask of the mode bits is \<open>0o777\<close>.\<close>

definition USER_READ_ONLY :: u32 where
  "USER_READ_ONLY = 256"

definition USER_READ_WRITE :: u32 where
  "USER_READ_WRITE = 384"

definition is_whitespace :: "char \<Rightarrow> bool" where
  "is_whitespace c \<longleftrightarrow> of_char c \<in> {9, 10, 11, 12, 13, 32 :: nat}"

definition trim :: "string \<Rightarrow> string" where
  "trim s = rev (dropWhile is_whitespace (rev (dropWhile is_whitespace s)))"

definition slack_secret_new ::
  "string \<Rightarrow> string \<Rightarrow> (u32, string) result \<Rightarrow> (string, string) result \<Rightarrow> (slack_secret, alerter_error) result" where
  "slack_secret_new path team_id metadata contents =
     bind_result (map_err A_Io metadata) (\<lambda>secret_perms.
     if secret_perms AND 511 = USER_READ_ONLY \<or> secret_perms AND 511 = USER_READ_WRITE then
       bind_result (map_err A_Io contents) (\<lambda>text.
       let secret = trim text in
       if secret = [] then Err (A_Config ''Slack Secret cannot be empty'')
       else Ok \<lparr>sk_token = secret, sk_team_id = team_id\<rparr>)
     else Panic (path @ '' must be readable only by the user running this process''))"

subsection \<open>The alerter\<close>

record slack_config =
  slack_team_id :: string
  slack_bot_name :: string
  slack_bot_icon :: string
  slack_channel_name :: string
  slack_secret_path :: string

record slack_alerter =
  sa_bot_name :: string
  sa_bot_icon :: string
  sa_channel_name :: string
  sa_secret :: slack_secret

definition channel_of :: "string \<Rightarrow> string" where
  "channel_of name = ''#'' @ (case name of c # rest \<Rightarrow> if c = CHR ''#'' then rest else name | [] \<Rightarrow> name)"

definition slack_alerter_new ::
  "slack_config \<Rightarrow> (u32, string) result \<Rightarrow> (string, string) result \<Rightarrow> (slack_alerter, alerter_error) result" where
  "slack_alerter_new config metadata contents =
     bind_result (slack_secret_new (slack_secret_path config) (slack_team_id config) metadata contents) (\<lambda>secret.
     Ok \<lparr>sa_bot_name = slack_bot_name config, sa_bot_icon = slack_bot_icon config,
       sa_channel_name = channel_of (slack_channel_name config), sa_secret = secret\<rparr>)"

record post_request =
  pr_channel :: string
  pr_markdown :: string
  pr_icon_emoji :: string
  pr_username :: string
  pr_unfurl_links :: bool

definition post_request_of :: "slack_alerter \<Rightarrow> string \<Rightarrow> string \<Rightarrow> post_request" where
  "post_request_of s version text = \<lparr>pr_channel = sa_channel_name s, pr_markdown = text,
     pr_icon_emoji = sa_bot_icon s, pr_username = sa_bot_name s @ ''('' @ version @ '')'',
     pr_unfurl_links = False\<rparr>"

text \<open>
  One iteration: the channel is closed, or it delivers an alert, and \<open>posted\<close> is the answer
  of Slack to the request that is made for it. A failed post is only written to the log file.
\<close>

fun slack_step ::
  "format_lib \<Rightarrow> format_config \<Rightarrow> slack_alerter \<Rightarrow> string \<Rightarrow> (alert \<times> (unit, string) result) option \<Rightarrow>
     (post_request list, unit, alerter_error) prog" where
  "slack_step L cfg s version None requests = (Err (A_App ''Slack stream closed''), requests)"
| "slack_step L cfg s version (Some (alert, posted)) requests =
     (case format_alert L cfg alert of
        Ok text \<Rightarrow> (case posted of
            Panic p \<Rightarrow> (Panic p, requests @ [post_request_of s version text])
          | _ \<Rightarrow> (Ok (), requests @ [post_request_of s version text]))
      | Err e \<Rightarrow> (Err e, requests)
      | Panic p \<Rightarrow> (Panic p, requests))"

definition slack_run ::
  "format_lib \<Rightarrow> format_config \<Rightarrow> slack_alerter \<Rightarrow> string \<Rightarrow> (unit, string) result \<Rightarrow>
     (alert \<times> (unit, string) result) option list \<Rightarrow> (post_request list, unit, alerter_error) prog" where
  "slack_run L cfg s version auth_test inputs =
     then_prog (lift_result (map_err A_Slack auth_test)) (for_prog inputs (slack_step L cfg s version))"

subsection \<open>Properties\<close>

text \<open>
  A secret that is accepted was readable by no one but its owner: no permission bit of the
  group or of others is set on its file; and it is not empty and has no white space around it.
\<close>

theorem secret_is_private:
  assumes "slack_secret_new path team metadata contents = Ok s"
  shows "\<exists>perms. metadata = Ok perms \<and> perms AND 63 = 0 \<and> sk_token s \<noteq> [] \<and>
    \<not> is_whitespace (hd (sk_token s)) \<and> \<not> is_whitespace (last (sk_token s))"
proof -
  from assms obtain perms body where p: "metadata = Ok perms" "contents = Ok body"
    and mode: "perms AND 511 = 256 \<or> perms AND 511 = 384" and s: "sk_token s = trim body" "trim body \<noteq> []"
    by (auto simp: slack_secret_new_def Let_def USER_READ_ONLY_def USER_READ_WRITE_def split: if_splits)
  have "perms AND 63 = (perms AND 511) AND 63" by (simp add: and.assoc)
  also have "\<dots> = 0" using mode by auto
  finally have bits: "perms AND 63 = 0" .
  let ?d = "dropWhile is_whitespace body"
  have ne: "?d \<noteq> []" using s(2) unfolding trim_def by (metis dropWhile.simps(1) rev.simps(1))
  have "\<not> is_whitespace (last (trim body))"
    using s(2) hd_dropWhile [of is_whitespace "rev ?d"] by (auto simp: trim_def last_rev)
  moreover have "hd (trim body) = hd ?d"
  proof -
    obtain ws where "rev ?d = ws @ dropWhile is_whitespace (rev ?d)" by (metis takeWhile_dropWhile_id)
    then have "?d = trim body @ rev ws" by (metis rev_append rev_rev_ident trim_def)
    then show ?thesis using s(2) by (metis hd_append2)
  qed
  moreover have "\<not> is_whitespace (hd ?d)" using ne by (rule hd_dropWhile)
  ultimately show ?thesis using p bits s by auto
qed

theorem secret_is_private_witness:
  "\<exists>s. slack_secret_new ''/slack-secret'' ''T1'' (Ok 33152) (Ok '' abc '') = Ok s \<and> sk_token s = ''abc'' \<and> 33152 AND (63 :: u32) = 0"
proof -
  have run: "slack_secret_new ''/slack-secret'' ''T1'' (Ok 33152) (Ok '' abc '') = Ok \<lparr>sk_token = ''abc'', sk_team_id = ''T1''\<rparr>"
    by (simp add: slack_secret_new_def USER_READ_ONLY_def USER_READ_WRITE_def trim_def is_whitespace_def)
  from secret_is_private [OF run] run show ?thesis by auto
qed

lemma slack_posts:
  assumes "format_library L" and "unat (fc_token_decimals cfg) \<le> 28" and "list_all alert_fits (map fst xs)"
    and "list_all (\<lambda>x. \<forall>p. snd x \<noteq> Panic p) xs"
  shows "\<exists>texts. map (\<lambda>x. format_alert L cfg (fst x)) xs = map Ok texts \<and>
    for_prog (map Some xs) (slack_step L cfg s version) requests = (Ok (), requests @ map (post_request_of s version) texts)"
  using assms(3,4)
proof (induction xs arbitrary: requests)
  case Nil
  then show ?case by simp
next
  case (Cons x xs)
  obtain a r where x: "x = (a, r)" by (cases x)
  from Cons.prems x obtain t where t: "format_alert L cfg a = Ok t"
    using format_library.format_alert_Ok_iff [OF assms(1,2)] by auto
  from Cons.IH [of "requests @ [post_request_of s version t]"] Cons.prems obtain texts where
    "map (\<lambda>x. format_alert L cfg (fst x)) xs = map Ok texts"
    "for_prog (map Some xs) (slack_step L cfg s version) (requests @ [post_request_of s version t]) =
      (Ok (), requests @ post_request_of s version t # map (post_request_of s version) texts)" by auto
  with t x Cons.prems show ?case
    by (intro exI [of _ "t # texts"]) (cases r; simp add: then_prog_Ok)
qed

lemma slack_posts_prefix:
  assumes "format_library L" and "unat (fc_token_decimals cfg) \<le> 28" and "list_all (\<lambda>x. \<forall>p. snd x \<noteq> Panic p) xs"
  shows "\<exists>texts outcome. map (format_alert L cfg) (takeWhile alert_fits (map fst xs)) = map Ok texts \<and>
    for_prog (map Some xs) (slack_step L cfg s version) requests = (outcome, requests @ map (post_request_of s version) texts) \<and>
    (outcome = Ok () \<longleftrightarrow> list_all alert_fits (map fst xs))"
proof -
  let ?ys = "takeWhile (\<lambda>x. alert_fits (fst x)) xs" and ?zs = "dropWhile (\<lambda>x. alert_fits (fst x)) xs"
  have split: "xs = ?ys @ ?zs" by simp
  have "list_all alert_fits (map fst ?ys)" "list_all (\<lambda>x. \<forall>p. snd x \<noteq> Panic p) ?ys"
    using assms(3) by (auto simp: list_all_iff dest: set_takeWhileD)
  from slack_posts [OF assms(1,2) this, of s version requests] obtain texts where
    texts: "map (\<lambda>x. format_alert L cfg (fst x)) ?ys = map Ok texts"
    "for_prog (map Some ?ys) (slack_step L cfg s version) requests = (Ok (), requests @ map (post_request_of s version) texts)"
    by blast
  have fmt: "map (format_alert L cfg) (takeWhile alert_fits (map fst xs)) = map Ok texts"
    using texts(1) by (simp add: takeWhile_map o_def)
  have run: "for_prog (map Some xs) (slack_step L cfg s version) requests =
      for_prog (map Some ?zs) (slack_step L cfg s version) (requests @ map (post_request_of s version) texts)"
    by (subst split) (simp only: map_append for_prog_append then_prog_def bind_prog_def texts(2) prod.case result.case)
  show ?thesis
  proof (cases ?zs)
    case Nil
    then have "\<forall>x \<in> set xs. alert_fits (fst x)" by (simp add: dropWhile_eq_Nil_conv)
    with fmt run [unfolded Nil] show ?thesis
      by (intro exI [of _ texts] exI [of _ "Ok ()"]) (simp add: list_all_iff ret_def)
  next
    case (Cons z zs)
    obtain a p where z: "z = (a, p)" by (cases z)
    have "\<not> alert_fits a" using Cons z by (metis dropWhile_eq_Cons_conv fst_conv)
    then have no: "format_alert L cfg a \<noteq> Ok t" for t
      using format_library.format_alert_Ok_iff [OF assms(1,2)] by blast
    have "z \<in> set xs" using Cons by (metis list.set_intros(1) set_dropWhileD)
    with z \<open>\<not> alert_fits a\<close> have "\<not> list_all alert_fits (map fst xs)" by (force simp: list_all_iff)
    with Cons z no fmt run show ?thesis
      by (cases "format_alert L cfg a") (auto simp: then_prog_def bind_prog_def)
  qed
qed


definition ex_format :: format_config where
  "ex_format = \<lparr>fc_rpc_url = ''wss://rpc'', fc_token_name = ''AI3'', fc_token_decimals = 18\<rparr>"

definition ex_slack :: slack_alerter where
  "ex_slack = \<lparr>sa_bot_name = ''bot'', sa_bot_icon = ''robot_face'', sa_channel_name = ''#alerts'',
     sa_secret = \<lparr>sk_token = ''abc'', sk_team_id = ''T1''\<rparr>\<rparr>"


end
