(* ===== verification/Peer_Network.thy ===== *)
theory Peer_Network
  imports Slots
begin

section \<open>The peer-to-peer network\<close>

text \<open>
  The handling of events by \<open>Network\<close> of \<open>alerter/src/p2p_network.rs\<close>: which peers are
  authorities and which full nodes, and the proofs of time that are passed on to the slot
  monitor. The swarm is libp2p's: what it is asked to do, to dial an address, to remember the
  address of a peer, to look for peers, is a log of the state, and what it reports are the
  inputs. A failed dial is only written to the log file. Peers are of any type \<open>'p\<close>; an
  address is the sequence of its protocols.
\<close>

datatype protocol_role = FullNode | LightNode | Authority

datatype 'p protocol = P2p 'p | OtherProtocol string

type_synonym 'p multiaddr = "'p protocol list"

datatype 'm notifications_event =
    ProtocolOpen 'm protocol_role
  | ProtocolClosed 'm
  | Notification 'm gossip_proof

datatype 'p swarm_event =
    RoutablePeer 'p "'p multiaddr"
  | OtherDiscovery
  | PotNotifications "'p notifications_event"
  | BlockAnnounce "'p notifications_event"
  | ConnectionLimitsEvent
  | ConnectionClosed 'p u32
  | OtherSwarmEvent

record 'p network =
  nw_authorities :: "'p set"
  nw_fullnodes :: "'p set"
  nw_pot_sink :: "pot_info list"
  nw_dialed :: "'p multiaddr list"
  nw_addresses :: "('p \<times> 'p multiaddr) list"
  nw_queries :: nat

definition network_new :: "'p network" where
  "network_new = \<lparr>nw_authorities = {}, nw_fullnodes = {}, nw_pot_sink = [], nw_dialed = [],
     nw_addresses = [], nw_queries = 0\<rparr>"

fun add_peer_role :: "'p \<Rightarrow> protocol_role \<Rightarrow> 'p network \<Rightarrow> 'p network" where
  "add_peer_role peer FullNode n = n\<lparr>nw_authorities := nw_authorities n - {peer},
     nw_fullnodes := insert peer (nw_fullnodes n)\<rparr>"
| "add_peer_role peer LightNode n = n"
| "add_peer_role peer Authority n = n\<lparr>nw_fullnodes := nw_fullnodes n - {peer},
     nw_authorities := insert peer (nw_authorities n)\<rparr>"

fun handle_event :: "instant \<Rightarrow> 'p swarm_event \<Rightarrow> 'p network \<Rightarrow> 'p network" where
  "handle_event now (RoutablePeer peer address) n = n\<lparr>nw_dialed := nw_dialed n @ [address]\<rparr>"
| "handle_event now (PotNotifications (ProtocolOpen peer_id role)) n = add_peer_role peer_id role n"
| "handle_event now (PotNotifications (ProtocolClosed peer_id)) n = n"
| "handle_event now (PotNotifications (Notification peer_id message)) n =
     n\<lparr>nw_pot_sink := nw_pot_sink n @ [\<lparr>pi_at = now, pi_proof = message\<rparr>]\<rparr>"
| "handle_event now (BlockAnnounce (ProtocolOpen peer_id role)) n = add_peer_role peer_id role n"
| "handle_event now (ConnectionClosed peer_id num_established) n =
     (if num_established = 0
      then n\<lparr>nw_authorities := nw_authorities n - {peer_id}, nw_fullnodes := nw_fullnodes n - {peer_id}\<rparr>
      else n)"
| "handle_event now _ n = n"

fun extract_peer_id :: "'p multiaddr \<Rightarrow> 'p option" where
  "extract_peer_id [] = None"
| "extract_peer_id (P2p peer_id # ps) = Some peer_id"
| "extract_peer_id (OtherProtocol _ # ps) = extract_peer_id ps"

primrec dial_bootnodes :: "'p multiaddr list \<Rightarrow> 'p network \<Rightarrow> 'p network" where
  "dial_bootnodes [] n = n"
| "dial_bootnodes (addr # addrs) n = dial_bootnodes addrs (n\<lparr>nw_dialed := nw_dialed n @ [addr],
     nw_addresses := nw_addresses n @
       (case extract_peer_id addr of None \<Rightarrow> [] | Some peer_id \<Rightarrow> [(peer_id, addr)])\<rparr>)"

text \<open>What \<open>select!\<close> of the loop yields: the discovery timer, or an event at a time.\<close>

datatype 'p network_input = DiscoveryTick | SwarmEvent instant "'p swarm_event"

fun network_step :: "'p network_input \<Rightarrow> 'p network \<Rightarrow> 'p network" where
  "network_step DiscoveryTick n = n\<lparr>nw_queries := Suc (nw_queries n)\<rparr>"
| "network_step (SwarmEvent now event) n = handle_event now event n"

definition network_run :: "'p multiaddr list \<Rightarrow> 'p network_input list \<Rightarrow> 'p network \<Rightarrow> 'p network" where
  "network_run bootnodes inputs n = fold network_step inputs (dial_bootnodes bootnodes n)"

subsection \<open>The abstract view\<close>

text \<open>The role of one peer, as the events about this peer alone give it.\<close>

fun role_event :: "'p \<Rightarrow> 'p network_input \<Rightarrow> protocol_role option \<Rightarrow> protocol_role option" where
  "role_event p (SwarmEvent now (PotNotifications (ProtocolOpen q role))) r =
     (if q = p \<and> role \<noteq> LightNode then Some role else r)"
| "role_event p (SwarmEvent now (BlockAnnounce (ProtocolOpen q role))) r =
     (if q = p \<and> role \<noteq> LightNode then Some role else r)"
| "role_event p (SwarmEvent now (ConnectionClosed q num)) r = (if q = p \<and> num = 0 then None else r)"
| "role_event p _ r = r"

fun forwarded :: "'p network_input \<Rightarrow> pot_info option" where
  "forwarded (SwarmEvent now (PotNotifications (Notification q m))) = Some \<lparr>pi_at = now, pi_proof = m\<rparr>"
| "forwarded _ = None"

fun routable :: "'p network_input \<Rightarrow> 'p multiaddr option" where
  "routable (SwarmEvent now (RoutablePeer q addr)) = Some addr"
| "routable _ = None"

definition role_in :: "'p network \<Rightarrow> 'p \<Rightarrow> protocol_role option" where
  "role_in n p = (if p \<in> nw_authorities n then Some Authority
     else if p \<in> nw_fullnodes n then Some FullNode else None)"

definition network_ok :: "'p network \<Rightarrow> bool" where
  "network_ok n \<longleftrightarrow> nw_authorities n \<inter> nw_fullnodes n = {}"

lemma add_peer_role_view:
  assumes "network_ok n"
  shows "network_ok (add_peer_role q role n)"
    and "role_in (add_peer_role q role n) p = (if q = p \<and> role \<noteq> LightNode then Some role else role_in n p)"
  using assms by (cases role; auto simp: network_ok_def role_in_def)+

lemma role_in_logs [simp]:
  "role_in (n\<lparr>nw_pot_sink := xs\<rparr>) = role_in n" "network_ok (n\<lparr>nw_pot_sink := xs\<rparr>) = network_ok n"
  by (simp_all add: role_in_def network_ok_def fun_eq_iff)

lemma handle_event_view:
  assumes "network_ok n"
  shows "network_ok (handle_event now ev n) \<and>
    (\<forall>p. role_in (handle_event now ev n) p = role_event p (SwarmEvent now ev) (role_in n p))"
proof (cases ev)
  case (PotNotifications e)
  then show ?thesis using assms
    by (cases e) (auto simp: add_peer_role_view)
next
  case (BlockAnnounce e)
  then show ?thesis using assms by (cases e) (auto simp: add_peer_role_view)
qed (use assms in \<open>auto simp: network_ok_def role_in_def\<close>)

lemma network_step_view:
  assumes "network_ok n"
  shows "network_ok (network_step i n) \<and> (\<forall>p. role_in (network_step i n) p = role_event p i (role_in n p))"
proof (cases i)
  case DiscoveryTick
  then show ?thesis using assms by (simp add: network_ok_def role_in_def)
next
  case (SwarmEvent now ev)
  then show ?thesis using handle_event_view [OF assms] by simp
qed

lemma add_peer_role_logs [simp]:
  "nw_pot_sink (add_peer_role q role n) = nw_pot_sink n" "nw_dialed (add_peer_role q role n) = nw_dialed n"
  "nw_addresses (add_peer_role q role n) = nw_addresses n"
  by (cases role; simp)+

lemma network_step_logs:
  "nw_pot_sink (network_step i n) = nw_pot_sink n @ (case forwarded i of None \<Rightarrow> [] | Some m \<Rightarrow> [m])"
  "nw_dialed (network_step i n) = nw_dialed n @ (case routable i of None \<Rightarrow> [] | Some a \<Rightarrow> [a])"
  "nw_addresses (network_step i n) = nw_addresses n"
proof -
  have *: "nw_pot_sink (handle_event now ev n) = nw_pot_sink n @ (case forwarded (SwarmEvent now ev) of None \<Rightarrow> [] | Some m \<Rightarrow> [m]) \<and>
      nw_dialed (handle_event now ev n) = nw_dialed n @ (case routable (SwarmEvent now ev) of None \<Rightarrow> [] | Some a \<Rightarrow> [a]) \<and>
      nw_addresses (handle_event now ev n) = nw_addresses n" for now ev
  proof (cases ev)
    case (PotNotifications e)
    then show ?thesis by (cases e) auto
  next
    case (BlockAnnounce e)
    then show ?thesis by (cases e) auto
  qed auto
  show "nw_pot_sink (network_step i n) = nw_pot_sink n @ (case forwarded i of None \<Rightarrow> [] | Some m \<Rightarrow> [m])"
    "nw_dialed (network_step i n) = nw_dialed n @ (case routable i of None \<Rightarrow> [] | Some a \<Rightarrow> [a])"
    "nw_addresses (network_step i n) = nw_addresses n"
    using * by (cases i; simp)+
qed

lemma fold_network_view:
  assumes "network_ok n"
  shows "network_ok (fold network_step inputs n) \<and>
    (\<forall>p. role_in (fold network_step inputs n) p = fold (role_event p) inputs (role_in n p)) \<and>
    nw_pot_sink (fold network_step inputs n) = nw_pot_sink n @ List.map_filter forwarded inputs \<and>
    nw_dialed (fold network_step inputs n) = nw_dialed n @ List.map_filter routable inputs \<and>
    nw_addresses (fold network_step inputs n) = nw_addresses n"
  using assms
proof (induction inputs arbitrary: n)
  case Nil
  then show ?case by (simp add: List.map_filter_simps)
next
  case (Cons i inputs)
  from network_step_view [OF Cons.prems, of i] have ok: "network_ok (network_step i n)"
    and view: "\<And>p. role_in (network_step i n) p = role_event p i (role_in n p)" by auto
  from Cons.IH [OF ok] show ?case
    by (auto simp: view network_step_logs List.map_filter_simps split: option.splits)
qed

lemma dial_bootnodes_fields:
  "nw_authorities (dial_bootnodes addrs n) = nw_authorities n" "nw_fullnodes (dial_bootnodes addrs n) = nw_fullnodes n"
  "nw_pot_sink (dial_bootnodes addrs n) = nw_pot_sink n" "nw_dialed (dial_bootnodes addrs n) = nw_dialed n @ addrs"
  by (induction addrs arbitrary: n) simp_all

text \<open>
  C28: the network's bookkeeping refines a view of each peer by itself: after any sequence of
  events, a peer is among the authorities, or among the full nodes, exactly if the last event
  that counts for this peer announced that role, where a light-node announcement changes nothing
  and the close of the peer's last connection forgets it; so no peer is in both sets. Every
  proof of time a peer sends is passed on once, in order, with the time of its arrival, and the
  dialled addresses are the boot nodes and then the routable peers discovered.
\<close>

theorem network_refines_roles:
  "(\<forall>p. (p \<in> nw_authorities (network_run bootnodes inputs network_new) \<longleftrightarrow>
       fold (role_event p) inputs None = Some Authority) \<and>
     (p \<in> nw_fullnodes (network_run bootnodes inputs network_new) \<longleftrightarrow>
       fold (role_event p) inputs None = Some FullNode)) \<and>
   nw_pot_sink (network_run bootnodes inputs network_new) = List.map_filter forwarded inputs \<and>
   nw_dialed (network_run bootnodes inputs network_new) = bootnodes @ List.map_filter routable inputs"
proof -
  let ?n = "dial_bootnodes bootnodes network_new"
  have "network_ok ?n" "role_in ?n p = None" for p
    by (simp_all add: network_ok_def role_in_def dial_bootnodes_fields network_new_def)
  with fold_network_view [of ?n inputs] have ok: "network_ok (network_run bootnodes inputs network_new)"
    and roles: "\<And>p. role_in (network_run bootnodes inputs network_new) p = fold (role_event p) inputs None"
    and logs: "nw_pot_sink (network_run bootnodes inputs network_new) = List.map_filter forwarded inputs"
      "nw_dialed (network_run bootnodes inputs network_new) = bootnodes @ List.map_filter routable inputs"
    by (auto simp: network_run_def dial_bootnodes_fields network_new_def)
  show ?thesis
    using ok logs by (auto simp: roles [symmetric] role_in_def network_ok_def)
qed

subsection \<open>Gossip reaches the slot monitor\<close>

text \<open>
  Several peers send the proof of the same slot. A group is the first proof of a slot that
  arrives with the copies that follow it.
\<close>

definition group_ok :: "pot_info \<times> pot_info list \<Rightarrow> bool" where
  "group_ok g \<longleftrightarrow> Suc (unat (gp_slot (pi_proof (fst g)))) < 2 ^ 64 \<and>
     list_all (\<lambda>c. gp_slot (pi_proof c) = gp_slot (pi_proof (fst g))) (snd g)"

definition stream_of :: "pot_info list \<Rightarrow> pot_info wait list" where
  "stream_of infos = map (\<lambda>i. Received (Ok i)) infos"

lemma on_slot_copy:
  assumes "sm_slots st \<noteq> []" and "gp_slot (pi_proof info) = gp_slot (sd_proof (last (sm_slots st)))"
    and "Suc (unat (gp_slot (pi_proof info))) < 2 ^ 64"
  shows "on_slot push cfg info st = (Ok (), st)"
proof -
  let ?a = "gp_slot (pi_proof info)"
  have "add_checked ?a 1 = (Ok (?a + 1) :: (u64, alerter_error) result)"
    using assms(3) by (simp add: add_checked_def)
  then show ?thesis
    using assms by (cases "sm_slots st") (auto simp: on_slot_def)
qed

context bounded_window
begin

lemma last_push: "length xs \<le> MAX_SLOTS \<Longrightarrow> push xs x \<noteq> [] \<and> last (push xs x) = x"
  by (simp add: push_window)

lemma extend_slots_last:
  assumes "extend_slots push cfg l info st = (Ok (), st')" and "window_ok (sm_slots st)"
  shows "sm_slots st' \<noteq> [] \<and> gp_slot (sd_proof (last (sm_slots st'))) = gp_slot (pi_proof info)"
proof -
  have "length (sm_slots st) \<le> MAX_SLOTS" using assms(2) by (simp add: window_ok_def)
  from last_push [OF this] assms(1) show ?thesis
    by (auto simp: extend_slots_def Let_def split: result.splits)
qed

lemma on_slot_then_copy:
  assumes "on_slot push cfg info st = (Ok (), st')" and "window_ok (sm_slots st)"
    and "gp_slot (pi_proof c) = gp_slot (pi_proof info)" and "Suc (unat (gp_slot (pi_proof info))) < 2 ^ 64"
  shows "on_slot push cfg c st' = (Ok (), st')"
proof (cases "sm_slots st")
  case Nil
  then have "sm_slots st' \<noteq> [] \<and> gp_slot (sd_proof (last (sm_slots st'))) = gp_slot (pi_proof info)"
    using assms(1) last_push [of "[]"] by (auto simp: on_slot_def)
  then show ?thesis using assms(3,4) by (intro on_slot_copy) auto
next
  case (Cons d ds)
  let ?l = "last (sm_slots st)"
  from assms(1) Cons obtain n where n: "add_checked (gp_slot (sd_proof ?l)) 1 = (Ok n :: (u64, alerter_error) result)"
    by (auto simp: on_slot_def Let_def split: result.splits)
  show ?thesis
  proof (cases "gp_slot (pi_proof info) = n")
    case True
    then have "extend_slots push cfg ?l info st = (Ok (), st')"
      using assms(1) Cons n by (simp add: on_slot_def Let_def)
    from extend_slots_last [OF this assms(2)] show ?thesis
      using assms(3,4) by (intro on_slot_copy) auto
  next
    case False
    then have "st' = st" using assms(1) Cons n by (simp add: on_slot_def Let_def)
    then show ?thesis using False assms(3) Cons n by (simp add: on_slot_def Let_def)
  qed
qed

lemma copies_ignored:
  assumes "on_slot push cfg info st = (Ok (), st')" and "window_ok (sm_slots st)" and "group_ok (info, cs)"
  shows "monitor_slots push cfg (stream_of cs) st' = (Ok (), st')"
proof -
  have "for_prog (stream_of cs) (slot_step push cfg) st' = (Ok (), st')"
    if "list_all (\<lambda>c. gp_slot (pi_proof c) = gp_slot (pi_proof info)) cs"
    using that
    by (induction cs) (use assms on_slot_then_copy in \<open>auto simp: stream_of_def then_prog_Ok group_ok_def\<close>)
  then show ?thesis using assms(3) by (simp add: monitor_slots_def group_ok_def)
qed

lemma groups_run:
  assumes "window_ok (sm_slots st)" and "list_all group_ok gs"
  shows "monitor_slots push cfg (stream_of (concat (map (\<lambda>(i, cs). i # cs) gs))) st =
    monitor_slots push cfg (stream_of (map fst gs)) st"
  using assms
proof (induction gs arbitrary: st)
  case Nil
  then show ?case by simp
next
  case (Cons g gs)
  obtain i cs where g: "g = (i, cs)" by (cases g)
  obtain r st1 where run: "on_slot push cfg i st = (r, st1)" by fastforce
  have ok1: "window_ok (sm_slots st1)"
    using step_window_ok [OF Cons.prems(1), of cfg "Received (Ok i)"] run by simp
  show ?case
  proof (cases "r = Ok ()")
    case True
    have "monitor_slots push cfg (stream_of cs) st1 = (Ok (), st1)"
      by (rule copies_ignored [OF _ Cons.prems(1)]) (use run True Cons.prems(2) g in auto)
    with True run Cons.IH [OF ok1] Cons.prems(2) show ?thesis
      by (simp add: monitor_slots_def stream_of_def g for_prog_append then_prog_Ok)
  next
    case False
    with run show ?thesis
      by (cases r) (simp_all add: monitor_slots_def stream_of_def g then_prog_def bind_prog_def)
  qed
qed

end

text \<open>
  What the loop of the monitor waits for, with its timer: it waits for the next proof for at most
  thirty seconds at a time, and every proof received and every timeout starts the wait anew.
  This is for a monitor that keeps up with the channel, so that a proof is received when it
  arrives: the channel holds 100 proofs, and a monitor that lags behind it ends with an error.
\<close>

fun timed_waits :: "instant \<Rightarrow> pot_info list \<Rightarrow> pot_info wait list" where
  "timed_waits since [] = []"
| "timed_waits since (i # infos) =
     replicate ((pi_at i - since) div SLOT_TIMEOUT) Elapsed @ Received (Ok i) # timed_waits (pi_at i) infos"

text \<open>Proofs that arrive less than the timeout apart.\<close>

fun keep_coming :: "instant \<Rightarrow> pot_info list \<Rightarrow> bool" where
  "keep_coming since [] \<longleftrightarrow> True"
| "keep_coming since (i # infos) \<longleftrightarrow> pi_at i < since + SLOT_TIMEOUT \<and> keep_coming (pi_at i) infos"

lemma timed_waits_stream: "keep_coming since infos \<Longrightarrow> timed_waits since infos = stream_of infos"
  by (induction infos arbitrary: since) (auto simp: stream_of_def SLOT_TIMEOUT_def from_secs_def)

text \<open>
  Slots that come on time: each first proof arrives less than the timeout after the one before,
  and the copies of a slot less than the timeout after its first proof.
\<close>

fun on_time :: "instant \<Rightarrow> (pot_info \<times> pot_info list) list \<Rightarrow> bool" where
  "on_time since [] \<longleftrightarrow> True"
| "on_time since ((i, cs) # gs) \<longleftrightarrow> pi_at i < since + SLOT_TIMEOUT \<and>
     list_all (\<lambda>c. pi_at i \<le> pi_at c \<and> pi_at c < pi_at i + SLOT_TIMEOUT) cs \<and> on_time (pi_at i) gs"

lemma keep_coming_append:
  "keep_coming since (xs @ ys) \<longleftrightarrow> keep_coming since xs \<and> keep_coming (if xs = [] then since else pi_at (last xs)) ys"
  by (induction xs arbitrary: since) auto

lemma keep_coming_later: "keep_coming since infos \<Longrightarrow> since \<le> later \<Longrightarrow> keep_coming later infos"
  by (cases infos) auto

lemma copies_keep_coming:
  "list_all (\<lambda>c. t \<le> pi_at c \<and> pi_at c < t + SLOT_TIMEOUT) cs \<Longrightarrow> t \<le> since \<Longrightarrow> keep_coming since cs"
  by (induction cs arbitrary: since) auto

lemma on_time_keep_coming:
  "on_time since gs \<Longrightarrow> keep_coming since (concat (map (\<lambda>(i, cs). i # cs) gs)) \<and> keep_coming since (map fst gs)"
proof (induction gs arbitrary: since)
  case (Cons g gs)
  obtain i cs where g: "g = (i, cs)" by (cases g)
  with Cons.prems have g': "pi_at i < since + SLOT_TIMEOUT" "on_time (pi_at i) gs"
    and cs: "list_all (\<lambda>c. pi_at i \<le> pi_at c \<and> pi_at c < pi_at i + SLOT_TIMEOUT) cs" by auto
  from Cons.IH [OF g'(2)] have rest: "keep_coming (pi_at i) (concat (map (\<lambda>(i, cs). i # cs) gs))" "keep_coming (pi_at i) (map fst gs)"
    by auto
  have "pi_at i \<le> pi_at (last (i # cs))" using cs by (simp add: list_all_iff)
  with rest(1) copies_keep_coming [OF cs order_refl] g'(1) have "keep_coming since (i # cs @ concat (map (\<lambda>(i, cs). i # cs) gs))"
    by (auto simp: keep_coming_append intro: keep_coming_later)
  with rest(2) g g'(1) show ?case by simp
qed simp


definition ex_gossip :: "instant \<Rightarrow> nat \<Rightarrow> u64 \<Rightarrow> nat network_input" where
  "ex_gossip now p s = SwarmEvent now (PotNotifications (Notification p
     \<lparr>gp_slot = s, gp_seed = [], gp_slot_iterations = 1, gp_checkpoints = []\<rparr>))"

definition ex_info :: "instant \<Rightarrow> u64 \<Rightarrow> pot_info" where
  "ex_info now s = \<lparr>pi_at = now, pi_proof = \<lparr>gp_slot = s, gp_seed = [], gp_slot_iterations = 1, gp_checkpoints = []\<rparr>\<rparr>"


text \<open>
  C39: copies do hide a stall: while proofs keep arriving less than thirty seconds apart, none of which
  is of the next slot, be they copies of the last slot or later slots after a missed one, the
  state of the monitor does not change at all: it raises no stall alert and no other, however
  long this goes on.
\<close>

theorem ignored_proofs_hide_stall:
  assumes "sm_slots st \<noteq> []" and "n = gp_slot (sd_proof (last (sm_slots st)))" and "unat n + 1 < 2 ^ 64"
    and "list_all (\<lambda>i. gp_slot (pi_proof i) \<noteq> n + 1) infos" and "keep_coming since infos"
  shows "monitor_slots push cfg (timed_waits since infos) st = (Ok (), st)"
proof -
  have "add_checked n 1 = (Ok (n + 1) :: (u64, alerter_error) result)" using assms(3) by (simp add: add_checked_def)
  then have "on_slot push cfg i st = (Ok (), st)" if "gp_slot (pi_proof i) \<noteq> n + 1" for i
    using that assms(1,2) by (cases "sm_slots st") (auto simp: on_slot_def Let_def)
  with assms(4) have "for_prog (stream_of infos) (slot_step push cfg) st = (Ok (), st)"
    by (induction infos) (auto simp: stream_of_def then_prog_Ok)
  then show ?thesis using assms(5) by (simp add: monitor_slots_def timed_waits_stream)
qed

theorem ignored_proofs_hide_stall_witness:
  "monitor_slots sliding_push ex_slots_cfg (timed_waits (from_secs 10) (map (\<lambda>k. ex_info (from_secs (10 + 20 * k)) 5) [1, 2, 3]))
     \<lparr>sm_timeout_fired = None, sm_last_instant = from_secs 10, sm_slots = [\<lparr>sd_proof = pi_proof (ex_info 0 5), sd_duration = 0\<rparr>], sm_alerts = []\<rparr> =
   (Ok (), \<lparr>sm_timeout_fired = None, sm_last_instant = from_secs 10, sm_slots = [\<lparr>sd_proof = pi_proof (ex_info 0 5), sd_duration = 0\<rparr>], sm_alerts = []\<rparr>)"
  by (rule ignored_proofs_hide_stall [of _ 5]) (simp_all add: ex_info_def SLOT_TIMEOUT_def from_secs_def)

end
