(* ===== verification/Processor.thy ===== *)
theory Processor
  imports Indexer_Types "HOL-Library.Multiset"
begin

section \<open>The block-processing loop\<close>

text \<open>
  \<open>run_processor\<close> of \<open>indexer/src/processor.rs\<close>. The loop receives a message of the listener,
  computes the range of blocks to index from the message and the last checkpoint, and indexes
  them with at most \<open>n\<close> blocks in flight; results are taken in the order of the blocks, and
  a checkpoint is written after every hundredth block and at the end of the range.

  Blocks in flight complete in any order, a checkpoint write may fail, reading the checkpoint
  may fail, and the process may be restarted at any moment. Which of these happens next is an
  explicit choice, of type \<open>sched\<close>; \<open>proc_next\<close> is the effect of one choice, \<open>None\<close> where it
  is not possible. What indexing one block does is a parameter of this theory: only its
  outcome matters here. \<open>pr_completed\<close> records every block whose indexing succeeded.
\<close>

definition CHECKPOINT_PROCESSED_BLOCK :: u32 where
  "CHECKPOINT_PROCESSED_BLOCK = 100"

definition is_multiple_of :: "u32 \<Rightarrow> u32 \<Rightarrow> bool" where
  "is_multiple_of a b \<longleftrightarrow> (if b = 0 then a = 0 else a mod b = 0)"

subsection \<open>The range of a message\<close>

definition block_range :: "u32 \<Rightarrow> block_ext list \<Rightarrow> (u32 \<times> u32, indexer_error) result" where
  "block_range last_processed blocks =
     (case blocks of
        [] \<Rightarrow> Panic ''should have more than one block''
      | [b] \<Rightarrow> bind_result (add_checked last_processed 1) (\<lambda>fr. Ok (fr, be_number b))
      | _ \<Rightarrow> bind_result (add_checked last_processed 1) (\<lambda>nxt.
          Ok (min (Min (set (map be_number blocks))) nxt, Max (set (map be_number blocks)))))"

subsection \<open>The loop as steps\<close>

datatype progress = Running | Finished "(unit, indexer_error) result"

datatype phase =
    Receiving
  | Indexing u32 "u32 list" "(u32 \<times> progress) list"
  | Stopped "(unit, indexer_error) result"

record proc =
  pr_checkpoint :: "u32 option"
  pr_phase :: phase
  pr_completed :: "u32 list"

datatype sched =
    Got "(blocks_ext, recv_error) result" bool
  | Start
  | Complete nat "(unit, indexer_error) result"
  | Yield "db_error option"
  | Finish "db_error option"
  | Restart

definition proc_init :: proc where
  "proc_init = \<lparr>pr_checkpoint = None, pr_phase = Receiving, pr_completed = []\<rparr>"

definition last_processed :: "proc \<Rightarrow> bool \<Rightarrow> u32" where
  "last_processed p readable = (if readable then case_option 0 id (pr_checkpoint p) else 0)"

definition on_message :: "(blocks_ext, recv_error) result \<Rightarrow> bool \<Rightarrow> proc \<Rightarrow> proc" where
  "on_message m readable p = (case m of
     Err (Lagged k) \<Rightarrow> p
   | Err e \<Rightarrow> p\<lparr>pr_phase := Stopped (Err (I_BroadRecvErr e))\<rparr>
   | Panic s \<Rightarrow> p\<lparr>pr_phase := Stopped (Panic s)\<rparr>
   | Ok msg \<Rightarrow> (case block_range (last_processed p readable) (bx_blocks msg) of
       Ok (fr, till) \<Rightarrow> if till < fr then p else p\<lparr>pr_phase := Indexing till (range_incl fr till) []\<rparr>
     | Err e \<Rightarrow> p\<lparr>pr_phase := Stopped (Err e)\<rparr>
     | Panic s \<Rightarrow> p\<lparr>pr_phase := Stopped (Panic s)\<rparr>))"

text \<open>Writing a checkpoint: on success the loop goes on in the given phase, else it stops.\<close>

definition write_checkpoint :: "db_error option \<Rightarrow> u32 \<Rightarrow> phase \<Rightarrow> proc \<Rightarrow> proc" where
  "write_checkpoint fault b ph p = (case fault of
     None \<Rightarrow> p\<lparr>pr_checkpoint := Some b, pr_phase := ph\<rparr>
   | Some e \<Rightarrow> p\<lparr>pr_phase := Stopped (Err (I_DB e))\<rparr>)"

definition complete :: "nat \<Rightarrow> (unit, indexer_error) result \<Rightarrow> u32 \<Rightarrow> u32 list \<Rightarrow> (u32 \<times> progress) list \<Rightarrow> proc \<Rightarrow> proc" where
  "complete i r till todo flight p = p\<lparr>pr_phase := Indexing till todo (flight[i := (fst (flight ! i), Finished r)]),
     pr_completed := (if r = Ok () then pr_completed p @ [fst (flight ! i)] else pr_completed p)\<rparr>"

fun yield_next :: "db_error option \<Rightarrow> u32 \<Rightarrow> u32 list \<Rightarrow> (u32 \<times> progress) list \<Rightarrow> proc \<Rightarrow> proc option" where
  "yield_next fault till todo ((b, Finished (Ok ())) # flight) p =
     Some (if is_multiple_of b CHECKPOINT_PROCESSED_BLOCK
       then write_checkpoint fault b (Indexing till todo flight) p
       else p\<lparr>pr_phase := Indexing till todo flight\<rparr>)"
| "yield_next fault till todo ((b, Finished (Err e)) # flight) p = Some (p\<lparr>pr_phase := Stopped (Err e)\<rparr>)"
| "yield_next fault till todo ((b, Finished (Panic s)) # flight) p = Some (p\<lparr>pr_phase := Stopped (Panic s)\<rparr>)"
| "yield_next fault till todo _ p = None"

definition proc_next :: "nat \<Rightarrow> sched \<Rightarrow> proc \<Rightarrow> proc option" where
  "proc_next n c p = (case c of
     Restart \<Rightarrow> Some (p\<lparr>pr_phase := Receiving\<rparr>)
   | Got m readable \<Rightarrow> (if pr_phase p = Receiving then Some (on_message m readable p) else None)
   | Start \<Rightarrow> (case pr_phase p of
       Indexing till (b # todo) flight \<Rightarrow> if length flight < n
         then Some (p\<lparr>pr_phase := Indexing till todo (flight @ [(b, Running)])\<rparr>) else None
     | _ \<Rightarrow> None)
   | Complete i r \<Rightarrow> (case pr_phase p of
       Indexing till todo flight \<Rightarrow> if i < length flight \<and> snd (flight ! i) = Running
         then Some (complete i r till todo flight p) else None
     | _ \<Rightarrow> None)
   | Yield fault \<Rightarrow> (case pr_phase p of
       Indexing till todo flight \<Rightarrow> yield_next fault till todo flight p | _ \<Rightarrow> None)
   | Finish fault \<Rightarrow> (case pr_phase p of
       Indexing till [] [] \<Rightarrow> Some (write_checkpoint fault till Receiving p) | _ \<Rightarrow> None))"

primrec run_processor :: "nat \<Rightarrow> sched list \<Rightarrow> proc \<Rightarrow> proc option" where
  "run_processor n [] p = Some p"
| "run_processor n (c # cs) p = Option.bind (proc_next n c p) (run_processor n cs)"

inductive reachable :: "nat \<Rightarrow> proc \<Rightarrow> bool" for n where
  init: "reachable n proc_init"
| step: "reachable n p \<Longrightarrow> proc_next n c p = Some p' \<Longrightarrow> reachable n p'"

lemma reachable_run: "reachable n p \<Longrightarrow> run_processor n cs p = Some p' \<Longrightarrow> reachable n p'"
  by (induction cs arbitrary: p) (auto intro: reachable.step split: bind_splits)

subsection \<open>The invariant\<close>

definition done_until :: "proc \<Rightarrow> nat \<Rightarrow> bool" where
  "done_until p x \<longleftrightarrow> (\<forall>b. 1 \<le> b \<and> b < x \<longrightarrow> of_nat b \<in> set (pr_completed p))"

text \<open>
  The blocks in flight and to do are a contiguous run up to the end of the range, and every
  block before it is done; what is finished with success is recorded.
\<close>

definition phase_ok :: "nat \<Rightarrow> proc \<Rightarrow> bool" where
  "phase_ok n p \<longleftrightarrow> (case pr_phase p of
     Indexing till todo flight \<Rightarrow> length flight \<le> n \<and>
       (\<exists>x. map fst flight @ todo = map of_nat [x..<Suc (unat till)] \<and> x \<le> Suc (unat till) \<and> done_until p x) \<and>
       (\<forall>b. (b, Finished (Ok ())) \<in> set flight \<longrightarrow> b \<in> set (pr_completed p))
   | _ \<Rightarrow> True)"

definition proc_ok :: "nat \<Rightarrow> proc \<Rightarrow> bool" where
  "proc_ok n p \<longleftrightarrow> phase_ok n p \<and>
     (case pr_checkpoint p of None \<Rightarrow> True | Some c \<Rightarrow> done_until p (Suc (unat c)))"

lemma done_until_mono: "done_until p x \<Longrightarrow> y \<le> x \<Longrightarrow> done_until p y"
  by (auto simp: done_until_def)

lemma block_range_le:
  assumes "block_range last_done blocks = Ok (fr, till)"
  shows "unat fr \<le> Suc (unat last_done)"
proof (cases blocks rule: list.exhaust)
  case Nil
  with assms show ?thesis by (simp add: block_range_def)
next
  case (Cons b bs)
  with assms obtain nxt where nxt: "add_checked last_done 1 = (Ok nxt :: (u32, indexer_error) result)" and "fr \<le> nxt"
    by (cases bs) (auto simp: block_range_def)
  moreover have "unat nxt = Suc (unat last_done)" using nxt by (auto simp: add_checked_Ok_iff)
  ultimately show ?thesis by (simp add: word_le_nat_alt)
qed

lemma message_ok:
  assumes "proc_ok n p" and "pr_phase p = Receiving"
  shows "proc_ok n (on_message m readable p)"
proof -
  have idle: "proc_ok n (p\<lparr>pr_phase := Stopped r\<rparr>)" for r
    using assms by (simp add: proc_ok_def phase_ok_def done_until_def cong: option.case_cong)
  have index: "proc_ok n (p\<lparr>pr_phase := Indexing till (range_incl fr till) []\<rparr>)"
    if r: "block_range (last_processed p readable) bs = Ok (fr, till)" and le: "\<not> till < fr" for bs fr till
  proof -
    have "done_until p (Suc (unat (last_processed p readable)))"
      using assms(1) by (auto simp: last_processed_def proc_ok_def done_until_def split: option.splits)
    then have "done_until p (unat fr)" using block_range_le [OF r] by (rule done_until_mono)
    moreover have "unat fr \<le> Suc (unat till)" using le by (simp add: word_less_nat_alt)
    ultimately have "phase_ok n (p\<lparr>pr_phase := Indexing till (range_incl fr till) []\<rparr>)"
      by (auto simp: phase_ok_def range_incl_def done_until_def intro!: exI [of _ "unat fr"])
    then show ?thesis using assms(1) by (simp add: proc_ok_def done_until_def cong: option.case_cong)
  qed
  show ?thesis
    using assms(1) idle index by (auto simp: on_message_def split: result.splits recv_error.splits)
qed

lemma start_ok:
  assumes "proc_ok n p" and "pr_phase p = Indexing till (b # todo) flight" and "length flight < n"
  shows "proc_ok n (p\<lparr>pr_phase := Indexing till todo (flight @ [(b, Running)])\<rparr>)"
  using assms by (auto simp: proc_ok_def phase_ok_def done_until_def split: option.splits)

lemma complete_ok:
  assumes "proc_ok n p" and "pr_phase p = Indexing till todo flight" and "i < length flight"
  shows "proc_ok n (complete i r till todo flight p)"
proof -
  have fst: "map fst (flight[i := (fst (flight ! i), Finished r)]) = map fst flight"
    using assms(3) by (simp add: map_update) (metis assms(3) list_update_id map_update nth_map length_map)
  have mem: "b \<in> set (pr_completed (complete i r till todo flight p))"
    if "(b, Finished (Ok ())) \<in> set (flight[i := (fst (flight ! i), Finished r)])" for b
  proof -
    from that have "(b, Finished (Ok ())) = (fst (flight ! i), Finished r) \<or> (b, Finished (Ok ())) \<in> set flight"
      using set_update_subset_insert [of flight i] by blast
    then show ?thesis
      using assms(1,2) by (auto simp: complete_def proc_ok_def phase_ok_def)
  qed
  have "done_until (complete i r till todo flight p) x" if "done_until p x" for x
    using that by (auto simp: done_until_def complete_def)
  then show ?thesis
    using assms(1,2) mem unfolding proc_ok_def phase_ok_def
    by (auto simp: complete_def fst split: option.splits)
qed

lemma write_checkpoint_ok:
  assumes "phase_ok n (p\<lparr>pr_phase := ph\<rparr>)" and "done_until p (Suc (unat b))" and "proc_ok n p"
  shows "proc_ok n (write_checkpoint fault b ph p)"
  using assms
  by (auto simp: write_checkpoint_def proc_ok_def phase_ok_def done_until_def
      split: option.splits phase.splits)

lemma pending_Cons:
  assumes "b # bs = (map of_nat [x..<Suc (unat (till :: u32))] :: u32 list)"
  shows "b = of_nat x \<and> bs = map of_nat [Suc x..<Suc (unat till)] \<and> x \<le> unat till \<and> unat b = x"
proof -
  have lt: "x < Suc (unat till)"
  proof (rule ccontr)
    assume "\<not> x < Suc (unat till)"
    then have "[x..<Suc (unat till)] = []" by simp
    with assms show False by (simp del: upt_Suc)
  qed
  then have "b # bs = of_nat x # map of_nat [Suc x..<Suc (unat till)]"
    using assms by (simp add: upt_conv_Cons del: upt_Suc)
  moreover have "unat (of_nat x :: u32) = x"
    using lt le_unat_bound [of x till] by (intro unat_of_nat_small) simp
  ultimately show ?thesis using lt by simp
qed

lemma yield_ok:
  assumes "proc_ok n p" and "pr_phase p = Indexing till todo flight"
    and "yield_next fault till todo flight p = Some p'"
  shows "proc_ok n p'"
proof -
  have stop: "proc_ok n (p\<lparr>pr_phase := Stopped r\<rparr>)" for r
    using assms(1) by (simp add: proc_ok_def phase_ok_def done_until_def cong: option.case_cong)
  obtain b r flight' where fl: "flight = (b, Finished r) # flight'"
  proof (cases flight)
    case (Cons f fs)
    then show ?thesis using assms(3) that by (cases f; cases "snd f") auto
  qed (use assms(3) in simp)
  show ?thesis
  proof (cases r)
    case (Ok u)
    obtain x where x: "map fst flight @ todo = map of_nat [x..<Suc (unat till)]" "x \<le> Suc (unat till)"
      "done_until p x" and len: "length flight \<le> n"
      and fin: "\<forall>b. (b, Finished (Ok ())) \<in> set flight \<longrightarrow> b \<in> set (pr_completed p)"
      using assms(1,2) by (auto simp: proc_ok_def phase_ok_def)
    have "b # (map fst flight' @ todo) = map of_nat [x..<Suc (unat till)]" using x(1) fl by simp
    note pend = pending_Cons [OF this]
    have "b \<in> set (pr_completed p)" using fin fl Ok by auto
    then have dn: "done_until p (Suc x)"
      using x(3) pend by (auto simp: done_until_def less_Suc_eq)
    have ph: "phase_ok n (p\<lparr>pr_phase := Indexing till todo flight'\<rparr>)"
      using pend dn len fin fl
      by (auto simp: phase_ok_def done_until_def intro!: exI [of _ "Suc x"] simp del: upt_Suc)
    then have "proc_ok n (p\<lparr>pr_phase := Indexing till todo flight'\<rparr>)"
      using assms(1) by (simp add: proc_ok_def done_until_def cong: option.case_cong)
    moreover have "proc_ok n (write_checkpoint fault b (Indexing till todo flight') p)"
    proof (rule write_checkpoint_ok [OF ph _ assms(1)])
      have "unat b = x" using pend by blast
      with dn show "done_until p (Suc (unat b))" by (simp only:)
    qed
    ultimately show ?thesis using assms(3) fl Ok by (auto split: if_splits)
  qed (use assms(3) fl stop in auto)
qed

lemma finish_ok:
  assumes "proc_ok n p" and "pr_phase p = Indexing till [] []"
  shows "proc_ok n (write_checkpoint fault till Receiving p)"
proof (rule write_checkpoint_ok)
  obtain x where "[] = (map of_nat [x..<Suc (unat till)] :: u32 list)" "x \<le> Suc (unat till)" "done_until p x"
    using assms by (auto simp: proc_ok_def phase_ok_def)
  moreover from this have "x = Suc (unat till)" by (simp split: if_splits)
  ultimately show "done_until p (Suc (unat till))" by simp
qed (simp_all add: phase_ok_def assms(1))

lemma proc_next_ok:
  assumes "proc_ok n p" and "proc_next n c p = Some p'"
  shows "proc_ok n p'"
proof (cases c)
  case Restart
  with assms show ?thesis
    by (auto simp: proc_next_def proc_ok_def phase_ok_def done_until_def split: option.splits)
next
  case (Got m readable)
  with assms show ?thesis by (auto simp: proc_next_def message_ok split: if_splits)
next
  case Start
  with assms show ?thesis
    by (auto simp: proc_next_def start_ok split: phase.splits list.splits if_splits)
next
  case (Complete i r)
  with assms show ?thesis
    by (auto simp: proc_next_def complete_ok split: phase.splits if_splits)
next
  case (Yield fault)
  with assms show ?thesis by (auto simp: proc_next_def yield_ok split: phase.splits)
next
  case (Finish fault)
  with assms show ?thesis
    by (auto simp: proc_next_def finish_ok split: phase.splits list.splits)
qed

lemma reachable_ok: "reachable n p \<Longrightarrow> proc_ok n p"
proof (induction rule: reachable.induct)
  case init
  then show ?case by (simp add: proc_ok_def phase_ok_def proc_init_def)
next
  case (step p c p')
  then show ?case by (blast intro: proc_next_ok)
qed

subsection \<open>Properties\<close>

text \<open>
  C2: in every state the loop can reach, with any number of blocks in flight, any order of
  completion, any failures and any restarts, the stored checkpoint never passes a block that
  was not indexed: every block from 1 up to the checkpoint was indexed with success.
\<close>

theorem checkpoint_never_skips:
  assumes "reachable n p" and "pr_checkpoint p = Some c" and "1 \<le> b" and "b \<le> c"
  shows "b \<in> set (pr_completed p)"
proof -
  have "done_until p (Suc (unat c))"
    using reachable_ok [OF assms(1)] assms(2) by (simp add: proc_ok_def)
  moreover have "1 \<le> unat b" "unat b \<le> unat c"
    using assms(3,4) by (simp_all add: word_le_nat_alt)
  ultimately have "of_nat (unat b) \<in> set (pr_completed p)"
    unfolding done_until_def by (metis le_imp_less_Suc)
  then show ?thesis by simp
qed

definition ex_msg_at :: "u32 list \<Rightarrow> blocks_ext" where
  "ex_msg_at ns = \<lparr>bx_blocks = map (\<lambda>i. \<lparr>be_number = i, be_hash = 0, be_parent_hash = 0,
     be_state_root = 0, be_extrinsics_root = 0\<rparr>) ns, bx_maybe_reorg_data = None\<rparr>"

definition ex_schedule :: "sched list" where
  "ex_schedule = [Got (Ok (ex_msg_at [2])) True, Start, Start, Complete 1 (Ok ()), Complete 0 (Ok ()),
     Yield None, Yield None, Finish None]"

lemma range_1_2: "range_incl 1 (2 :: u32) = [1, 2]"
  by (simp add: range_incl_def upt_rec)

lemmas ex_run_simps = ex_schedule_def ex_msg_at_def proc_next_def on_message_def block_range_def
  add_checked_def last_processed_def proc_init_def range_1_2 complete_def is_multiple_of_def
  CHECKPOINT_PROCESSED_BLOCK_def write_checkpoint_def

lemma ex_schedule_run:
  "run_processor 2 ex_schedule proc_init =
     Some \<lparr>pr_checkpoint = Some 2, pr_phase = Receiving, pr_completed = [2, 1]\<rparr>"
  by (simp add: ex_run_simps)

theorem checkpoint_never_skips_witness:
  "\<exists>p. reachable 2 p \<and> pr_checkpoint p = Some 2 \<and> 1 \<in> set (pr_completed p)"
proof -
  let ?p = "\<lparr>pr_checkpoint = Some 2, pr_phase = Receiving, pr_completed = [2, 1]\<rparr>"
  have run: "reachable 2 ?p"
    by (rule reachable_run [OF reachable.init ex_schedule_run])
  have "1 \<in> set (pr_completed ?p)"
    by (rule checkpoint_never_skips [OF run, of 2]) simp_all
  with run show ?thesis by (intro exI [of _ ?p]) simp
qed

text \<open>
  At most \<open>n\<close> blocks are in flight at any moment, and the blocks in flight and still to do
  are a contiguous run of block numbers that ends with the last block of the message.
\<close>

theorem in_flight_bounded:
  assumes "reachable n p" and "pr_phase p = Indexing till todo flight"
  shows "length flight \<le> n \<and>
    (\<exists>x. map fst flight @ todo = map of_nat [x..<Suc (unat till)])"
  using reachable_ok [OF assms(1)] assms(2) unfolding proc_ok_def phase_ok_def by auto

theorem in_flight_bounded_witness:
  "\<exists>p till todo flight. run_processor 2 (take 3 ex_schedule) proc_init = Some p \<and>
     pr_phase p = Indexing till todo flight \<and> length flight \<le> 2"
proof -
  have run: "run_processor 2 (take 3 ex_schedule) proc_init = Some \<lparr>pr_checkpoint = None,
      pr_phase = Indexing 2 [] [(1, Running), (2, Running)], pr_completed = []\<rparr>"
    by (simp add: ex_run_simps)
  show ?thesis
    using run in_flight_bounded [OF reachable_run [OF reachable.init run], of 2 "[]" "[(1, Running), (2, Running)]"]
    by auto
qed

text \<open>Work left in a phase: three units for a block to do, two for one running, one for one finished.\<close>

fun work :: "phase \<Rightarrow> nat" where
  "work (Indexing till todo flight) = Suc (3 * length todo +
     sum_list (map (\<lambda>(b, pr). if pr = Running then 2 else 1) flight))"
| "work _ = 0"

fun internal :: "sched \<Rightarrow> bool" where
  "internal Restart \<longleftrightarrow> False"
| "internal (Got m r) \<longleftrightarrow> False"
| "internal _ \<longleftrightarrow> True"

lemma work_list_update:
  assumes "i < length flight" and "snd (flight ! i) = Running"
  shows "sum_list (map (\<lambda>(b, pr). if pr = Running then 2 else (1 :: nat)) flight) =
    Suc (sum_list (map (\<lambda>(b, pr). if pr = Running then 2 else 1) (flight[i := (b, Finished r)])))"
  using assms
proof (induction flight arbitrary: i)
  case (Cons f fs)
  then show ?case by (cases i) (auto split: prod.splits)
qed simp

lemma internal_work:
  assumes "proc_next n c p = Some p'" and "internal c"
  shows "work (pr_phase p') < work (pr_phase p)"
proof (cases c)
  case (Complete i r)
  with assms obtain till todo flight where
    "pr_phase p = Indexing till todo flight" "i < length flight" "snd (flight ! i) = Running"
    "p' = complete i r till todo flight p"
    by (auto simp: proc_next_def split: phase.splits if_splits)
  then show ?thesis
    using work_list_update [of i flight "fst (flight ! i)" r] by (simp add: complete_def)
next
  case (Yield fault)
  with assms obtain till todo flight where ph: "pr_phase p = Indexing till todo flight"
    and y: "yield_next fault till todo flight p = Some p'"
    by (auto simp: proc_next_def split: phase.splits)
  from y obtain b r fl where "flight = (b, Finished r) # fl"
    "pr_phase p' = Indexing till todo fl \<or> (\<exists>r. pr_phase p' = Stopped r)"
    by (cases "(fault, till, todo, flight, p)" rule: yield_next.cases)
      (auto simp: write_checkpoint_def split: if_splits option.splits)
  with ph show ?thesis by auto
qed (use assms in \<open>auto simp: proc_next_def write_checkpoint_def
    split: phase.splits list.splits if_splits option.splits\<close>)

text \<open>Only a message starts work.\<close>

lemma internal_receiving: "pr_phase p = Receiving \<Longrightarrow> internal c \<Longrightarrow> proc_next n c p = None"
  by (cases c) (simp_all add: proc_next_def)

lemma run_internal_receiving:
  assumes "pr_phase p = Receiving" "list_all internal cs" "run_processor n cs p = Some p'"
  shows "p' = p"
  using assms by (cases cs) (auto simp: internal_receiving)

text \<open>
  A choice that is not a failure, and a loop that has nothing left to do: no such choice is
  possible. \<open>carried\<close> is what holds while a range is indexed without failures: its blocks are the
  ones completed since, the ones to do and the ones running.
\<close>

fun fault_free :: "sched \<Rightarrow> bool" where
  "fault_free Start \<longleftrightarrow> True"
| "fault_free (Complete i r) \<longleftrightarrow> r = Ok ()"
| "fault_free (Yield fault) \<longleftrightarrow> fault = None"
| "fault_free (Finish fault) \<longleftrightarrow> fault = None"
| "fault_free _ \<longleftrightarrow> False"

definition settled :: "nat \<Rightarrow> proc \<Rightarrow> bool" where
  "settled n p \<longleftrightarrow> (\<forall>c. fault_free c \<longrightarrow> proc_next n c p = None)"

definition carried :: "u32 \<Rightarrow> u32 list \<Rightarrow> u32 list \<Rightarrow> proc \<Rightarrow> bool" where
  "carried till old blocks p \<longleftrightarrow> (\<exists>new. pr_completed p = old @ new \<and> (case pr_phase p of
     Receiving \<Rightarrow> pr_checkpoint p = Some till \<and> mset new = mset blocks
   | Indexing t todo flight \<Rightarrow> t = till \<and> (\<forall>x \<in> set flight. snd x = Running \<or> snd x = Finished (Ok ())) \<and>
       mset new + mset todo + mset (map fst (filter (\<lambda>x. snd x = Running) flight)) = mset blocks
   | Stopped r \<Rightarrow> False))"

lemma fault_free_internal: "fault_free c \<Longrightarrow> internal c"
  by (cases c) auto

lemma running_finished:
  assumes "i < length flight" and "snd (flight ! i) = Running"
  shows "mset (map fst (filter (\<lambda>x. snd x = Running) flight)) =
    add_mset (fst (flight ! i)) (mset (map fst (filter (\<lambda>x. snd x = Running) (flight[i := (fst (flight ! i), Finished r)]))))"
  using assms
proof (induction flight arbitrary: i)
  case (Cons f fs)
  then show ?case by (cases i) auto
qed simp

lemma carried_step:
  assumes "carried till old blocks p" and "fault_free c" and "proc_next n c p = Some p'"
  shows "carried till old blocks p'"
proof (cases c)
  case (Complete i r)
  with assms(2,3) obtain t todo flight where ph: "pr_phase p = Indexing t todo flight"
      "i < length flight" "snd (flight ! i) = Running" "p' = complete i (Ok ()) t todo flight p"
    by (auto simp: proc_next_def split: phase.splits if_splits)
  with assms(1) obtain new where inv: "pr_completed p = old @ new" "t = till"
      "\<forall>x \<in> set flight. snd x = Running \<or> snd x = Finished (Ok ())"
      "mset new + mset todo + mset (map fst (filter (\<lambda>x. snd x = Running) flight)) = mset blocks"
    by (auto simp: carried_def)
  have "\<forall>x \<in> set (flight[i := (fst (flight ! i), Finished (Ok ()))]). snd x = Running \<or> snd x = Finished (Ok ())"
    using inv(3) set_update_subset_insert [of flight i] by fastforce
  moreover have "mset (new @ [fst (flight ! i)]) + mset todo + mset (map fst (filter (\<lambda>x. snd x = Running)
      (flight[i := (fst (flight ! i), Finished (Ok ()))]))) = mset blocks"
    using inv(4) running_finished [OF ph(2,3), of "Ok ()"] by simp
  ultimately show ?thesis
    using inv(1,2) by (simp add: ph(4) carried_def complete_def)
next
  case (Yield fault)
  with assms(2,3) obtain t todo flight where ph: "pr_phase p = Indexing t todo flight"
    and y: "yield_next None t todo flight p = Some p'"
    by (auto simp: proc_next_def split: phase.splits)
  from y show ?thesis
    using assms(1) ph by (cases "(None :: db_error option, t, todo, flight, p)" rule: yield_next.cases)
      (auto simp: write_checkpoint_def carried_def)
qed (use assms in \<open>auto simp: proc_next_def write_checkpoint_def carried_def
    split: phase.splits list.splits if_splits\<close>)

lemma carried_settled:
  assumes "carried till old blocks p" and "0 < n"
  shows "settled n p \<longleftrightarrow> pr_phase p = Receiving"
proof
  assume "pr_phase p = Receiving"
  then show "settled n p" by (auto simp: settled_def intro: internal_receiving fault_free_internal)
next
  assume settled: "settled n p"
  show "pr_phase p = Receiving"
  proof (cases "pr_phase p")
    case (Indexing t todo flight)
    have no: "proc_next n Start p = None" "proc_next n (Complete 0 (Ok ())) p = None"
      "proc_next n (Yield None) p = None" "proc_next n (Finish None) p = None"
      using settled by (simp_all add: settled_def)
    from assms(1) Indexing have fl: "\<forall>x \<in> set flight. snd x = Running \<or> snd x = Finished (Ok ())"
      by (auto simp: carried_def)
    show ?thesis
    proof (cases flight)
      case Nil
      with no Indexing assms(2) show ?thesis by (cases todo) (simp_all add: proc_next_def)
    next
      case (Cons f fs)
      with no Indexing fl show ?thesis by (cases f) (auto simp: proc_next_def)
    qed
  qed (use assms(1) in \<open>auto simp: carried_def\<close>)
qed

lemma carried_run:
  "run_processor n cs p = Some p' \<Longrightarrow> list_all fault_free cs \<Longrightarrow> carried till old blocks p \<Longrightarrow> carried till old blocks p'"
proof (induction cs arbitrary: p)
  case (Cons c cs)
  then show ?case by (auto split: bind_splits intro: carried_step)
qed simp

lemma carried_start: "pr_phase p = Indexing till todo [] \<Longrightarrow> carried till (pr_completed p) todo p"
  by (simp add: carried_def)

lemma internal_steps_bounded:
  "run_processor n cs p = Some p' \<Longrightarrow> list_all internal cs \<Longrightarrow> length cs + work (pr_phase p') \<le> work (pr_phase p)"
proof (induction cs arbitrary: p)
  case (Cons c cs)
  then obtain q where "proc_next n c p = Some q" "run_processor n cs q = Some p'"
    by (auto split: bind_splits)
  with Cons internal_work [of n c p q] show ?case by fastforce
qed simp

text \<open>
  C34: a range of blocks is carried through: when no block and no checkpoint write fails, then
  whatever the order in which blocks are started, complete and are taken, the loop is never
  stuck before it receives again, it gets there within three steps per block and one, and by
  then it has indexed every block of the range exactly once and stored the last one as the
  checkpoint.
\<close>

theorem indexing_terminates:
  assumes "0 < n" and "pr_phase p = Indexing till todo []" and "run_processor n cs p = Some p'" and "list_all fault_free cs"
  shows "length cs \<le> 3 * length todo + 1 \<and> (settled n p' \<longleftrightarrow> pr_phase p' = Receiving) \<and>
    (settled n p' \<longrightarrow> pr_checkpoint p' = Some till \<and>
      (\<exists>new. pr_completed p' = pr_completed p @ new \<and> mset new = mset todo))"
proof -
  have "list_all internal cs" using assms(4) fault_free_internal by (auto simp: list_all_iff)
  from internal_steps_bounded [OF assms(3) this] assms(2) have "length cs \<le> 3 * length todo + 1" by simp
  moreover have carried: "carried till (pr_completed p) todo p'"
    by (rule carried_run [OF assms(3,4) carried_start [OF assms(2)]])
  ultimately show ?thesis
    using carried_settled [OF carried assms(1)] by (auto simp: carried_def)
qed

theorem indexing_terminates_witness:
  "\<exists>p'. run_processor 2 (tl ex_schedule) \<lparr>pr_checkpoint = None, pr_phase = Indexing 2 [1, 2] [], pr_completed = []\<rparr> = Some p' \<and>
     settled 2 p' \<and> pr_checkpoint p' = Some 2 \<and> mset (pr_completed p') = {#1, 2#}"
proof -
  let ?p = "\<lparr>pr_checkpoint = None, pr_phase = Indexing 2 [1, 2] [], pr_completed = []\<rparr>"
  have run: "run_processor 2 (tl ex_schedule) ?p =
      Some \<lparr>pr_checkpoint = Some 2, pr_phase = Receiving, pr_completed = [2, 1]\<rparr>"
    "list_all fault_free (tl ex_schedule)"
    by (simp_all add: ex_run_simps)
  from indexing_terminates [OF _ _ run] run(1) show ?thesis by auto
qed

lemma run_processor_append:
  "run_processor n (cs @ ds) p = Option.bind (run_processor n cs p) (run_processor n ds)"
  by (induction cs arbitrary: p) (auto split: bind_splits)

definition one_by_one :: "nat \<Rightarrow> sched list" where
  "one_by_one k = concat (replicate k [Start, Complete 0 (Ok ()), Yield None]) @ [Finish None]"

lemma one_by_one_fault_free: "list_all fault_free (one_by_one k)"
  by (auto simp: one_by_one_def list_all_iff)

lemma one_by_one_run:
  assumes "0 < n" and "pr_phase p = Indexing till todo []"
  shows "\<exists>p'. run_processor n (one_by_one (length todo)) p = Some p' \<and> pr_phase p' = Receiving \<and>
    pr_checkpoint p' = Some till \<and> pr_completed p' = pr_completed p @ todo"
proof -
  have "\<exists>p'. run_processor n (concat (replicate (length todo) [Start, Complete 0 (Ok ()), Yield None])) p = Some p' \<and>
      pr_phase p' = Indexing till [] [] \<and> pr_completed p' = pr_completed p @ todo"
    using assms(2)
  proof (induction todo arbitrary: p)
    case Nil
    then show ?case by simp
  next
    case (Cons b todo)
    have "\<exists>q. run_processor n [Start, Complete 0 (Ok ()), Yield None] p = Some q \<and>
        pr_phase q = Indexing till todo [] \<and> pr_completed q = pr_completed p @ [b]"
      using assms(1) Cons.prems by (simp add: proc_next_def complete_def write_checkpoint_def)
    then obtain q where q: "run_processor n [Start, Complete 0 (Ok ()), Yield None] p = Some q"
      "pr_phase q = Indexing till todo []" "pr_completed q = pr_completed p @ [b]" by blast
    have split: "concat (replicate (length (b # todo)) [Start, Complete 0 (Ok ()), Yield None]) =
        [Start, Complete 0 (Ok ()), Yield None] @ concat (replicate (length todo) [Start, Complete 0 (Ok ()), Yield None])"
      by simp
    show ?case
      unfolding split run_processor_append q(1) using Cons.IH [OF q(2)] q(3) by auto
  qed
  then show ?thesis
    by (auto simp: one_by_one_def run_processor_append proc_next_def write_checkpoint_def)
qed

text \<open>
  With at least one block allowed in flight, an accepted message is always carried through
  when nothing fails: some schedule indexes every block of the range and stores the last one
  as the checkpoint, ready for the next message.
\<close>

theorem message_is_indexed:
  assumes "0 < n" and "pr_phase p = Receiving"
    and "block_range (last_processed p True) (bx_blocks m) = Ok (fr, till)" and "fr \<le> till"
  shows "\<exists>cs p'. run_processor n (Got (Ok m) True # cs) p = Some p' \<and> pr_phase p' = Receiving \<and>
    pr_checkpoint p' = Some till \<and> {fr..till} \<subseteq> set (pr_completed p')"
proof -
  let ?q = "p\<lparr>pr_phase := Indexing till (range_incl fr till) []\<rparr>"
  have "proc_next n (Got (Ok m) True) p = Some ?q"
    using assms(2-4) by (auto simp: proc_next_def on_message_def)
  with one_by_one_run [OF assms(1), of ?q till "range_incl fr till"] show ?thesis
    by (intro exI [of _ "one_by_one (length (range_incl fr till))"]) (auto simp: set_range_incl)
qed

theorem message_is_indexed_witness:
  "\<exists>cs p'. run_processor 2 (Got (Ok (ex_msg_at [2])) True # cs) proc_init = Some p' \<and>
     pr_phase p' = Receiving \<and> pr_checkpoint p' = Some 2 \<and> {1..2} \<subseteq> set (pr_completed p')"
  by (rule message_is_indexed) (simp_all add: ex_run_simps)

text \<open>What the range of a message covers.\<close>

lemma block_range_covers:
  assumes "blocks \<noteq> []" and "unat c + 1 < 2 ^ 32"
  obtains fr till where "block_range c blocks = Ok (fr, till)"
    and "fr \<le> till \<longleftrightarrow> 2 \<le> length blocks \<or> c < be_number (hd blocks)"
    and "fr \<le> till \<Longrightarrow> be_number ` set blocks \<subseteq> {fr..till}"
proof -
  have "unat (c + 1) = unat c + 1" using assms(2) by (simp add: unat_word_ariths)
  then have lt: "c < b \<longleftrightarrow> c + 1 \<le> b" for b
    by (simp add: word_less_nat_alt word_le_nat_alt Suc_le_eq)
  have add: "add_checked c 1 = (Ok (c + 1) :: (u32, indexer_error) result)"
    using assms(2) by (simp add: add_checked_def)
  consider b where "blocks = [b]" | b b' bs where "blocks = b # b' # bs"
    using assms(1) by (metis neq_Nil_conv)
  then show thesis
  proof cases
    case 1
    then show thesis by (intro that [of "c + 1" "be_number (hd blocks)"]) (simp_all add: block_range_def add lt)
  next
    case 2
    let ?ns = "set (map be_number blocks)"
    have fin: "finite ?ns" "?ns \<noteq> {}" by (simp_all add: 2)
    then have "be_number ` set blocks \<subseteq> {min (Min ?ns) (c + 1)..Max ?ns}"
      by (auto intro!: min.coboundedI1 Min_le)
    moreover from fin have "min (Min ?ns) (c + 1) \<le> Max ?ns"
      by (intro min.coboundedI1) simp
    ultimately show thesis
      by (intro that [of "min (Min ?ns) (c + 1)" "Max ?ns"]) (simp_all add: block_range_def add 2)
  qed
qed

lemma receive_range:
  assumes "pr_phase p = Receiving" and "block_range (last_processed p True) (bx_blocks m) = Ok (fr, till)"
  shows "proc_next n (Got (Ok m) True) p =
    Some (if till < fr then p else p\<lparr>pr_phase := Indexing till (range_incl fr till) []\<rparr>)"
  using assms by (simp add: proc_next_def on_message_def)

text \<open>
  A message of one block at or below the checkpoint is ignored, whatever block it carries: when
  a re-org replaces the block at an indexed height by one other block, that block is
  never indexed and the rows of the block it replaced stay.
\<close>

theorem single_block_reorg_skipped:
  assumes "pr_phase p = Receiving" and "pr_checkpoint p = Some c" and "be_number b \<le> c"
    and "unat c + 1 < 2 ^ 32"
  shows "proc_next n (Got (Ok \<lparr>bx_blocks = [b], bx_maybe_reorg_data = rd\<rparr>) True) p = Some p"
proof -
  have "unat (c + 1) = unat c + 1" using assms(4) by (simp add: unat_word_ariths)
  then have "be_number b < c + 1" using assms(3) by (simp add: word_le_nat_alt word_less_nat_alt)
  moreover have "add_checked c 1 = (Ok (c + 1) :: (u32, indexer_error) result)"
    using assms(4) by (simp add: add_checked_def)
  ultimately show ?thesis
    using assms(1,2) by (simp add: proc_next_def on_message_def block_range_def last_processed_def)
qed

theorem single_block_reorg_skipped_witness:
  "proc_next 2 (Got (Ok \<lparr>bx_blocks = [\<lparr>be_number = 2, be_hash = 22, be_parent_hash = 1, be_state_root = 0,
       be_extrinsics_root = 0\<rparr>], bx_maybe_reorg_data = Some \<lparr>rd_enacted = [],
       rd_retracted = [\<lparr>hn_number = 2, hn_hash = 2\<rparr>], rd_common_block = \<lparr>hn_number = 1, hn_hash = 1\<rparr>\<rparr>\<rparr>) True)
     \<lparr>pr_checkpoint = Some 2, pr_phase = Receiving, pr_completed = [2, 1]\<rparr> =
   Some \<lparr>pr_checkpoint = Some 2, pr_phase = Receiving, pr_completed = [2, 1]\<rparr>"
  by (rule single_block_reorg_skipped [of _ 2]) simp_all

end
