(* ===== verification/Entry_Points.thy ===== *)
theory Entry_Points
  imports Slack Peer_Network Stall_Reorg Api Processor
begin

section \<open>Entry points\<close>

text \<open>
  The start of the two programs (\<open>alerter/src/main.rs\<close>, \<open>indexer/src/main.rs\<close>), the bounded
  connect of \<open>shared/src/subspace.rs\<close>, the opening of the database and the uptime push of
  \<open>alerter/src/uptime.rs\<close>. What a program does to start is a list of actions: it sets the
  default address format of the process and spawns tasks with their arguments. The outcomes of
  connecting, reading files, building the swarm and binding a port are inputs. A program ends
  when the first of its tasks does, with the outcome \<open>main_exit\<close> gives.
\<close>

datatype 't action = SetDefaultSs58 u16 | Spawn 't

subsection \<open>Connecting\<close>

text \<open>
  A connect opens the RPC connection and then the client on it. The start bounds it by a
  timeout: \<open>None\<close> when it elapsed, otherwise the outcomes of the two.
\<close>

type_synonym 'c attempt = "((unit, string) result \<times> ('c, string) result) option"

definition connect :: "(unit, string) result \<Rightarrow> ('c, string) result \<Rightarrow> ('c, shared_error) result" where
  "connect rpc_client client = bind_result (map_err Rpc rpc_client) (\<lambda>_. map_err Subxt client)"

definition new_from_url :: "'c attempt \<Rightarrow> ('c, shared_error) result" where
  "new_from_url attempt = (case attempt of
     None \<Rightarrow> Err ConnectTimeout
   | Some (rpc_client, client) \<Rightarrow> connect rpc_client client)"

subsection \<open>The first task that exits\<close>

datatype ('a, 'e) joined = Exited "('a, 'e) result" | JoinFailed string

fun main_exit :: "(string \<Rightarrow> 'e) \<Rightarrow> (unit, 'e) joined option \<Rightarrow> (unit, 'e) result" where
  "main_exit join_error None = Ok ()"
| "main_exit join_error (Some (Exited r)) = r"
| "main_exit join_error (Some (JoinFailed m)) = Err (join_error m)"

subsection \<open>The alerter\<close>

record 'p network_config =
  nf_accounts :: "account list"
  nf_account_balance_alerts :: "balance_alert list"
  nf_bootnodes :: "'p multiaddr list"

record alerter_cli =
  ac_rpc_url :: string
  ac_network_config_path :: string
  ac_uptimekuma_url :: "string option"
  ac_uptimekuma_interval :: duration
  ac_stall_and_reorg :: stall_config
  ac_slack :: slack_config
  ac_slots :: slots_config

datatype 'p alerter_task =
    RuntimeUpdates
  | PushUptimeStatus string duration
  | WatchChainStallAndReorg stall_config
  | WatchEvents "account list" "balance_alert list" u8
  | MonitorSlots slots_config
  | RunSlack slack_alerter format_config
  | ListenForAllBlocks
  | RunNetwork "'p multiaddr list"

definition load_networks_config ::
  "(string, string) result \<Rightarrow> (string \<Rightarrow> (string \<rightharpoonup> 'p network_config, string) result) \<Rightarrow>
     (string \<rightharpoonup> 'p network_config, alerter_error) result" where
  "load_networks_config contents parse_toml =
     bind_result (map_err A_Io contents) (\<lambda>config. map_err A_Toml (parse_toml config))"

definition alerter_tasks ::
  "alerter_cli \<Rightarrow> network_info \<Rightarrow> 'p network_config \<Rightarrow> slack_alerter \<Rightarrow> 'p alerter_task list" where
  "alerter_tasks cli details cfg slack =
     [RuntimeUpdates] @
     (case ac_uptimekuma_url cli of None \<Rightarrow> [] | Some url \<Rightarrow> [PushUptimeStatus url (ac_uptimekuma_interval cli)]) @
     [WatchChainStallAndReorg (ac_stall_and_reorg cli),
      WatchEvents (nf_accounts cfg) (nf_account_balance_alerts cfg) (nd_token_decimals details),
      MonitorSlots (ac_slots cli),
      RunSlack slack \<lparr>fc_rpc_url = ac_rpc_url cli, fc_token_name = nd_token_symbol details,
        fc_token_decimals = nd_token_decimals details\<rparr>,
      ListenForAllBlocks, RunNetwork (nf_bootnodes cfg)]"

definition alerter_start ::
  "alerter_cli \<Rightarrow> ('k, 'ev) client attempt \<Rightarrow> (string, string) result \<Rightarrow>
     (string \<Rightarrow> (string \<rightharpoonup> 'p network_config, string) result) \<Rightarrow> (unit, alerter_error) result \<Rightarrow>
     (u32, string) result \<Rightarrow> (string, string) result \<Rightarrow> ('p alerter_task action list, alerter_error) result" where
  "alerter_start cli attempt contents parse_toml swarm secret_metadata secret_contents =
     bind_result (map_err A_Subspace (new_from_url attempt)) (\<lambda>N.
     bind_result (map_err A_Subspace (network_details N)) (\<lambda>details.
     bind_result (load_networks_config contents parse_toml) (\<lambda>networks.
     bind_result (ok_or (networks (nd_name details)) (A_Config (''Missing network config: '' @ nd_name details))) (\<lambda>cfg.
     bind_result swarm (\<lambda>_.
     bind_result (slack_alerter_new (ac_slack cli) secret_metadata secret_contents) (\<lambda>slack.
     Ok (SetDefaultSs58 (nd_ss58_format details) # map Spawn (alerter_tasks cli details cfg slack))))))))"

text \<open>The uptime push: one request per tick, whatever the answer; the loop has no exit.\<close>

definition push_uptime_status :: "string \<Rightarrow> (nat, string) result list \<Rightarrow> string list" where
  "push_uptime_status url answers = map (\<lambda>answer. url @ ''?status=up&msg=Ok'') answers"

subsection \<open>The indexer\<close>

datatype indexer_task =
    LogDbPoolInfo
  | IndexerRuntimeUpdates chain_id
  | IndexXdm chain_id u32
  | IndexStaking u32
  | IndexerListen chain_id
  | ServeApi u8

definition db_new ::
  "(unit, db_error) result \<Rightarrow> (unit, string) result \<Rightarrow> (unit, string) result \<Rightarrow> (unit, indexer_error) result" where
  "db_new pool migrator run =
     bind_result (map_err I_DB pool) (\<lambda>_.
     bind_result (map_err I_Migrate migrator) (\<lambda>_. map_err I_Migrate run))"

definition start_tasks ::
  "chain_id \<Rightarrow> ('k, 'ev) client attempt \<Rightarrow> u32 \<Rightarrow> (network_info \<times> indexer_task action list, indexer_error) result" where
  "start_tasks chain attempt process_blocks_in_parallel =
     (if chain \<noteq> Consensus \<and> chain \<noteq> Domain (DomainId 0)
      then Err (I_Config (''Unknown Chain: '' @ debug_chain_id chain))
      else
        bind_result (map_err I_Subspace (new_from_url attempt)) (\<lambda>N.
        bind_result (map_err I_Subspace (network_details N)) (\<lambda>details.
        Ok (details, [SetDefaultSs58 (nd_ss58_format details), Spawn (IndexerRuntimeUpdates chain),
            Spawn (IndexXdm chain process_blocks_in_parallel)] @
          (if chain = Consensus then [Spawn (IndexStaking process_blocks_in_parallel)] else []) @
          [Spawn (IndexerListen chain)]))))"

text \<open>The scale of amounts, computed when a worker of the HTTP server starts.\<close>

definition decimal_scale :: "text_lib \<Rightarrow> u8 \<Rightarrow> (string, indexer_error) result" where
  "decimal_scale T token_decimals =
     bind_result (pow10_u128 (unat token_decimals)) (\<lambda>p. expect (tl_decimal T p) ''invalid decimal'')"

definition indexer_start ::
  "(unit, indexer_error) result \<Rightarrow> ('k, 'ev) client attempt \<Rightarrow> ('k, 'ev) client attempt \<Rightarrow> (unit, string) result \<Rightarrow>
     u32 \<Rightarrow> (indexer_task action list, indexer_error) result" where
  "indexer_start db consensus auto_evm bound process_blocks_in_parallel =
     bind_result db (\<lambda>_.
     bind_result (start_tasks Consensus consensus process_blocks_in_parallel) (\<lambda>(details, consensus_tasks).
     bind_result (start_tasks (Domain (DomainId 0)) auto_evm process_blocks_in_parallel) (\<lambda>(_, evm_tasks).
     bind_result (map_err I_Io bound) (\<lambda>_.
     Ok (Spawn LogDbPoolInfo # consensus_tasks @ evm_tasks @ [Spawn (ServeApi (nd_token_decimals details))])))))"

subsection \<open>What a start guarantees\<close>

text \<open>
  The default address format after some actions. It is one setting of the process, not of a
  chain.
\<close>

fun default_ss58 :: "'t action list \<Rightarrow> u16 \<Rightarrow> u16" where
  "default_ss58 [] d = d"
| "default_ss58 (SetDefaultSs58 n # as) d = default_ss58 as n"
| "default_ss58 (Spawn t # as) d = default_ss58 as d"

lemma default_ss58_append: "default_ss58 (as @ bs) d = default_ss58 bs (default_ss58 as d)"
  by (induction as d rule: default_ss58.induct) simp_all

lemma start_tasks_OkE:
  assumes "start_tasks chain attempt n = Ok (details, tasks)"
  obtains N where "new_from_url attempt = Ok N" "network_details N = Ok details"
    "tasks = [SetDefaultSs58 (nd_ss58_format details), Spawn (IndexerRuntimeUpdates chain), Spawn (IndexXdm chain n)] @
       (if chain = Consensus then [Spawn (IndexStaking n)] else []) @ [Spawn (IndexerListen chain)]"
  using assms
  by (auto simp: start_tasks_def bind_result_Ok_iff map_err_Ok_iff split: if_splits)

text \<open>
  The consensus processors are spawned while the address format is that of the consensus chain,
  and from the start of the second chain on the format is that of the domain.
\<close>

lemma indexer_uses_domain_format:
  assumes "indexer_start db consensus auto_evm bound n = Ok actions"
  shows "\<exists>C D cd dd before after. new_from_url consensus = Ok C \<and> network_details C = Ok cd \<and>
    new_from_url auto_evm = Ok D \<and> network_details D = Ok dd \<and>
    actions = before @ after \<and> Spawn (IndexStaking n) \<in> set before \<and>
    default_ss58 before d = nd_ss58_format cd \<and> default_ss58 actions d = nd_ss58_format dd"
proof -
  from assms obtain cd ct dd et where ct: "start_tasks Consensus consensus n = Ok (cd, ct)"
    and et: "start_tasks (Domain (DomainId 0)) auto_evm n = Ok (dd, et)"
    and acts: "actions = (Spawn LogDbPoolInfo # ct) @ (et @ [Spawn (ServeApi (nd_token_decimals cd))])"
    by (auto simp: indexer_start_def bind_result_Ok_iff)
  from ct obtain C where C: "new_from_url consensus = Ok C" "network_details C = Ok cd"
    and "Spawn (IndexStaking n) \<in> set ct" "default_ss58 ct d = nd_ss58_format cd"
    by (elim start_tasks_OkE) simp
  moreover from et obtain D where D: "new_from_url auto_evm = Ok D" "network_details D = Ok dd"
    and "default_ss58 et d' = nd_ss58_format dd" for d'
    by (elim start_tasks_OkE) simp
  ultimately have "default_ss58 (Spawn LogDbPoolInfo # ct) d = nd_ss58_format cd"
    "Spawn (IndexStaking n) \<in> set (Spawn LogDbPoolInfo # ct)" "default_ss58 actions d = nd_ss58_format dd"
    by (simp_all add: acts default_ss58_append)
  with C D acts show ?thesis
    by blast
qed

text \<open>
  From every start that succeeds the listener and the network are spawned last, after the
  consumers of block messages have subscribed: none misses a message.
\<close>

lemma alerter_tasks_split:
  "\<exists>before. alerter_tasks cli details cfg slack = before @ [ListenForAllBlocks, RunNetwork (nf_bootnodes cfg)] \<and>
     WatchChainStallAndReorg (ac_stall_and_reorg cli) \<in> set before \<and>
     WatchEvents (nf_accounts cfg) (nf_account_balance_alerts cfg) (nd_token_decimals details) \<in> set before"
  by (intro exI [of _ "butlast (butlast (alerter_tasks cli details cfg slack))"])
    (simp add: alerter_tasks_def split: option.splits)

lemma alerter_consumers_first:
  assumes "alerter_start cli attempt contents parse_toml swarm meta secret = Ok actions"
  shows "\<exists>before bootnodes accounts watched decimals.
    actions = before @ [Spawn ListenForAllBlocks, Spawn (RunNetwork bootnodes)] \<and>
    Spawn (WatchChainStallAndReorg (ac_stall_and_reorg cli)) \<in> set before \<and>
    Spawn (WatchEvents accounts watched decimals) \<in> set before"
proof -
  from assms obtain details cfg slack where
    acts: "actions = SetDefaultSs58 (nd_ss58_format details) # map Spawn (alerter_tasks cli details cfg slack)"
    by (auto simp: alerter_start_def)
  obtain before where
    split: "alerter_tasks cli details cfg slack = before @ [ListenForAllBlocks, RunNetwork (nf_bootnodes cfg)]"
      "WatchChainStallAndReorg (ac_stall_and_reorg cli) \<in> set before"
      "WatchEvents (nf_accounts cfg) (nf_account_balance_alerts cfg) (nd_token_decimals details) \<in> set before"
    using alerter_tasks_split by metis
  have "actions = (SetDefaultSs58 (nd_ss58_format details) # map Spawn before) @
      [Spawn ListenForAllBlocks, Spawn (RunNetwork (nf_bootnodes cfg))]"
    by (simp add: acts split)
  moreover from split(2,3) have "Spawn (WatchChainStallAndReorg (ac_stall_and_reorg cli)) \<in> set (SetDefaultSs58 (nd_ss58_format details) # map Spawn before)"
    "Spawn (WatchEvents (nf_accounts cfg) (nf_account_balance_alerts cfg) (nd_token_decimals details)) \<in> set (SetDefaultSs58 (nd_ss58_format details) # map Spawn before)"
    by simp_all
  ultimately show ?thesis
    by blast
qed

end
