(* ===== verification/Concurrent_Blocks.thy ===== *)
theory Concurrent_Blocks
  imports Staking_Correct
begin

section \<open>Blocks indexed concurrently\<close>

text \<open>
  \<open>run_processor\<close> has up to \<open>process_blocks_in_parallel\<close> handlers in flight, and their
  statements reach the database in any interleaving. Each statement commits by itself, at
  PostgreSQL's default isolation level, READ COMMITTED: a write applies to the row as it is when
  the row is locked, but a subselect reads a snapshot from the start of the statement. The only
  statement with a subselect is the one that refreshes a counter, so it has two parts here, and
  statements of other blocks may come between them. A history is the list of the parts that were
  executed, each with its block.

  What a history leaves in the tables of nominators, deposits and withdrawals is compared with
  indexing the blocks one after another in ascending order. The counters and the columns of
  \<open>indexer.operators\<close> that carry no guard are not so well behaved.
\<close>

subsection \<open>The effect of one statement\<close>

definition stmt_ok :: "text_lib \<Rightarrow> staking_stmt \<Rightarrow> bool" where
  "stmt_ok T c \<longleftrightarrow> (case c of UpsertSharePrice p \<Rightarrow> tl_price_column T (us_share_price p) \<noteq> None | _ \<Rightarrow> True)"

lemma exec_Ok_iff:
  assumes "db_faults s = []"
  shows "fst (exec_stmt T c s) = Ok () \<longleftrightarrow> stmt_ok T c"
proof (cases c)
  case (UpsertSharePrice p)
  then show ?thesis
    using assms by (cases "tl_price_column T (us_share_price p)") (simp_all add: stmt_defs stmt_ok_def write_row_def)
qed (use assms in \<open>simp_all add: stmt_defs stmt_ok_def\<close>)

lemma exec_faults: "db_faults s = [] \<Longrightarrow> db_faults (snd (exec_stmt T c s)) = []"
  by (cases c) (auto simp: stmt_defs write_row_def split: result.splits)

text \<open>What the statements of different blocks must not disturb, as three maps.\<close>

record ledger =
  lg_nominators :: "i64 \<times> string \<Rightarrow> nominator_rec option"
  lg_deposits :: "u32 \<Rightarrow> deposit_rec list"
  lg_withdrawals :: "u32 \<Rightarrow> withdrawal_rec list"

definition deposits_at :: "u32 \<Rightarrow> db \<Rightarrow> deposit_rec list" where
  "deposits_at n s = filter (\<lambda>r. dr_block_height r = ucast n) (db_deposits s)"

definition withdrawals_at :: "u32 \<Rightarrow> db \<Rightarrow> withdrawal_rec list" where
  "withdrawals_at n s = filter (\<lambda>r. wr_block_height r = ucast n) (db_withdrawals s)"

definition ledger_of :: "db \<Rightarrow> ledger" where
  "ledger_of s = \<lparr>lg_nominators = (\<lambda>k. lookup nominator_key k (db_nominators s)),
     lg_deposits = (\<lambda>n. deposits_at n s), lg_withdrawals = (\<lambda>n. withdrawals_at n s)\<rparr>"

lemma ledger_of_eq_iff:
  "ledger_of s = ledger_of t \<longleftrightarrow> (\<forall>k. lookup nominator_key k (db_nominators s) = lookup nominator_key k (db_nominators t)) \<and>
     (\<forall>n. deposits_at n s = deposits_at n t \<and> withdrawals_at n s = withdrawals_at n t)"
  by (auto simp: ledger_of_def fun_eq_iff)

definition nominator_update :: "nominator_rec \<Rightarrow> nominator_rec option \<Rightarrow> nominator_rec option" where
  "nominator_update r old = Some (case old of None \<Rightarrow> r | Some q \<Rightarrow> merge_nominator q r)"

fun ledger_stmt :: "staking_stmt \<Rightarrow> ledger \<Rightarrow> ledger" where
  "ledger_stmt (DeleteDeposits n) l = l\<lparr>lg_deposits := (lg_deposits l)(n := [])\<rparr>"
| "ledger_stmt (DeleteWithdrawals n) l = l\<lparr>lg_withdrawals := (lg_withdrawals l)(n := [])\<rparr>"
| "ledger_stmt (WriteNominator i a st n) l = l\<lparr>lg_nominators := (lg_nominators l)((i, a) :=
     nominator_update \<lparr>nr_operator_id = i, nr_address = a, nr_status = st, nr_block_height = ucast n\<rparr>
       (lg_nominators l (i, a)))\<rparr>"
| "ledger_stmt (InsertDeposit i a x y n t) l = l\<lparr>lg_deposits := (lg_deposits l)(n := lg_deposits l n @
     [\<lparr>dr_operator_id = i, dr_address = a, dr_amount = unat x, dr_storage_fee = unat y,
       dr_block_height = ucast n, dr_block_time = t\<rparr>])\<rparr>"
| "ledger_stmt (InsertWithdrawal w) l = l\<lparr>lg_withdrawals := (lg_withdrawals l)(iw_block_height w :=
     lg_withdrawals l (iw_block_height w) @ [\<lparr>wr_operator_id = iw_operator_id w, wr_address = iw_address w,
       wr_shares = unat (iw_shares w), wr_amount = unat (iw_amount w),
       wr_storage_fee_refund = unat (iw_storage_fee_refund w), wr_block_height = ucast (iw_block_height w),
       wr_block_time = iw_block_time w\<rparr>])\<rparr>"
| "ledger_stmt _ l = l"

lemma ucast_height [simp]: "(ucast (n :: u32) :: i64) = ucast m \<longleftrightarrow> n = m"
  by (metis sint_ucast_u32 word_uint_eq_iff)

lemma ledger_exec:
  assumes "db_faults s = []"
  shows "ledger_of (snd (exec_stmt T c s)) = ledger_stmt c (ledger_of s)"
proof (cases c)
  case (WriteNominator i a st n)
  let ?r = "\<lparr>nr_operator_id = i, nr_address = a, nr_status = st, nr_block_height = ucast n\<rparr>"
  have "nominator_key ?r = (i, a)" by (simp add: nominator_key_def)
  then show ?thesis
    using assms WriteNominator
    by (auto simp: write_nominator_def ledger_of_def deposits_at_def withdrawals_at_def fun_eq_iff
        nominator_table.lookup_upsert nominator_update_def)
qed (use assms in \<open>auto simp: stmt_defs ledger_of_def deposits_at_def withdrawals_at_def fun_eq_iff
    write_row_def delete_where_def intro: filter_cong split: result.splits\<close>)

lemma merge_nominator_commute:
  assumes "n \<noteq> m" and "nr_block_height r = ucast (n :: u32)" and "nr_block_height q = ucast (m :: u32)"
    and "nominator_key r = nominator_key q"
  shows "nominator_update r (nominator_update q old) = nominator_update q (nominator_update r old)"
proof -
  from assms(1) have "uint n \<noteq> uint m" by (simp add: word_uint_eq_iff)
  moreover have "r\<lparr>nr_status := nr_status q, nr_block_height := nr_block_height q\<rparr> = q"
    "q\<lparr>nr_status := nr_status r, nr_block_height := nr_block_height r\<rparr> = r"
    using assms(4) by (cases r; cases q; simp add: nominator_key_def)+
  ultimately show ?thesis
    by (auto simp: nominator_update_def merge_nominator_def assms(2,3) split: option.splits)
qed

subsection \<open>Statements of different blocks\<close>

lemma nominator_writes_commute:
  assumes "n \<noteq> m"
  shows "ledger_stmt (WriteNominator i a st n) (ledger_stmt (WriteNominator j b st' m) l) =
    ledger_stmt (WriteNominator j b st' m) (ledger_stmt (WriteNominator i a st n) l)"
proof (cases "(i, a) = (j, b)")
  case True
  let ?r = "\<lparr>nr_operator_id = i, nr_address = a, nr_status = st, nr_block_height = ucast n\<rparr>"
  let ?q = "\<lparr>nr_operator_id = j, nr_address = b, nr_status = st', nr_block_height = ucast m\<rparr>"
  have "nominator_update ?r (nominator_update ?q old) = nominator_update ?q (nominator_update ?r old)" for old
    by (rule merge_nominator_commute [OF assms]) (use True in \<open>simp_all add: nominator_key_def\<close>)
  then show ?thesis using True by simp
qed (auto simp: fun_upd_twist)

lemma ledger_stmt_commute:
  assumes "of_block n c" and "of_block m d" and "n \<noteq> m"
  shows "ledger_stmt c (ledger_stmt d l) = ledger_stmt d (ledger_stmt c l)"
proof (cases "\<exists>i a st j b st'. c = WriteNominator i a st n \<and> d = WriteNominator j b st' m")
  case True
  then show ?thesis using nominator_writes_commute [OF assms(3)] by blast
next
  case False
  then show ?thesis using assms by (cases c; cases d) (auto simp: fun_upd_twist)
qed

subsection \<open>Statements in parts\<close>

datatype stmt_part = Executed staking_stmt | Counted i64 | CountStored i64

fun stmt_parts :: "staking_stmt \<Rightarrow> stmt_part list" where
  "stmt_parts (RefreshCount i) = [Counted i, CountStored i]"
| "stmt_parts c = [Executed c]"

definition code_parts :: "(u32 \<Rightarrow> staking_stmt list) \<Rightarrow> u32 \<Rightarrow> stmt_part list" where
  "code_parts code n = concat (map stmt_parts (code n))"

text \<open>The state has, beside the database, what the current statement of each block has counted.\<close>

fun exec_part :: "text_lib \<Rightarrow> u32 \<times> stmt_part \<Rightarrow> (db \<times> (u32 \<Rightarrow> i64), unit, indexer_error) prog" where
  "exec_part T (n, Executed c) (s, counted) = (case exec_stmt T c s of (r, s') \<Rightarrow> (r, s', counted))"
| "exec_part T (n, Counted i) (s, counted) = (Ok (), s, counted(n := active_count i (db_nominators s)))"
| "exec_part T (n, CountStored i) (s, counted) =
     (case write_nominator_count i (counted n) s of (r, s') \<Rightarrow> (r, s', counted))"

lemma parts_exec:
  "\<exists>counted'. for_prog (map (Pair n) (stmt_parts c)) (exec_part T) (s, counted) =
     (fst (exec_stmt T c s), snd (exec_stmt T c s), counted')"
proof (cases c)
  case (RefreshCount i)
  then show ?thesis by (simp add: then_prog_def bind_prog_def ret_def refresh_nominator_count_def split: prod.split result.split)
qed (simp_all split: prod.split)

fun ledger_part :: "stmt_part \<Rightarrow> ledger \<Rightarrow> ledger" where
  "ledger_part (Executed c) = ledger_stmt c"
| "ledger_part _ = id"

fun part_ok :: "text_lib \<Rightarrow> stmt_part \<Rightarrow> bool" where
  "part_ok T (Executed c) \<longleftrightarrow> stmt_ok T c"
| "part_ok T _ \<longleftrightarrow> True"

fun part_of :: "u32 \<times> stmt_part \<Rightarrow> bool" where
  "part_of (n, Executed c) \<longleftrightarrow> of_block n c"
| "part_of _ \<longleftrightarrow> True"

interpretation staking_parts: serial_steps "\<lambda>x. ledger_part (snd x)" fst part_of
proof
  fix a b :: "u32 \<times> stmt_part" and l
  assume "part_of a" "part_of b" "fst a \<noteq> fst b"
  then show "ledger_part (snd a) (ledger_part (snd b) l) = ledger_part (snd b) (ledger_part (snd a) l)"
    by (cases a rule: part_of.cases; cases b rule: part_of.cases) (auto intro: ledger_stmt_commute)
qed

lemma ledger_parts: "fold ledger_part (concat (map stmt_parts cs)) l = fold ledger_stmt cs l"
proof (induction cs arbitrary: l)
  case (Cons c cs)
  then show ?case by (cases c) simp_all
qed simp

lemma stmt_parts_of: "d \<in> set (stmt_parts c) \<Longrightarrow> of_block n c \<Longrightarrow> part_of (n, d)"
  by (cases c) auto

lemma stmt_parts_ok: "d \<in> set (stmt_parts c) \<Longrightarrow> stmt_ok T c \<Longrightarrow> part_ok T d"
  by (cases c) auto

lemma exec_part_ok:
  assumes "db_faults s = []" and "part_ok T (snd x)"
  shows "\<exists>s' counted'. exec_part T x (s, counted) = (Ok (), s', counted') \<and> db_faults s' = [] \<and>
    ledger_of s' = ledger_part (snd x) (ledger_of s)"
  using assms
proof (cases "(T, x, s, counted)" rule: exec_part.cases)
  case (1 T' n c s' k)
  with assms exec_Ok_iff [OF assms(1), of T c] exec_faults [OF assms(1), of T c] ledger_exec [OF assms(1), of T c]
  show ?thesis by (cases "exec_stmt T c s") auto
qed (auto simp: write_nominator_count_def ledger_of_def deposits_at_def withdrawals_at_def)

subsection \<open>Histories\<close>

lemma parts_history:
  assumes "db_faults s = []" and "\<forall>x \<in> set h. part_ok T (snd x)"
  shows "\<exists>s' counted'. for_prog h (exec_part T) (s, counted) = (Ok (), s', counted') \<and>
    db_faults s' = [] \<and> ledger_of s' = fold (\<lambda>x. ledger_part (snd x)) h (ledger_of s)"
  using assms
proof (induction h arbitrary: s counted)
  case (Cons x h)
  then obtain s1 k1 where x: "exec_part T x (s, counted) = (Ok (), s1, k1)"
    and s1: "db_faults s1 = []" "ledger_of s1 = ledger_part (snd x) (ledger_of s)"
    using exec_part_ok [of s T x counted] by auto
  with Cons.IH [OF s1(1), of k1] Cons.prems show ?case by (simp add: then_prog_Ok)
qed simp

lemma statements_ledger:
  "for_prog cs (exec_stmt T) s = (Ok (), s') \<Longrightarrow> db_faults s = [] \<Longrightarrow> ledger_of s' = fold ledger_stmt cs (ledger_of s)"
proof (induction cs arbitrary: s)
  case (Cons c cs)
  then obtain s1 where "exec_stmt T c s = (Ok (), s1)" "for_prog cs (exec_stmt T) s1 = (Ok (), s')"
    by (auto simp: then_prog_def bind_prog_Ok_iff)
  with Cons.IH [of s1] Cons.prems(2) exec_faults [of s T c] ledger_exec [of s T c] show ?case by simp
qed simp

lemma statements_ok:
  "for_prog cs (exec_stmt T) s = (Ok (), s') \<Longrightarrow> db_faults s = [] \<Longrightarrow> \<forall>c \<in> set cs. stmt_ok T c"
proof (induction cs arbitrary: s)
  case (Cons c cs)
  then obtain s1 where "exec_stmt T c s = (Ok (), s1)" "for_prog cs (exec_stmt T) s1 = (Ok (), s')"
    by (auto simp: then_prog_def bind_prog_Ok_iff)
  with Cons exec_Ok_iff [of s T c] exec_faults [of s T c] show ?case by auto
qed simp

lemma serial_run:
  assumes code: "\<And>n. straight_line (exec_stmt T) (code n) (outcome n) (p n)"
  shows "for_prog blocks p s = (Ok (), s') \<Longrightarrow> for_prog (concat (map code blocks)) (exec_stmt T) s = (Ok (), s')"
proof (induction blocks arbitrary: s)
  case (Cons n blocks)
  then obtain s1 where s1: "p n s = (Ok (), s1)" "for_prog blocks p s1 = (Ok (), s')"
    by (auto simp: then_prog_def bind_prog_Ok_iff)
  then show ?case
    using straight_line_Ok [OF code s1(1)] Cons.IH [OF s1(2)] by (simp add: for_prog_append then_prog_Ok)
qed simp

lemma staking_codes:
  "\<exists>code outcome. \<forall>n. straight_line (exec_stmt T) (code n) (outcome n) (index_staking_for_block T N C n) \<and>
     staking_shape n (code n)"
  using code_block [of T _ N C, unfolded has_code_def] by metis

lemma map_snd_one_after_another: "map snd (one_after_another code ks) = concat (map code ks)"
  by (induction ks) (simp_all add: one_after_another_def o_def)

lemma concat_code_parts: "concat (map (code_parts code) ks) = concat (map stmt_parts (concat (map code ks)))"
  by (induction ks) (simp_all add: code_parts_def)

lemma history_part:
  assumes "interleaves (code_parts code) ks h" and "x \<in> set h"
  obtains c where "fst x \<in> ks" "c \<in> set (code (fst x))" "snd x \<in> set (stmt_parts c)"
  using interleaves_mem [OF assms(1), of "fst x" "snd x"] assms(2) by (auto simp: code_parts_def)

text \<open>
  C8: blocks in flight together are serializable as far as nominators, deposits and withdrawals go.
  The handler of every block is a fixed list of statements. When no statement fails and the
  blocks succeed one after another in ascending order, then whatever the interleaving of the
  parts of their statements, it succeeds too and leaves the same row for every nominator and
  the same deposits and withdrawals at every height.
\<close>

theorem concurrent_blocks_serializable:
  "\<exists>code outcome. (\<forall>n. straight_line (exec_stmt T) (code n) (outcome n) (index_staking_for_block T N C n)) \<and>
     (\<forall>blocks h s s1 counted. sorted blocks \<and> distinct blocks \<and> db_faults s = [] \<and>
        for_prog blocks (index_staking_for_block T N C) s = (Ok (), s1) \<and> interleaves (code_parts code) (set blocks) h \<longrightarrow>
        (\<exists>s2 counted2. for_prog h (exec_part T) (s, counted) = (Ok (), s2, counted2) \<and>
          (\<forall>k. lookup nominator_key k (db_nominators s2) = lookup nominator_key k (db_nominators s1)) \<and>
          (\<forall>n. deposits_at n s2 = deposits_at n s1 \<and> withdrawals_at n s2 = withdrawals_at n s1)))"
proof -
  obtain code outcome where
    "\<forall>n. straight_line (exec_stmt T) (code n) (outcome n) (index_staking_for_block T N C n) \<and> staking_shape n (code n)"
    using staking_codes [of T N C] by (elim exE)
  then have code: "\<And>n. straight_line (exec_stmt T) (code n) (outcome n) (index_staking_for_block T N C n)"
      "\<And>n. staking_shape n (code n)" by simp_all
  have "\<exists>s2 k2. for_prog h (exec_part T) (s, k) = (Ok (), s2, k2) \<and> ledger_of s2 = ledger_of s1"
    if "sorted blocks" "distinct blocks" and s: "db_faults s = []"
      and run: "for_prog blocks (index_staking_for_block T N C) s = (Ok (), s1)"
      and il: "interleaves (code_parts code) (set blocks) h" for blocks h s s1 k
  proof -
    have seq: "for_prog (concat (map code blocks)) (exec_stmt T) s = (Ok (), s1)" by (rule serial_run [OF code(1) run])
    have "part_ok T (snd x)" "part_of x" if "x \<in> set h" for x
    proof -
      from history_part [OF il that] obtain c where
        c: "fst x \<in> set blocks" "c \<in> set (code (fst x))" "snd x \<in> set (stmt_parts c)" .
      from c(1,2) statements_ok [OF seq s] have "stmt_ok T c" by auto
      with c(3) show "part_ok T (snd x)" by (rule stmt_parts_ok)
      have "of_block (fst x) c" using code(2) c(2) by (auto simp: staking_shape_def list_all_iff)
      from stmt_parts_of [OF c(3) this] show "part_of x" by simp
    qed
    note parts = this
    obtain s2 k2 where s2: "for_prog h (exec_part T) (s, k) = (Ok (), s2, k2)"
      "ledger_of s2 = fold (\<lambda>x. ledger_part (snd x)) h (ledger_of s)"
      using parts_history [OF s] parts(1) by blast
    have "ledger_of s2 = fold ledger_part (map snd (sort_key fst h)) (ledger_of s)"
      using staking_parts.fold_sort [of h "ledger_of s"] parts(2) by (simp add: s2(2) fold_map o_def)
    also have "\<dots> = fold ledger_stmt (concat (map code blocks)) (ledger_of s)"
      by (simp add: sort_interleaving [OF il that(1,2)] map_snd_one_after_another concat_code_parts ledger_parts)
    also have "\<dots> = ledger_of s1" using statements_ledger [OF seq s] by simp
    finally show ?thesis using s2(1) by blast
  qed
  note main = this [unfolded ledger_of_eq_iff]
  show ?thesis
    by (rule exI [of _ code], rule exI [of _ outcome]) (intro conjI allI impI code(1) main; elim conjE; assumption)
qed

theorem concurrent_blocks_serializable_witness:
  "\<exists>code h s1 s2 counted2. interleaves (code_parts code) {8, 9 :: u32} h \<and> h = one_after_another (code_parts code) [9, 8] \<and>
     for_prog [8, 9] (index_staking_for_block plain_text ex_staking_client scale) empty_db = (Ok (), s1) \<and>
     for_prog h (exec_part plain_text) (empty_db, \<lambda>_. 0) = (Ok (), s2, counted2) \<and> deposits_at 8 s2 = deposits_at 8 s1 \<and>
     lookup nominator_key (1, ''7'') (db_nominators s2) = lookup nominator_key (1, ''7'') (db_nominators s1)"
proof -
  have e: "db_faults empty_db = []" by (simp add: empty_db_def)
  obtain s8 where s8: "index_staking_for_block plain_text ex_staking_client scale 8 empty_db = (Ok (), s8)" "db_faults s8 = []"
    using ex_staking_runs [OF e] by blast
  obtain s9 where s9: "index_staking_for_block plain_text ex_staking_client scale 9 s8 = (Ok (), s9)"
    using ex_staking_runs [OF s8(2)] by blast
  have run: "for_prog [8, 9] (index_staking_for_block plain_text ex_staking_client scale) empty_db = (Ok (), s9)"
    by (simp add: then_prog_def bind_prog_def s8(1) s9)
  obtain code where
    code: "\<forall>blocks h s s1 counted. sorted blocks \<and> distinct blocks \<and> db_faults s = [] \<and>
        for_prog blocks (index_staking_for_block plain_text ex_staking_client scale) s = (Ok (), s1) \<and>
        interleaves (code_parts code) (set blocks) h \<longrightarrow>
        (\<exists>s2 counted2. for_prog h (exec_part plain_text) (s, counted) = (Ok (), s2, counted2) \<and>
          (\<forall>k. lookup nominator_key k (db_nominators s2) = lookup nominator_key k (db_nominators s1)) \<and>
          (\<forall>n. deposits_at n s2 = deposits_at n s1 \<and> withdrawals_at n s2 = withdrawals_at n s1))"
    using concurrent_blocks_serializable [of plain_text ex_staking_client scale] by blast
  let ?h = "one_after_another (code_parts code) [9, 8 :: u32]"
  have h: "interleaves (code_parts code) {8, 9} ?h"
    using interleaves_one_after_another [of "[9, 8 :: u32]" "code_parts code"] by (simp add: insert_commute)
  have "\<exists>s2 counted2. for_prog ?h (exec_part plain_text) (empty_db, \<lambda>_. 0) = (Ok (), s2, counted2) \<and>
      (\<forall>k. lookup nominator_key k (db_nominators s2) = lookup nominator_key k (db_nominators s9)) \<and>
      (\<forall>n. deposits_at n s2 = deposits_at n s9 \<and> withdrawals_at n s2 = withdrawals_at n s9)"
    by (rule code [rule_format, of "[8, 9]"]) (use run h e in simp)
  with run h show ?thesis by blast
qed

subsection \<open>Counters\<close>

lemma due_in_task:
  "fold (\<lambda>x. refresh_due i (snd x)) h False \<Longrightarrow>
    \<exists>k. fold (refresh_due i) (map snd (filter (\<lambda>x. fst x = k) h)) False"
proof (induction h rule: rev_induct)
  case (snoc x h)
  show ?case
  proof (cases "refresh_due i (snd x) False")
    case True
    then have "refresh_due i (snd x) b" for b by (cases "snd x") auto
    then show ?thesis by (intro exI [of _ "fst x"]) simp
  next
    case False
    then have mono: "refresh_due i (snd x) b \<Longrightarrow> b" for b by (cases b) auto
    have keep: "refresh_due i (snd x) True" using snoc.prems mono False by (cases "fold (\<lambda>x. refresh_due i (snd x)) h False") auto
    from snoc.prems have "fold (\<lambda>x. refresh_due i (snd x)) h False" using mono by simp
    from snoc.IH [OF this] obtain k where "fold (refresh_due i) (map snd (filter (\<lambda>x. fst x = k) h)) False" ..
    then show ?thesis using keep by (intro exI [of _ k]) auto
  qed
qed simp

text \<open>
  Where no part of another statement comes between the two parts of a refresh, that is in an
  interleaving of whole statements, the counters of active nominators end up exact.
\<close>

theorem whole_refreshes_keep_counts:
  assumes "\<And>n. staking_shape n (code n)" and "interleaves code ks h"
    and "for_prog h (\<lambda>x. exec_stmt T (snd x)) s = (Ok (), s')" and "counts_ok s"
  shows "counts_ok s'"
proof -
  have "\<not> fold (\<lambda>x. refresh_due i (snd x)) h False" for i
  proof
    assume "fold (\<lambda>x. refresh_due i (snd x)) h False"
    then obtain k where "fold (refresh_due i) (map snd (filter (\<lambda>x. fst x = k) h)) False"
      using due_in_task by blast
    then show False
      using assms(1,2) by (auto simp: interleaves_def staking_shape_def split: if_splits)
  qed
  with counts_history [OF assms(3,4)] show ?thesis by simp
qed

lemma active_count_fresh:
  assumes "lookup nominator_key (i, a) rows = None"
  shows "active_count i (upsert nominator_key merge_nominator
    \<lparr>nr_operator_id = i, nr_address = a, nr_status = ''active'', nr_block_height = h\<rparr> rows) = active_count i rows + 1"
  using assms lookup_None_upsert [of nominator_key "\<lparr>nr_operator_id = i, nr_address = a, nr_status = ''active'', nr_block_height = h\<rparr>"]
  by (simp add: nominator_key_def active_count_def)

lemma refreshed_counts:
  "list_all (\<lambda>r. or_operator_id r = i \<longrightarrow> or_nominator_count r = k)
     (update_where (\<lambda>r. or_operator_id r = i) (\<lambda>r. r\<lparr>or_nominator_count := k\<rparr>) rows)"
  by (induction rows) (simp_all add: update_where_def)

text \<open>
  Otherwise a counter may stay wrong: when two blocks record a new nominator of the same operator,
  the count that one of them took before the other's nominator was written may be stored last.
\<close>

theorem concurrent_refresh_stale:
  assumes "db_faults s = []" and "m \<noteq> n" and "a \<noteq> b"
    and "lookup nominator_key (i, a) (db_nominators s) = None" "lookup nominator_key (i, b) (db_nominators s) = None"
  shows "\<exists>code h s' counted'. straight_line (exec_stmt T) (code m) (Ok ()) (upsert_nominator i a ''active'' m) \<and>
    straight_line (exec_stmt T) (code n) (Ok ()) (upsert_nominator i b ''active'' n) \<and>
    interleaves (code_parts code) {m, n} h \<and> for_prog h (exec_part T) (s, counted) = (Ok (), s', counted') \<and>
    active_count i (db_nominators s') = active_count i (db_nominators s) + 2 \<and>
    (\<forall>r \<in> set (db_operators s'). or_operator_id r = i \<longrightarrow> or_nominator_count r = active_count i (db_nominators s) + 1)"
proof -
  let ?code = "\<lambda>j. if j = m then [WriteNominator i a ''active'' m, RefreshCount i] else [WriteNominator i b ''active'' n, RefreshCount i]"
  let ?h = "[(m, Executed (WriteNominator i a ''active'' m)), (m, Counted i), (n, Executed (WriteNominator i b ''active'' n)),
    (n, Counted i), (n, CountStored i), (m, CountStored i)]"
  have line: "straight_line (exec_stmt T) (?code m) (Ok ()) (upsert_nominator i a ''active'' m)"
    "straight_line (exec_stmt T) (?code n) (Ok ()) (upsert_nominator i b ''active'' n)"
    using assms(2) by (auto simp: straight_line_def upsert_nominator_def fun_eq_iff then_prog_def bind_prog_def ret_def lift_result_def
        split: prod.split result.split)
  have il: "interleaves (code_parts ?code) {m, n} ?h"
    using assms(2) by (auto simp: interleaves_def code_parts_def)
  let ?ra = "\<lparr>nr_operator_id = i, nr_address = a, nr_status = ''active'', nr_block_height = ucast m\<rparr>"
  let ?rb = "\<lparr>nr_operator_id = i, nr_address = b, nr_status = ''active'', nr_block_height = ucast n\<rparr>"
  let ?A = "upsert nominator_key merge_nominator ?ra (db_nominators s)"
  let ?B = "upsert nominator_key merge_nominator ?rb ?A"
  have key: "nominator_key ?ra = (i, a)" by (simp add: nominator_key_def)
  have A: "active_count i ?A = active_count i (db_nominators s) + 1" by (rule active_count_fresh [OF assms(4)])
  have "lookup nominator_key (i, b) ?A = None"
    using assms(3,5) by (simp add: nominator_table.lookup_upsert key)
  from active_count_fresh [OF this, of "ucast n"] A have B: "active_count i ?B = active_count i (db_nominators s) + 2" by simp
  obtain s' where run: "for_prog ?h (exec_part T) (s, counted) = (Ok (), s', counted(m := active_count i ?A, n := active_count i ?B))"
    "db_nominators s' = ?B" "db_operators s' = update_where (\<lambda>r. or_operator_id r = i)
      (\<lambda>r. r\<lparr>or_nominator_count := active_count i ?A\<rparr>) (update_where (\<lambda>r. or_operator_id r = i)
      (\<lambda>r. r\<lparr>or_nominator_count := active_count i ?B\<rparr>) (db_operators s))"
    using assms(1,2) by (simp add: then_prog_Ok write_nominator_def write_nominator_count_def fun_upd_twist)
  have "\<forall>r \<in> set (db_operators s'). or_operator_id r = i \<longrightarrow> or_nominator_count r = active_count i (db_nominators s) + 1"
    unfolding run(3) A using refreshed_counts by (simp only: list_all_iff)
  with line il run(1,2) B show ?thesis by (intro exI [of _ ?code] exI [of _ ?h]) auto
qed

theorem concurrent_refresh_stale_witness:
  "\<exists>s' :: db. active_count 1 (db_nominators s') = 2 \<and> (\<forall>r \<in> set (db_operators s'). or_operator_id r = 1 \<longrightarrow> or_nominator_count r = 1)"
proof -
  let ?s = "empty_db\<lparr>db_operators := [ex_op 1]\<rparr>"
  have "\<exists>code h s' counted'. straight_line (exec_stmt plain_text) (code 5) (Ok ()) (upsert_nominator 1 ''st1'' ''active'' 5) \<and>
    straight_line (exec_stmt plain_text) (code 6) (Ok ()) (upsert_nominator 1 ''st2'' ''active'' 6) \<and>
    interleaves (code_parts code) {5, 6} h \<and> for_prog h (exec_part plain_text) (?s, \<lambda>_. 0) = (Ok (), s', counted') \<and>
    active_count 1 (db_nominators s') = active_count 1 (db_nominators ?s) + 2 \<and>
    (\<forall>r \<in> set (db_operators s'). or_operator_id r = 1 \<longrightarrow> or_nominator_count r = active_count 1 (db_nominators ?s) + 1)"
    by (rule concurrent_refresh_stale) (simp_all add: empty_db_def)
  then obtain s' :: db where s': "active_count 1 (db_nominators s') = active_count 1 (db_nominators ?s) + 2"
    "\<forall>r \<in> set (db_operators s'). or_operator_id r = 1 \<longrightarrow> or_nominator_count r = active_count 1 (db_nominators ?s) + 1"
    by (elim exE conjE) (rule that)
  have "active_count 1 (db_nominators ?s) = 0" by (simp add: empty_db_def active_count_def)
  with s' show ?thesis by (intro exI [of _ s']) simp
qed

subsection \<open>Operators\<close>

fun status_written :: "i64 \<Rightarrow> staking_stmt \<Rightarrow> string option" where
  "status_written i (UpdateStatus j st) = (if j = i then Some st else None)"
| "status_written i (UpdateStats j st x y z t) = (if j = i then Some st else None)"
| "status_written i (UpsertOperator op) = (if uo_operator_id op = i then Some (uo_status op) else None)"
| "status_written i _ = None"

fun part_status :: "i64 \<Rightarrow> stmt_part \<Rightarrow> string option" where
  "part_status i (Executed c) = status_written i c"
| "part_status i _ = None"

lemma last_written_parts: "last_written (part_status i) (concat (map stmt_parts cs)) = last_written (status_written i) cs"
proof (induction cs)
  case (Cons c cs)
  then show ?case by (cases c) (auto split: option.splits)
qed simp

text \<open>What an interleaving wrote last, one of its tasks wrote last.\<close>

lemma last_written_task:
  "last_written (\<lambda>x. f (snd x)) h = Some v \<Longrightarrow>
    \<exists>k. last_written f (map snd (filter (\<lambda>x. fst x = k) h)) = Some v"
proof (induction h rule: rev_induct)
  case (snoc x h)
  show ?case
  proof (cases "f (snd x)")
    case None
    with snoc obtain k where "last_written f (map snd (filter (\<lambda>x. fst x = k) h)) = Some v" by auto
    then show ?thesis using None by (intro exI [of _ k]) simp
  next
    case (Some w)
    with snoc.prems show ?thesis by (intro exI [of _ "fst x"]) simp
  qed
qed simp

lemma last_written_some_task:
  assumes "last_written f (map snd (filter (\<lambda>x. fst x = k) h)) \<noteq> None"
  shows "last_written (\<lambda>x. f (snd x)) h \<noteq> None"
  using assms by (induction h) (auto split: option.splits if_splits)

lemma stmt_status:
  assumes "exec_stmt T c s = (Ok (), s')" and "lookup or_operator_id i (db_operators s) = Some r"
  shows "\<exists>r'. lookup or_operator_id i (db_operators s') = Some r' \<and>
    or_status r' = (case status_written i c of None \<Rightarrow> or_status r | Some st \<Rightarrow> st)"
  using assms
  by (cases c) (auto simp: stmt_defs lookup_update_where operator_table.lookup_upsert merge_operator_def
      dest!: write_row_Ok dest: lookup_Some_key)

lemma part_status_step:
  assumes "exec_part T x (s, counted) = (Ok (), s', counted')" and "lookup or_operator_id i (db_operators s) = Some r"
  shows "\<exists>r'. lookup or_operator_id i (db_operators s') = Some r' \<and>
    or_status r' = (case part_status i (snd x) of None \<Rightarrow> or_status r | Some st \<Rightarrow> st)"
proof (cases "(T, x, s, counted)" rule: exec_part.cases)
  case (1 T' n c t k)
  with assms stmt_status [of T c s s' i r] show ?thesis by (auto split: prod.splits)
next
  case (3 T' n j t k)
  with assms have "write_nominator_count j (counted n) s = (Ok (), s')" by (auto split: prod.splits)
  with assms(2) 3 show ?thesis
    by (auto simp: write_nominator_count_def lookup_update_where dest!: write_row_Ok dest: lookup_Some_key)
qed (use assms in auto)

lemma history_status:
  assumes "for_prog h (exec_part T) (s, counted) = (Ok (), s', counted')"
    and "lookup or_operator_id i (db_operators s) = Some r"
  shows "\<exists>r'. lookup or_operator_id i (db_operators s') = Some r' \<and>
    or_status r' = (case last_written (\<lambda>x. part_status i (snd x)) h of None \<Rightarrow> or_status r | Some st \<Rightarrow> st)"
  using assms
proof (induction h arbitrary: s counted r)
  case (Cons x h)
  then obtain s1 k1 where x: "exec_part T x (s, counted) = (Ok (), s1, k1)"
    "for_prog h (exec_part T) (s1, k1) = (Ok (), s', counted')"
    by (cases "exec_part T x (s, counted)") (auto simp: then_prog_def bind_prog_Ok_iff)
  from part_status_step [OF x(1) Cons.prems(2)] obtain r1 where
    r1: "lookup or_operator_id i (db_operators s1) = Some r1"
      "or_status r1 = (case part_status i (snd x) of None \<Rightarrow> or_status r | Some st \<Rightarrow> st)" by blast
  from Cons.IH [OF x(2) r1(1)] r1(2) show ?case by (auto split: option.splits)
qed simp

lemma statements_status:
  assumes "for_prog cs (exec_stmt T) s = (Ok (), s')" and "lookup or_operator_id i (db_operators s) = Some r"
  shows "\<exists>r'. lookup or_operator_id i (db_operators s') = Some r' \<and>
    or_status r' = (case last_written (status_written i) cs of None \<Rightarrow> or_status r | Some st \<Rightarrow> st)"
  using assms
proof (induction cs arbitrary: s r)
  case (Cons c cs)
  then obtain s1 where c: "exec_stmt T c s = (Ok (), s1)" "for_prog cs (exec_stmt T) s1 = (Ok (), s')"
    by (auto simp: then_prog_def bind_prog_Ok_iff)
  from stmt_status [OF c(1) Cons.prems(2)] obtain r1 where
    r1: "lookup or_operator_id i (db_operators s1) = Some r1"
      "or_status r1 = (case status_written i c of None \<Rightarrow> or_status r | Some st \<Rightarrow> st)" by blast
  from Cons.IH [OF c(2) r1(1)] r1(2) show ?case by (auto split: option.splits)
qed simp

text \<open>A block that changes the status of operator \<open>i\<close> to \<open>st\<close> when it is indexed alone.\<close>

definition sets_status :: "(u32 \<Rightarrow> unit db_op) \<Rightarrow> db \<Rightarrow> i64 \<Rightarrow> u32 \<Rightarrow> string \<Rightarrow> bool" where
  "sets_status p s i n st \<longleftrightarrow> (\<exists>s' r r'. p n s = (Ok (), s') \<and> lookup or_operator_id i (db_operators s) = Some r \<and>
     lookup or_operator_id i (db_operators s') = Some r' \<and> or_status r' = st \<and> or_status r \<noteq> st)"

lemma sets_status_code:
  assumes "sets_status p s i n st" and "straight_line (exec_stmt T) code outcome (p n)" and "db_faults s = []"
  shows "last_written (status_written i) code = Some st \<and> (\<forall>c \<in> set code. stmt_ok T c)"
proof -
  from assms(1) obtain s' r r' where s': "p n s = (Ok (), s')" "lookup or_operator_id i (db_operators s) = Some r"
    "lookup or_operator_id i (db_operators s') = Some r'" "or_status r' = st" "or_status r \<noteq> st"
    unfolding sets_status_def by blast
  note run = straight_line_Ok [OF assms(2) s'(1)]
  from statements_status [OF run s'(2)] s' statements_ok [OF run assms(3)] show ?thesis
    by (auto split: option.splits)
qed

lemma two_task_status:
  assumes "interleaves (code_parts code) {m, n} h" and "last_written (status_written i) (code m) = Some x"
    and "last_written (status_written i) (code n) = Some y"
  shows "last_written (\<lambda>x. part_status i (snd x)) h \<in> {Some x, Some y}"
proof -
  have task: "last_written (part_status i) (map snd (filter (\<lambda>x. fst x = k) h)) =
      (if k \<in> {m, n} then last_written (status_written i) (code k) else None)" for k
    using assms(1) last_written_parts [of i "code k"] unfolding interleaves_def by (simp only: code_parts_def split: if_split) simp
  have "last_written (\<lambda>x. part_status i (snd x)) h \<noteq> None"
    by (rule last_written_some_task [of _ m]) (use task [of m] assms(2) in simp)
  then obtain v where v: "last_written (\<lambda>x. part_status i (snd x)) h = Some v" by blast
  from last_written_task [OF v] obtain k where "last_written (part_status i) (map snd (filter (\<lambda>x. fst x = k) h)) = Some v" ..
  then show ?thesis using task [of k] assms(2,3) v by (auto split: if_splits)
qed

lemma sequential_status:
  assumes "last_written (status_written i) (code n) = Some y"
  shows "last_written (\<lambda>x. part_status i (snd x)) (one_after_another (code_parts code) [m, n]) = Some y"
  using assms last_written_parts [of i "code n"] by (simp add: one_after_another_def code_parts_def)

text \<open>
  C37: the status of an operator depends on the order in which statements happen to be executed,
  not on the heights of their blocks: when each of two blocks, indexed alone, would change the
  status of an operator, one to \<open>x\<close> and one to \<open>y\<close>, and no statement fails, then the statuses
  that the interleavings of the two blocks' statements can end with are exactly \<open>x\<close> and \<open>y\<close>.
\<close>

theorem operator_status_depends_on_order:
  "\<exists>code outcome. (\<forall>n. straight_line (exec_stmt T) (code n) (outcome n) (index_staking_for_block T N C n)) \<and>
     (\<forall>m n s counted i x y. m \<noteq> n \<and> db_faults s = [] \<and> sets_status (index_staking_for_block T N C) s i m x \<and>
        sets_status (index_staking_for_block T N C) s i n y \<longrightarrow>
        {st. \<exists>h s' counted' r. interleaves (code_parts code) {m, n} h \<and>
           for_prog h (exec_part T) (s, counted) = (Ok (), s', counted') \<and>
           lookup or_operator_id i (db_operators s') = Some r \<and> or_status r = st} = {x, y})"
proof -
  obtain code outcome where
    "\<forall>n. straight_line (exec_stmt T) (code n) (outcome n) (index_staking_for_block T N C n) \<and> staking_shape n (code n)"
    using staking_codes [of T N C] by (elim exE)
  then have code: "\<And>n. straight_line (exec_stmt T) (code n) (outcome n) (index_staking_for_block T N C n)" by simp
  have main: "{st. \<exists>h s' k' r. interleaves (code_parts code) {m, n} h \<and> for_prog h (exec_part T) (s, k) = (Ok (), s', k') \<and>
      lookup or_operator_id i (db_operators s') = Some r \<and> or_status r = st} = {x, y}"
    if h: "m \<noteq> n" "db_faults s = []" "sets_status (index_staking_for_block T N C) s i m x"
      "sets_status (index_staking_for_block T N C) s i n y" for m n s k i x y
  proof -
    note m = sets_status_code [OF h(3) code h(2)] and n = sets_status_code [OF h(4) code h(2)]
    from h(3) obtain r where r: "lookup or_operator_id i (db_operators s) = Some r" unfolding sets_status_def by blast
    have run: "\<exists>s' k' r'. for_prog hs (exec_part T) (s, k) = (Ok (), s', k') \<and> lookup or_operator_id i (db_operators s') = Some r' \<and>
        last_written (\<lambda>x. part_status i (snd x)) hs = Some (or_status r')"
      if il: "interleaves (code_parts code) {m, n} hs" for hs
    proof -
      have "part_ok T (snd x)" if "x \<in> set hs" for x
        using history_part [OF il that] m n stmt_parts_ok by (metis empty_iff insert_iff)
      then obtain s' k' where s': "for_prog hs (exec_part T) (s, k) = (Ok (), s', k')"
        using parts_history [OF h(2)] by blast
      from history_status [OF s' r] s' two_task_status [OF il] m n show ?thesis by fastforce
    qed
    have "\<exists>hs s' k' r'. interleaves (code_parts code) {m, n} hs \<and> for_prog hs (exec_part T) (s, k) = (Ok (), s', k') \<and>
        lookup or_operator_id i (db_operators s') = Some r' \<and> or_status r' = st"
      if "interleaves (code_parts code) {m, n} hs" "last_written (\<lambda>x. part_status i (snd x)) hs = Some st" for hs st
      using run [OF that(1)] that by fastforce
    note reach = this
    have mn: "interleaves (code_parts code) {m, n} (one_after_another (code_parts code) [m, n])"
      "interleaves (code_parts code) {m, n} (one_after_another (code_parts code) [n, m])"
      using interleaves_one_after_another [of "[m, n]" "code_parts code"] interleaves_one_after_another [of "[n, m]" "code_parts code"] h(1)
      by (simp_all add: insert_commute)
    have "st \<in> {x, y}" if il: "interleaves (code_parts code) {m, n} hs" and hs: "for_prog hs (exec_part T) (s, k) = (Ok (), s', k')"
      "lookup or_operator_id i (db_operators s') = Some r'" "or_status r' = st" for hs s' k' r' st
      using run [OF il] hs two_task_status [OF il] m n by fastforce
    moreover have "\<exists>hs s' k' r'. interleaves (code_parts code) {m, n} hs \<and> for_prog hs (exec_part T) (s, k) = (Ok (), s', k') \<and>
        lookup or_operator_id i (db_operators s') = Some r' \<and> or_status r' = st" if "st \<in> {x, y}" for st
      using that reach [OF mn(1) sequential_status] reach [OF mn(2) sequential_status] m n by blast
    ultimately show ?thesis by blast
  qed
  show ?thesis
    by (rule exI [of _ code], rule exI [of _ outcome]) (intro conjI allI impI code main; elim conjE; assumption)
qed

definition ex_status_client :: chain_client where
  "ex_status_client = ex_staking_client\<lparr>
     cl_node := \<lparr>rpc_block_hash = (\<lambda>n. Ok (Some (if n = Some 5 then 50 else 60))), rpc_header = (\<lambda>_. Ok (Some
       \<lparr>hd_parent_hash = 70, hd_number = 8, hd_state_root = 0, hd_extrinsics_root = 0, hd_digest = []\<rparr>))\<rparr>,
     cl_events := (\<lambda>h. Ok [Ok (if h = 50 then Ed_OperatorDeactivated (Ok \<lparr>op_operator_id = 1\<rparr>)
       else Ed_OperatorDeregistered (Ok \<lparr>op_operator_id = 1\<rparr>))])\<rparr>"

lemma ex_status_runs:
  "sets_status (index_staking_for_block plain_text ex_status_client scale) (empty_db\<lparr>db_operators := [ex_op 1]\<rparr>) 1 5 ''deactivated''"
  "sets_status (index_staking_for_block plain_text ex_status_client scale) (empty_db\<lparr>db_operators := [ex_op 1]\<rparr>) 1 6 ''deregistered''"
  by (simp_all add: sets_status_def ex_status_client_def ex_staking_defs on_status_def update_operator_status_def
      block_ext_of_def empty_db_def lookup_Cons ex_op_def update_where_def)

theorem operator_status_depends_on_order_witness:
  "\<exists>code. {st. \<exists>h s' counted' r. interleaves (code_parts code) {5, 6} h \<and>
      for_prog h (exec_part plain_text) (empty_db\<lparr>db_operators := [ex_op 1]\<rparr>, \<lambda>_. 0) = (Ok (), s', counted') \<and>
      lookup or_operator_id 1 (db_operators s') = Some r \<and> or_status r = st} = {''deactivated'', ''deregistered''}"
proof -
  let ?s = "empty_db\<lparr>db_operators := [ex_op 1]\<rparr>"
  from operator_status_depends_on_order [of plain_text ex_status_client scale] obtain code where
    code: "\<forall>m n s counted i x y. m \<noteq> n \<and> db_faults s = [] \<and>
        sets_status (index_staking_for_block plain_text ex_status_client scale) s i m x \<and>
        sets_status (index_staking_for_block plain_text ex_status_client scale) s i n y \<longrightarrow>
        {st. \<exists>h s' counted' r. interleaves (code_parts code) {m, n} h \<and>
           for_prog h (exec_part plain_text) (s, counted) = (Ok (), s', counted') \<and>
           lookup or_operator_id i (db_operators s') = Some r \<and> or_status r = st} = {x, y}" by blast
  show ?thesis
    by (rule exI [of _ code], rule code [rule_format]) (simp add: ex_status_runs, simp add: empty_db_def)
qed

end
