(* ===== verification/Indexer_Loop.thy ===== *)
theory Indexer_Loop
  imports Concurrent_Blocks Processor
begin

section \<open>The processors at work on the database\<close>

text \<open>
  \<open>Processor\<close> has the loop of \<open>run_processor\<close> with the outcome of every block left open. Here it
  runs on the database: a processor (the trait \<open>BlockProcessor\<close>) indexes a block by its own
  statements, the checkpoint is the row of its key in \<open>indexer.metadata\<close>, and the three
  processors that \<open>main.rs\<close> spawns work on the same database. Which processor does what next,
  and what the node answers it, is again an explicit choice (\<open>act\<close>); which statement fails is
  part of the database. A block is indexed in one step: \<open>Concurrent_Blocks\<close> shows that the
  interleaved statements of blocks in flight leave the same deposits, withdrawals and
  nominators as one block after another. A handler that is cut off before its end, by a
  restart or the failure of another block, is one whose next statement fails.

  The locale \<open>block_processors\<close> states what the loop relies on, that processors have different
  keys and leave the checkpoints alone, and shows that each processor's view of the database
  refines the loop of \<open>Processor\<close>. The locale \<open>recorded_rows\<close> adds the rows a processor writes
  for a block. Both are interpreted on the processors of the program.
\<close>

subsection \<open>Processors\<close>

text \<open>The trait \<open>BlockProcessor\<close>; \<open>'w\<close> is what the node answers while a block is indexed.\<close>

record 'w block_processor =
  bp_process_block :: "'w \<Rightarrow> u32 \<Rightarrow> unit db_op"
  bp_checkpoint_key :: string
  bp_name :: string

definition StakingProcessor :: "text_lib \<Rightarrow> codec \<Rightarrow> chain_client block_processor" where
  "StakingProcessor T C = \<lparr>bp_process_block = (\<lambda>N. index_staking_for_block T N C),
     bp_checkpoint_key = CHECKPOINT_KEY, bp_name = ''Staking''\<rparr>"

definition XdmProcessor_new :: "text_lib \<Rightarrow> codec \<Rightarrow> transfer decoder \<Rightarrow> chain_id \<Rightarrow> chain_client block_processor" where
  "XdmProcessor_new T C D chain = \<lparr>bp_process_block = (\<lambda>N. index_events_for_block T N C D chain),
     bp_checkpoint_key = get_xdm_processor_key chain, bp_name = ''XDM''\<rparr>"

subsection \<open>The loop\<close>

text \<open>
  What the loop of one processor may do next: receive a message, start the next block, index
  the \<open>i\<close>-th block in flight, take the first result, end the range, or be restarted.
\<close>

datatype 'w act =
    Recv "(blocks_ext, recv_error) result"
  | Begin
  | Process nat 'w
  | Take
  | EndRange
  | Reboot

text \<open>An attempt to index a block: the block, the answers of the node, and whether it succeeded.\<close>

type_synonym 'w indexing_attempt = "u32 \<times> 'w \<times> bool"

definition unwrap_or :: "'a \<Rightarrow> ('a, 'e) result \<Rightarrow> 'a" where
  "unwrap_or x r = (case r of Ok y \<Rightarrow> y | _ \<Rightarrow> x)"

definition stop_unless :: "('a, indexer_error) result \<Rightarrow> ('a \<Rightarrow> phase) \<Rightarrow> phase" where
  "stop_unless r ph = (case r of Ok x \<Rightarrow> ph x | Err e \<Rightarrow> Stopped (Err e) | Panic p \<Rightarrow> Stopped (Panic p))"

definition receive :: "'w block_processor \<Rightarrow> (blocks_ext, recv_error) result \<Rightarrow> db \<Rightarrow> db \<times> phase" where
  "receive bp m db = (case m of
     Err (Lagged k) \<Rightarrow> (db, Receiving)
   | Err e \<Rightarrow> (db, Stopped (Err (I_BroadRecvErr e)))
   | Panic p \<Rightarrow> (db, Stopped (Panic p))
   | Ok msg \<Rightarrow> let (r, db') = get_last_processed_block (bp_checkpoint_key bp) db in
       (db', stop_unless (block_range (unwrap_or 0 r) (bx_blocks msg))
         (\<lambda>(fr, till). if till < fr then Receiving else Indexing till (range_incl fr till) [])))"

definition save_checkpoint :: "'w block_processor \<Rightarrow> u32 \<Rightarrow> phase \<Rightarrow> db \<Rightarrow> db \<times> phase" where
  "save_checkpoint bp b ph db =
     (let (r, db') = set_last_processed_block (bp_checkpoint_key bp) b db in (db', stop_unless r (\<lambda>_. ph)))"

fun act_next :: "'w block_processor \<Rightarrow> nat \<Rightarrow> 'w act \<Rightarrow> db \<Rightarrow> phase \<Rightarrow> ((db \<times> phase) \<times> 'w indexing_attempt list) option" where
  "act_next bp n (Recv m) db Receiving = Some (receive bp m db, [])"
| "act_next bp n Begin db (Indexing till (b # todo) flight) =
     (if length flight < n then Some ((db, Indexing till todo (flight @ [(b, Running)])), []) else None)"
| "act_next bp n (Process i w) db (Indexing till todo flight) =
     (if i < length flight \<and> snd (flight ! i) = Running then
        let b = fst (flight ! i); (r, db') = bp_process_block bp w b db in
        Some ((db', Indexing till todo (flight[i := (b, Finished r)])), [(b, w, r = Ok ())])
      else None)"
| "act_next bp n Take db (Indexing till todo ((b, Finished r) # flight)) =
     Some (case r of
        Ok _ \<Rightarrow> if is_multiple_of b CHECKPOINT_PROCESSED_BLOCK
          then save_checkpoint bp b (Indexing till todo flight) db else (db, Indexing till todo flight)
      | Err e \<Rightarrow> (db, Stopped (Err e)) | Panic p \<Rightarrow> (db, Stopped (Panic p)), [])"
| "act_next bp n EndRange db (Indexing till [] []) = Some (save_checkpoint bp till Receiving db, [])"
| "act_next bp n Reboot db ph = Some ((db, Receiving), [])"
| "act_next bp n a db ph = None"

fun_cases act_nextE: "act_next bp n a db ph = Some x"

record ('k, 'w) indexer =
  ix_db :: db
  ix_phase :: "'k \<Rightarrow> phase"
  ix_log :: "('k \<times> 'w indexing_attempt) list"

definition tasks_next ::
  "('k \<Rightarrow> 'w block_processor) \<Rightarrow> nat \<Rightarrow> 'k \<times> 'w act \<Rightarrow> ('k, 'w) indexer \<Rightarrow> ('k, 'w) indexer option" where
  "tasks_next procs n x st = (case x of (k, a) \<Rightarrow>
     map_option (\<lambda>((db, ph), l). \<lparr>ix_db = db, ix_phase = (ix_phase st)(k := ph), ix_log = ix_log st @ map (Pair k) l\<rparr>)
       (act_next (procs k) n a (ix_db st) (ix_phase st k)))"

primrec run_tasks ::
  "('k \<Rightarrow> 'w block_processor) \<Rightarrow> nat \<Rightarrow> ('k \<times> 'w act) list \<Rightarrow> ('k, 'w) indexer \<Rightarrow> ('k, 'w) indexer option" where
  "run_tasks procs n [] st = Some st"
| "run_tasks procs n (x # xs) st = Option.bind (tasks_next procs n x st) (run_tasks procs n xs)"

definition tasks_init :: "db \<Rightarrow> ('k, 'w) indexer" where
  "tasks_init db = \<lparr>ix_db = db, ix_phase = (\<lambda>_. Receiving), ix_log = []\<rparr>"

inductive tasks_reachable :: "('k \<Rightarrow> 'w block_processor) \<Rightarrow> nat \<Rightarrow> ('k, 'w) indexer \<Rightarrow> bool" for procs n where
  init: "db_metadata db = [] \<Longrightarrow> tasks_reachable procs n (tasks_init db)"
| step: "tasks_reachable procs n st \<Longrightarrow> tasks_next procs n x st = Some st' \<Longrightarrow> tasks_reachable procs n st'"

subsection \<open>The view of one processor\<close>

definition stored :: "string \<Rightarrow> db \<Rightarrow> u32 option" where
  "stored key db = map_option (\<lambda>r. ucast (md_block r)) (lookup md_process key (db_metadata db))"

definition completed_by :: "'k \<Rightarrow> ('k \<times> 'w indexing_attempt) list \<Rightarrow> u32 list" where
  "completed_by k log = map (\<lambda>x. fst (snd x)) (filter (\<lambda>x. fst x = k \<and> snd (snd (snd x))) log)"

definition proc_view :: "('k \<Rightarrow> 'w block_processor) \<Rightarrow> 'k \<Rightarrow> ('k, 'w) indexer \<Rightarrow> proc" where
  "proc_view procs k st = \<lparr>pr_checkpoint = stored (bp_checkpoint_key (procs k)) (ix_db st),
     pr_phase = ix_phase st k, pr_completed = completed_by k (ix_log st)\<rparr>"

definition same_metadata :: "db \<Rightarrow> db \<Rightarrow> bool" where
  "same_metadata s t \<longleftrightarrow> db_metadata t = db_metadata s"

lemma get_last_cases:
  assumes "get_last_processed_block key db = (r, db')"
  shows "db_metadata db' = db_metadata db \<and> (\<exists>readable. unwrap_or 0 r = (if readable then case_option 0 id (stored key db) else 0))"
proof (cases "\<exists>e fs. db_faults db = Some e # fs")
  case True
  with assms have "db_metadata db' = db_metadata db \<and> unwrap_or 0 r = 0"
    by (auto simp: get_last_processed_block_def query_def execute_def unwrap_or_def)
  then show ?thesis by (intro conjI exI [of _ False]) simp_all
next
  case False
  with assms have "db_metadata db' = db_metadata db \<and> unwrap_or 0 r = case_option 0 id (stored key db)"
    by (cases "lookup md_process key (db_metadata db)")
      (auto simp: get_last_processed_block_def query_def execute_def unwrap_or_def stored_def split: list.splits option.splits)
  then show ?thesis by (intro conjI exI [of _ True]) simp_all
qed

lemma ucast_i64_u32: "(ucast (ucast (n :: u32) :: i64) :: u32) = n"
  by (rule bit_word_eqI) (auto simp: bit_ucast_iff dest: bit_imp_le_length)

lemma set_last_cases:
  assumes "set_last_processed_block key b db = (r, db')"
  shows "(r = Ok () \<and> stored key db' = Some b \<and> (\<forall>k. k \<noteq> key \<longrightarrow> stored k db' = stored k db)) \<or>
    (\<exists>e. r = Err (I_DB e) \<and> db_metadata db' = db_metadata db)"
  using assms
  by (auto simp: set_last_processed_block_def write_row_def execute_def stored_def merge_metadata_def
      metadata_table.lookup_upsert ucast_i64_u32 split: list.splits option.splits)

lemma stored_cong: "db_metadata db' = db_metadata db \<Longrightarrow> stored key db' = stored key db"
  by (simp add: stored_def)

lemma receive_sim:
  "on_message m readable \<lparr>pr_checkpoint = c, pr_phase = ph, pr_completed = done\<rparr> = \<lparr>pr_checkpoint = c, pr_phase =
     (case m of Err (Lagged k) \<Rightarrow> ph | Err e \<Rightarrow> Stopped (Err (I_BroadRecvErr e)) | Panic p \<Rightarrow> Stopped (Panic p)
      | Ok msg \<Rightarrow> stop_unless (block_range (if readable then case_option 0 id c else 0) (bx_blocks msg))
         (\<lambda>(fr, till). if till < fr then ph else Indexing till (range_incl fr till) [])), pr_completed = done\<rparr>"
  by (auto simp: on_message_def last_processed_def stop_unless_def split: result.splits recv_error.splits)

lemma receive_step:
  assumes "receive bp m db = (db', ph')"
  shows "\<exists>readable. proc_next n (Got m readable) \<lparr>pr_checkpoint = stored (bp_checkpoint_key bp) db, pr_phase = Receiving, pr_completed = done\<rparr> =
    Some \<lparr>pr_checkpoint = stored (bp_checkpoint_key bp) db', pr_phase = ph', pr_completed = done\<rparr>"
proof (cases m)
  case (Ok msg)
  obtain r db1 where r: "get_last_processed_block (bp_checkpoint_key bp) db = (r, db1)" by (cases "get_last_processed_block (bp_checkpoint_key bp) db")
  from get_last_cases [OF r] obtain readable where
    "unwrap_or 0 r = (if readable then case_option 0 id (stored (bp_checkpoint_key bp) db) else 0)"
    and same: "stored (bp_checkpoint_key bp) db1 = stored (bp_checkpoint_key bp) db" by (auto simp: stored_def)
  with assms show ?thesis
    by (intro exI [of _ readable]) (auto simp: Ok r receive_def proc_next_def receive_sim)
qed (use assms in \<open>auto simp: receive_def proc_next_def receive_sim split: recv_error.splits\<close>)

lemma save_step:
  assumes "save_checkpoint bp b ph db = (db', ph')"
  shows "\<exists>fault. write_checkpoint fault b ph \<lparr>pr_checkpoint = stored (bp_checkpoint_key bp) db, pr_phase = ph0, pr_completed = done\<rparr> =
    \<lparr>pr_checkpoint = stored (bp_checkpoint_key bp) db', pr_phase = ph', pr_completed = done\<rparr>"
proof -
  obtain r db1 where r: "set_last_processed_block (bp_checkpoint_key bp) b db = (r, db1)" by (cases "set_last_processed_block (bp_checkpoint_key bp) b db")
  with assms have st: "db1 = db'" "ph' = stop_unless r (\<lambda>_. ph)" by (auto simp: save_checkpoint_def)
  from set_last_cases [OF r] show ?thesis
  proof (elim disjE exE conjE)
    fix e assume "r = Err (I_DB e)" "db_metadata db1 = db_metadata db"
    with st stored_cong [of db1 db] show ?thesis
      by (intro exI [of _ "Some e"]) (simp add: write_checkpoint_def stop_unless_def)
  next
    assume "r = Ok ()" "stored (bp_checkpoint_key bp) db1 = Some b"
    with st show ?thesis by (intro exI [of _ None]) (simp add: write_checkpoint_def stop_unless_def)
  qed
qed

lemma act_step:
  assumes "act_next bp n a db ph = Some ((db', ph'), l)" and kept: "\<And>w b. keeps same_metadata (bp_process_block bp w b)"
  shows "\<exists>c. proc_next n c \<lparr>pr_checkpoint = stored (bp_checkpoint_key bp) db, pr_phase = ph, pr_completed = done\<rparr> =
    Some \<lparr>pr_checkpoint = stored (bp_checkpoint_key bp) db', pr_phase = ph', pr_completed = done @ map fst (filter (\<lambda>x. snd (snd x)) l)\<rparr>"
proof (rule act_nextE [OF assms(1)], goal_cases)
  case (1 m)
  then have "receive bp m db = (db', ph')" "ph = Receiving" "l = []" by simp_all
  with receive_step [of bp m db db' ph' n "done"] show ?thesis by auto
next
  case (2 till b todo flight)
  then show ?thesis by (intro exI [of _ Start]) (auto simp: proc_next_def split: if_splits)
next
  case (3 i w till todo flight)
  obtain r db1 where r: "bp_process_block bp w (fst (flight ! i)) db = (r, db1)" by (cases "bp_process_block bp w (fst (flight ! i)) db")
  then have "stored key db1 = stored key db" for key
    using keepsD [OF kept [of w "fst (flight ! i)"], of db] by (simp add: same_metadata_def stored_def)
  then show ?thesis using 3 r
    by (intro exI [of _ "Complete i r"]) (auto simp: proc_next_def complete_def Let_def split: if_splits)
next
  case (4 till todo b r flight)
  then show ?thesis
  proof (cases r)
    case (Ok u)
    obtain db1 ph1 where sv: "save_checkpoint bp b (Indexing till todo flight) db = (db1, ph1)" by (cases "save_checkpoint bp b (Indexing till todo flight) db")
    from save_step [OF this, of ph "done"] obtain fault where
      "write_checkpoint fault b (Indexing till todo flight) \<lparr>pr_checkpoint = stored (bp_checkpoint_key bp) db, pr_phase = ph, pr_completed = done\<rparr> =
        \<lparr>pr_checkpoint = stored (bp_checkpoint_key bp) db1, pr_phase = ph1, pr_completed = done\<rparr>" ..
    with 4 Ok sv show ?thesis by (intro exI [of _ "Yield fault"]) (auto simp: proc_next_def split: if_splits)
  qed (auto intro!: exI [of _ "Yield None"] simp: proc_next_def)
next
  case (5 till)
  then obtain sv: "save_checkpoint bp till Receiving db = (db', ph')" and "l = []" "ph = Indexing till [] []" by simp
  from save_step [OF sv, of ph "done"] show ?thesis using 5
    by (auto simp: proc_next_def intro: exI [of _ "Finish fault" for fault])
next
  case 6
  then show ?thesis by (intro exI [of _ Restart]) (simp add: proc_next_def)
qed

lemma act_other:
  assumes "act_next bp n a db ph = Some ((db', ph'), l)" and kept: "\<And>w b. keeps same_metadata (bp_process_block bp w b)"
    and "key \<noteq> bp_checkpoint_key bp"
  shows "stored key db' = stored key db"
proof -
  have save: "stored key (fst (save_checkpoint bp b p db)) = stored key db" for b p
  proof (cases "set_last_processed_block (bp_checkpoint_key bp) b db")
    case (Pair r db1)
    from set_last_cases [OF this] assms(3) show ?thesis by (auto simp: save_checkpoint_def Pair stored_def)
  qed
  have recv: "stored key (fst (receive bp m db)) = stored key db" for m
  proof (cases "get_last_processed_block (bp_checkpoint_key bp) db")
    case (Pair r db1)
    from get_last_cases [OF this] show ?thesis
      by (auto simp: receive_def Pair stored_def split: result.splits recv_error.splits)
  qed
  have process: "stored key (snd (bp_process_block bp w b db)) = stored key db" for w b
    using keepsD [OF kept [of w b], of db] by (simp add: same_metadata_def stored_def)
  show ?thesis
  proof (rule act_nextE [OF assms(1)], goal_cases)
    case (1 m)
    with recv [of m] show ?thesis by (metis fst_conv)
  next
    case (3 i w till todo flight)
    with process [of w "fst (flight ! i)"] show ?thesis by (auto simp: Let_def split: if_splits prod.splits)
  next
    case (4 till todo b r flight)
    with save [of b "Indexing till todo flight"] show ?thesis
      by (cases r) (auto split: if_splits, metis fst_conv)
  next
    case (5 till)
    with save [of till Receiving] show ?thesis by (metis fst_conv)
  qed (auto split: if_splits)
qed

lemma tasks_reachable_run:
  "tasks_reachable procs n st \<Longrightarrow> run_tasks procs n xs st = Some st' \<Longrightarrow> tasks_reachable procs n st'"
  by (induction xs arbitrary: st) (auto intro: tasks_reachable.step split: bind_splits)

lemma tasks_next_Some:
  assumes "tasks_next procs n (k, a) st = Some st'"
  obtains db' ph' l where "act_next (procs k) n a (ix_db st) (ix_phase st k) = Some ((db', ph'), l)"
    "st' = \<lparr>ix_db = db', ix_phase = (ix_phase st)(k := ph'), ix_log = ix_log st @ map (Pair k) l\<rparr>"
  using assms by (auto simp: tasks_next_def)

lemma completed_by_append: "completed_by k (log @ map (Pair j) l) =
  completed_by k log @ (if j = k then map fst (filter (\<lambda>x. snd (snd x)) l) else [])"
  by (simp add: completed_by_def filter_map o_def)

locale block_processors =
  fixes procs :: "'k \<Rightarrow> 'w block_processor"
  assumes keys_differ: "bp_checkpoint_key (procs j) = bp_checkpoint_key (procs k) \<Longrightarrow> j = k"
    and metadata_kept: "keeps same_metadata (bp_process_block (procs k) w n)"
begin

lemma view_next:
  assumes "tasks_next procs n (j, a) st = Some st'"
  shows "proc_view procs k st' = proc_view procs k st \<or>
    (\<exists>c. proc_next n c (proc_view procs k st) = Some (proc_view procs k st'))"
proof -
  from assms obtain db' ph' l where act: "act_next (procs j) n a (ix_db st) (ix_phase st j) = Some ((db', ph'), l)"
    and st': "st' = \<lparr>ix_db = db', ix_phase = (ix_phase st)(j := ph'), ix_log = ix_log st @ map (Pair j) l\<rparr>"
    by (rule tasks_next_Some)
  show ?thesis
  proof (cases "j = k")
    case True
    with act_step [OF act metadata_kept] show ?thesis
      by (simp add: proc_view_def st' completed_by_append)
  next
    case False
    with act_other [OF act metadata_kept, of "bp_checkpoint_key (procs k)"] keys_differ show ?thesis
      by (auto simp: proc_view_def st' completed_by_append)
  qed
qed

lemma view_reachable: "tasks_reachable procs n st \<Longrightarrow> reachable n (proc_view procs k st)"
proof (induction rule: tasks_reachable.induct)
  case (init db)
  then have "proc_view procs k (tasks_init db) = proc_init"
    by (simp add: proc_view_def tasks_init_def proc_init_def stored_def completed_by_def lookup_def)
  then show ?case by (simp add: reachable.init)
next
  case (step st x st')
  then show ?case using view_next by (cases x) (metis reachable.step)
qed

lemma completed_until:
  assumes "tasks_reachable procs n st" and "stored (bp_checkpoint_key (procs k)) (ix_db st) = Some c"
    and "1 \<le> b" and "b \<le> c"
  shows "\<exists>w. (k, b, w, True) \<in> set (ix_log st)"
proof -
  have "proc_ok n (proc_view procs k st)" by (rule reachable_ok [OF view_reachable [OF assms(1)]])
  then have "done_until (proc_view procs k st) (Suc (unat c))"
    using assms(2) by (simp add: proc_ok_def proc_view_def)
  then have "b \<in> set (completed_by k (ix_log st))"
    using assms(3,4) unfolding done_until_def proc_view_def
    by (auto simp: word_le_nat_alt dest!: spec [of _ "unat b"])
  then show ?thesis by (auto simp: completed_by_def)
qed

end

subsection \<open>The rows a processor writes\<close>

definition last_attempt :: "'k \<Rightarrow> u32 \<Rightarrow> ('k \<times> 'w indexing_attempt) list \<Rightarrow> ('w \<times> bool) option" where
  "last_attempt k b log = map_of (rev (map (\<lambda>(k, b, x). ((k, b), x)) log)) (k, b)"

lemma last_attempt_snoc: "last_attempt k b (log @ [(j, c, x)]) = (if (j, c) = (k, b) then Some x else last_attempt k b log)"
  by (simp add: last_attempt_def)

text \<open>A part of the database that neither checkpoints nor failing statements are part of.\<close>

locale table_view =
  fixes view :: "db \<Rightarrow> 'r"
  assumes view_faults: "view (s\<lparr>db_faults := fs\<rparr>) = view s"
    and view_metadata: "view (s\<lparr>db_metadata := md\<rparr>) = view s"
begin

lemma view_checkpoint:
  "view (snd (get_last_processed_block key s)) = view s"
  "view (snd (set_last_processed_block key n s)) = view s"
  by (auto simp: get_last_processed_block_def query_def set_last_processed_block_def write_row_def execute_def
      view_faults view_metadata split: list.splits option.splits)

lemma view_receive: "view (fst (receive bp m s)) = view s"
  using view_checkpoint(1) [of _ s]
  by (auto simp: receive_def split: result.splits recv_error.splits prod.splits) (metis snd_conv)+

lemma view_save: "view (fst (save_checkpoint bp n ph s)) = view s"
  using view_checkpoint(2) [of _ n s] by (auto simp: save_checkpoint_def split: prod.splits) (metis snd_conv)

lemma view_act:
  assumes "act_next bp n a db ph = Some ((db', ph'), l)"
  shows "(l = [] \<and> view db' = view db) \<or>
    (\<exists>c w r. l = [(c, w, r = Ok ())] \<and> bp_process_block bp w c db = (r, db'))"
proof (rule act_nextE [OF assms], goal_cases)
  case (1 m)
  with view_receive [of bp m db] show ?thesis by (metis fst_conv prod.inject)
next
  case (4 till todo c r flight)
  with view_save [of bp c "Indexing till todo flight" db] show ?thesis
    by (cases r) (auto split: if_splits, metis fst_conv)
next
  case (5 till)
  with view_save [of bp till Receiving db] show ?thesis by (metis fst_conv prod.inject)
qed (auto simp: Let_def split: if_splits prod.splits)

lemma view_next:
  assumes "tasks_next procs n (k, a) st = Some st'"
  obtains (1) "ix_log st' = ix_log st" "view (ix_db st') = view (ix_db st)"
  | (2) c w r where "ix_log st' = ix_log st @ [(k, c, w, r = Ok ())]"
      "bp_process_block (procs k) w c (ix_db st) = (r, ix_db st')"
proof -
  from assms obtain db' ph' l where act: "act_next (procs k) n a (ix_db st) (ix_phase st k) = Some ((db', ph'), l)"
    and st': "st' = \<lparr>ix_db = db', ix_phase = (ix_phase st)(k := ph'), ix_log = ix_log st @ map (Pair k) l\<rparr>"
    by (rule tasks_next_Some)
  from view_act [OF act] show thesis
  proof (elim disjE exE conjE)
    assume "l = []" "view db' = view (ix_db st)"
    then show thesis by (intro 1) (simp_all add: st')
  next
    fix c w r assume "l = [(c, w, r = Ok ())]" "bp_process_block (procs k) w c (ix_db st) = (r, db')"
    then show thesis by (intro 2) (simp_all add: st')
  qed
qed

end

text \<open>The rows one processor writes for a block, which nothing else changes.\<close>

locale recorded_rows = block_processors +
  fixes k0 :: 'a and rows :: "u32 \<Rightarrow> db \<Rightarrow> 'r" and denotes :: "'b \<Rightarrow> u32 \<Rightarrow> 'r \<Rightarrow> bool"
  assumes rows_view: "table_view (rows b)"
    and rows_written: "bp_process_block (procs k0) w b s = (Ok (), s') \<Longrightarrow> denotes w b (rows b s')"
    and rows_kept: "k \<noteq> k0 \<or> b \<noteq> n \<Longrightarrow> keeps (\<lambda>s t. rows b t = rows b s) (bp_process_block (procs k) w n)"
begin

lemma recorded:
  assumes "tasks_reachable procs n st" and "last_attempt k0 b (ix_log st) = Some (w, True)"
  shows "denotes w b (rows b (ix_db st))"
  using assms
proof (induction arbitrary: w rule: tasks_reachable.induct)
  case (init db)
  then show ?case by (simp add: tasks_init_def last_attempt_def)
next
  case (step st x st')
  obtain k a where x: "x = (k, a)" by (cases x)
  show ?case
  proof (cases rule: table_view.view_next [OF rows_view [of b] step.hyps(2) [unfolded x]])
    case 1
    with step.IH step.prems show ?thesis by simp
  next
    case (2 c v r)
    show ?thesis
    proof (cases "(k, c) = (k0, b)")
      case True
      with step.prems 2 have "r = Ok ()" "v = w" by (auto simp: last_attempt_snoc)
      with True 2 rows_written show ?thesis by auto
    next
      case False
      then have "rows b (ix_db st') = rows b (ix_db st)"
        using keepsD [OF rows_kept [of k b c v], of "ix_db st"] 2 by auto
      with False step.IH [of w] step.prems 2 show ?thesis by (auto simp: last_attempt_snoc)
    qed
  qed
qed

end

text \<open>What a processor establishes for a block and every later attempt keeps.\<close>

locale lasting_facts = block_processors +
  fixes k0 :: 'a and fact :: "'b \<Rightarrow> u32 \<Rightarrow> db \<Rightarrow> bool"
  assumes fact_view: "table_view (fact w b)"
    and fact_established: "bp_process_block (procs k0) w b s = (Ok (), s') \<Longrightarrow> fact w b s'"
    and fact_kept: "keeps (\<lambda>s t. fact w b s \<longrightarrow> fact w b t) (bp_process_block (procs k) v n)"
begin

lemma lasting:
  assumes "tasks_reachable procs n st" and "(k0, b, w, True) \<in> set (ix_log st)"
  shows "fact w b (ix_db st)"
  using assms
proof (induction rule: tasks_reachable.induct)
  case (init db)
  then show ?case by (simp add: tasks_init_def)
next
  case (step st x st')
  obtain k a where x: "x = (k, a)" by (cases x)
  show ?case
  proof (cases rule: table_view.view_next [OF fact_view [of w b] step.hyps(2) [unfolded x]])
    case 1
    with step show ?thesis by simp
  next
    case (2 c v r)
    show ?thesis
    proof (cases "(k0, b, w, True) \<in> set (ix_log st)")
      case True
      with step.IH keepsD [OF fact_kept [of w b k v c], of "ix_db st"] 2 show ?thesis by simp
    next
      case False
      with step.prems 2 fact_established show ?thesis by auto
    qed
  qed
qed

lemma checkpointed:
  assumes "tasks_reachable procs n st" and "stored (bp_checkpoint_key (procs k0)) (ix_db st) = Some c"
    and "1 \<le> b" and "b \<le> c"
  shows "\<exists>w. (k0, b, w, True) \<in> set (ix_log st) \<and> fact w b (ix_db st)"
  using completed_until [OF assms] lasting [OF assms(1)] by blast

end

end
