(* ===== verification/Indexer_Correct.thy ===== *)
theory Indexer_Correct
  imports Indexer_Loop
begin

section \<open>What the indexer has recorded\<close>

text \<open>
  The three processors of the program as an instance of \<open>block_processors\<close>, and what the tables
  hold up to their checkpoints: the deposits and withdrawals of the staking processor
  (\<open>recorded_rows\<close>) and the transfers of the two processors of cross-domain messages
  (\<open>lasting_facts\<close>). The last part is a run in which rows are lost.
\<close>

subsection \<open>The three processors\<close>

datatype block_task = ConsensusXdm | AutoEvmXdm | StakingTask

definition block_tasks :: "text_lib \<Rightarrow> codec \<Rightarrow> transfer decoder \<Rightarrow> block_task \<Rightarrow> chain_client block_processor" where
  "block_tasks T C D k = (case k of
     ConsensusXdm \<Rightarrow> XdmProcessor_new T C D Consensus
   | AutoEvmXdm \<Rightarrow> XdmProcessor_new T C D (Domain (DomainId 0))
   | StakingTask \<Rightarrow> StakingProcessor T C)"

definition only_transfers :: "db \<Rightarrow> db \<Rightarrow> bool" where
  "only_transfers s t \<longleftrightarrow> db_metadata t = db_metadata s \<and> db_deposits t = db_deposits s \<and>
     db_withdrawals t = db_withdrawals s"

lemma store_event_keeps: "keeps only_transfers (store_event T chain block t ev)"
  by (cases ev) (auto simp: only_transfers_def store_outgoing_transfer_initiated_def Let_def write_xdm_def transp_def
      store_outgoing_transfer_acknowledgement_def store_incoming_transfer_execution_def intro!: keeps_write_row)

lemma xdm_block_keeps: "keeps only_transfers (index_events_for_block T N C D chain n)"
proof -
  have R: "reflp only_transfers" "transp only_transfers"
    by (auto simp: only_transfers_def reflp_def transp_def)
  have "keeps only_transfers (if es = [] then ret () else p)" if "keeps only_transfers p" for es :: "'a list" and p
    using that R by auto
  then show ?thesis
    unfolding index_events_for_block_def store_events_def
    by (auto intro!: keeps_bind [OF R(2)] keeps_lift [OF R(1)] keeps_ret [OF R(1)] keeps_for [OF R] store_event_keeps)
qed

text \<open>The deposits and withdrawals at a height, and what the node's answers say they should be.\<close>

definition staking_rows_at :: "u32 \<Rightarrow> db \<Rightarrow> deposit_rec list \<times> withdrawal_rec list" where
  "staking_rows_at n s = (deposits_at n s, withdrawals_at n s)"

definition staking_denotes ::
  "text_lib \<Rightarrow> codec \<Rightarrow> chain_client \<Rightarrow> u32 \<Rightarrow> deposit_rec list \<times> withdrawal_rec list \<Rightarrow> bool" where
  "staking_denotes T C N n r \<longleftrightarrow> (\<exists>b t events fs es ws vs. block_ext_at_number (cl_node N) n = Ok b \<and>
     block_time_of T N C b = Ok t \<and> cl_events N (be_hash b) = Ok events \<and>
     find_events as_storage_fee events = map Ok fs \<and> find_events as_nominated events = map Ok es \<and>
     find_events as_withdrew events = map Ok ws \<and> map (read_withdrawal N C b) ws = map Ok vs \<and>
     r = (deposit_rows T n t es (foldl (push_fee T) Map.empty fs), map2 (withdrawal_row_of T n t) ws vs))"

lemma staking_rows_written:
  assumes "index_staking_for_block T N C n s = (Ok (), s')"
  shows "staking_denotes T C N n (staking_rows_at n s')"
proof -
  from staking_block [OF assms] obtain b t events where
    b: "block_ext_at_number (cl_node N) n = Ok b" "block_time_of T N C b = Ok t"
    "cl_events N (be_hash b) = Ok events" "index_staking_events T N C b n t events s = (Ok (), s')" .
  from staking_tables [OF b(4)] obtain fs es ws vs where
    ev: "find_events as_storage_fee events = map Ok fs" "find_events as_nominated events = map Ok es"
    "find_events as_withdrew events = map Ok ws" "map (read_withdrawal N C b) ws = map Ok vs"
    and rows: "db_deposits s' = delete_where (\<lambda>r. dr_block_height r = ucast n) (db_deposits s) @
        deposit_rows T n t es (foldl (push_fee T) Map.empty fs)"
      "db_withdrawals s' = delete_where (\<lambda>r. wr_block_height r = ucast n) (db_withdrawals s) @
        map2 (withdrawal_row_of T n t) ws vs" by blast
  have "filter (\<lambda>r. dr_block_height r = ucast n) (deposit_rows T n t es fees) = deposit_rows T n t es fees" for fees
    by (rule filter_True) (simp add: deposit_rows_height)
  moreover have "filter (\<lambda>r. wr_block_height r = ucast n) (map2 (withdrawal_row_of T n t) ws vs) = map2 (withdrawal_row_of T n t) ws vs"
    by (rule filter_True) (auto simp: withdrawal_row_of_def)
  ultimately have "staking_rows_at n s' = (deposit_rows T n t es (foldl (push_fee T) Map.empty fs), map2 (withdrawal_row_of T n t) ws vs)"
    by (simp add: staking_rows_at_def deposits_at_def withdrawals_at_def rows delete_where_def)
  with b ev show ?thesis unfolding staking_denotes_def by blast
qed

lemma staking_rows_other:
  assumes "same_other_rows n s t" and "b \<noteq> n"
  shows "staking_rows_at b t = staking_rows_at b s"
proof -
  have "deposits_at b u = filter (\<lambda>r. dr_block_height r = ucast b) (delete_where (\<lambda>r. dr_block_height r = ucast n) (db_deposits u))"
    "withdrawals_at b u = filter (\<lambda>r. wr_block_height r = ucast b) (delete_where (\<lambda>r. wr_block_height r = ucast n) (db_withdrawals u))" for u
    using assms(2) by (auto simp: deposits_at_def withdrawals_at_def delete_where_def intro: filter_cong)
  then show ?thesis using assms(1) by (simp add: staking_rows_at_def same_other_rows_def)
qed

lemma task_defs: "bp_process_block (block_tasks T C D k) N = (case k of
     ConsensusXdm \<Rightarrow> index_events_for_block T N C D Consensus
   | AutoEvmXdm \<Rightarrow> index_events_for_block T N C D (Domain (DomainId 0))
   | StakingTask \<Rightarrow> index_staking_for_block T N C)"
  by (simp add: block_tasks_def XdmProcessor_new_def StakingProcessor_def split: block_task.split)

interpretation indexer: recorded_rows "block_tasks T C D" StakingTask staking_rows_at "staking_denotes T C" for T C D
proof
  fix j k assume "bp_checkpoint_key (block_tasks T C D j) = bp_checkpoint_key (block_tasks T C D k)"
  then show "j = k"
    by (cases j; cases k) (simp_all add: block_tasks_def XdmProcessor_new_def StakingProcessor_def CHECKPOINT_KEY_def get_xdm_processor_key_def)
next
  fix k N n
  show "keeps same_metadata (bp_process_block (block_tasks T C D k) N n)"
    using xdm_block_keeps [of T N C D] block_keeps_other [of n T N C]
    by (auto simp: task_defs keeps_def same_metadata_def only_transfers_def same_other_rows_def split: block_task.split)
next
  fix N and b :: u32 and s s' assume "bp_process_block (block_tasks T C D StakingTask) N b s = (Ok (), s')"
  then show "staking_denotes T C N b (staking_rows_at b s')" by (simp add: task_defs staking_rows_written)
next
  fix k and b n :: u32 and N assume ne: "k \<noteq> StakingTask \<or> b \<noteq> n"
  show "keeps (\<lambda>s t. staking_rows_at b t = staking_rows_at b s) (bp_process_block (block_tasks T C D k) N n)"
  proof (cases "k = StakingTask")
    case True
    with ne staking_rows_other [OF keepsD [OF block_keeps_other]] show ?thesis by (simp add: task_defs keeps_def)
  next
    case False
    then show ?thesis using xdm_block_keeps [of T N C D]
      by (cases k) (auto simp: task_defs keeps_def only_transfers_def staking_rows_at_def deposits_at_def withdrawals_at_def)
  qed
qed (simp_all add: staking_rows_at_def deposits_at_def withdrawals_at_def)

text \<open>
  C3: in every state the indexer can reach, with its three processors at work on one database, any
  number of blocks in flight, any failing statement, any restart and answers of the node that
  change from block to block: every block from 1 up to the staking processor's checkpoint was
  indexed with success, and if the last attempt at it succeeded, the deposits and withdrawals
  stored at its height are exactly those that the node's answers at that attempt denote.
\<close>

theorem checkpointed_blocks_recorded:
  assumes "tasks_reachable (block_tasks T C D) n st" and "stored CHECKPOINT_KEY (ix_db st) = Some c"
    and "1 \<le> b" and "b \<le> c"
  shows "(\<exists>N. (StakingTask, b, N, True) \<in> set (ix_log st)) \<and>
    (\<forall>N. last_attempt StakingTask b (ix_log st) = Some (N, True) \<longrightarrow>
      staking_denotes T C N b (deposits_at b (ix_db st), withdrawals_at b (ix_db st)))"
proof
  show "\<exists>N. (StakingTask, b, N, True) \<in> set (ix_log st)"
    by (rule indexer.completed_until [OF assms(1) _ assms(3,4)])
      (simp add: assms(2) block_tasks_def StakingProcessor_def)
  show "\<forall>N. last_attempt StakingTask b (ix_log st) = Some (N, True) \<longrightarrow>
      staking_denotes T C N b (deposits_at b (ix_db st), withdrawals_at b (ix_db st))"
    using indexer.recorded [OF assms(1)] by (simp add: staking_rows_at_def)
qed

subsection \<open>Example runs\<close>

lemma ex_run_ok:
  assumes "db_faults s = None # None # None # None # None # None # None # None # fs"
  shows "\<exists>s'. index_staking_for_block plain_text ex_staking_client scale n s = (Ok (), s') \<and> db_faults s' = fs"
  using assms
  by (simp add: ex_staking_defs write_row_def execute_def)

lemma ex_run_fails:
  assumes "db_faults s = None # None # Some e # fs"
  shows "index_staking_for_block plain_text ex_staking_client scale n s = (Err (I_DB e),
    s\<lparr>db_deposits := delete_where (\<lambda>r. dr_block_height r = ucast n) (db_deposits s),
      db_withdrawals := delete_where (\<lambda>r. wr_block_height r = ucast n) (db_withdrawals s), db_faults := fs\<rparr>)"
  using assms
  by (simp add: ex_staking_defs write_row_def execute_def)

definition ex_message :: "u32 list \<Rightarrow> blocks_ext" where
  "ex_message ns = \<lparr>bx_blocks = map (\<lambda>n. ex_block\<lparr>be_number := n\<rparr>) ns, bx_maybe_reorg_data = None\<rparr>"

abbreviation idle_indexer :: "db \<Rightarrow> ('k \<times> 'w indexing_attempt) list \<Rightarrow> ('k, 'w) indexer" where
  "idle_indexer s log \<equiv> \<lparr>ix_db = s, ix_phase = (\<lambda>_. Receiving), ix_log = log\<rparr>"

definition ex_round :: "block_task \<Rightarrow> chain_client \<Rightarrow> u32 \<Rightarrow> (block_task \<times> chain_client act) list" where
  "ex_round k w b = map (Pair k) [Recv (Ok (ex_message [b])), Begin, Process 0 w, Take, EndRange]"

definition ex_failed_reorg :: "(block_task \<times> chain_client act) list" where
  "ex_failed_reorg = map (Pair StakingTask) [Recv (Ok (ex_message [1, 2])), Begin, Process 0 ex_staking_client, Take, Reboot]"

lemma get_last_stored:
  assumes "db_faults s = None # fs"
  shows "get_last_processed_block key s = (case stored key s of None \<Rightarrow> Err (I_DB RowNotFound) | Some b \<Rightarrow> Ok b, s\<lparr>db_faults := fs\<rparr>)"
  using assms by (simp add: get_last_processed_block_def query_def execute_def stored_def split: option.split)

lemma set_last_stored:
  assumes "db_faults s = None # fs"
  shows "\<exists>s'. set_last_processed_block key b s = (Ok (), s') \<and> db_faults s' = fs \<and> stored key s' = Some b \<and>
    (\<forall>n. staking_rows_at n s' = staking_rows_at n s)"
proof -
  obtain r s' where r: "set_last_processed_block key b s = (r, s')" by (cases "set_last_processed_block key b s")
  then have "r = Ok ()" "db_faults s' = fs" "staking_rows_at n s' = staking_rows_at n s" for n
    using assms by (auto simp: set_last_processed_block_def write_row_def execute_def staking_rows_at_def
        deposits_at_def withdrawals_at_def)
  with set_last_cases [OF r] r show ?thesis by auto
qed

lemma range_incl_single: "range_incl b b = [b :: u32]"
  by (simp add: range_incl_def)

lemma round_runs:
  assumes faults: "db_faults s = None # fs"
    and run: "bp_process_block (block_tasks T C D k) w b (s\<lparr>db_faults := fs\<rparr>) = (Ok (), s1)" "db_faults s1 = None # fs'"
    and last: "case_option 0 id (stored (bp_checkpoint_key (block_tasks T C D k)) s) = b - 1" "b \<noteq> 0"
      "\<not> is_multiple_of b CHECKPOINT_PROCESSED_BLOCK"
  shows "\<exists>s'. run_tasks (block_tasks T C D) 1 (ex_round k w b) (idle_indexer s log) =
      Some (idle_indexer s' (log @ [(k, b, w, True)])) \<and> db_faults s' = fs' \<and>
    stored (bp_checkpoint_key (block_tasks T C D k)) s' = Some b \<and> (\<forall>n. staking_rows_at n s' = staking_rows_at n s1)"
proof -
  let ?key = "bp_checkpoint_key (block_tasks T C D k)" and ?s0 = "s\<lparr>db_faults := fs\<rparr>"
  from set_last_stored [OF run(2), of ?key b] obtain s' where
    s': "set_last_processed_block ?key b s1 = (Ok (), s')" "db_faults s' = fs'"
      "stored ?key s' = Some b" "\<forall>n. staking_rows_at n s' = staking_rows_at n s1" by blast
  have "unwrap_or 0 (fst (get_last_processed_block ?key s)) = b - 1"
    using last(1) by (simp add: get_last_stored [OF faults] unwrap_or_def split: option.splits)
  moreover have "add_checked (b - 1) 1 = (Ok b :: (u32, indexer_error) result)"
    using last(2) by (cases "unat b") (auto simp: add_checked_Ok_iff unat_minus_one unat_eq_zero)
  ultimately have recv: "receive (block_tasks T C D k) (Ok (ex_message [b])) s = (?s0, Indexing b [b] [])"
    by (simp add: receive_def get_last_stored [OF faults] block_range_def ex_message_def stop_unless_def range_incl_single)
  have save: "save_checkpoint (block_tasks T C D k) b ph s1 = (s', ph)" for ph
    by (simp add: save_checkpoint_def s'(1) stop_unless_def)
  show ?thesis
    using run s' last(3)
    by (intro exI [of _ s'] conjI) (simp_all add: ex_round_def tasks_next_def recv save fun_upd_idem)
qed

lemma ex_round_runs:
  assumes faults: "db_faults s = replicate 10 None @ fs"
    and last: "case_option 0 id (stored CHECKPOINT_KEY s) = b - 1" "b \<noteq> 0" "\<not> is_multiple_of b CHECKPOINT_PROCESSED_BLOCK"
  shows "\<exists>s' s1. run_tasks (block_tasks plain_text scale D) 1 (ex_round StakingTask ex_staking_client b) (idle_indexer s log) =
      Some (idle_indexer s' (log @ [(StakingTask, b, ex_staking_client, True)])) \<and>
    db_faults s' = fs \<and> stored CHECKPOINT_KEY s' = Some b \<and>
    index_staking_for_block plain_text ex_staking_client scale b (s\<lparr>db_faults := replicate 9 None @ fs\<rparr>) = (Ok (), s1) \<and>
    (\<forall>n. staking_rows_at n s' = staking_rows_at n s1)"
proof -
  let ?s0 = "s\<lparr>db_faults := replicate 9 None @ fs\<rparr>"
  have ten: "db_faults s = None # replicate 9 None @ fs" using faults by (simp add: numeral_eq_Suc)
  have "db_faults ?s0 = None # None # None # None # None # None # None # None # None # fs" by (simp add: numeral_eq_Suc)
  from ex_run_ok [OF this] obtain s1 where
    s1: "index_staking_for_block plain_text ex_staking_client scale b ?s0 = (Ok (), s1)" "db_faults s1 = None # fs" by blast
  have key: "bp_checkpoint_key (block_tasks plain_text scale D StakingTask) = CHECKPOINT_KEY"
    by (simp add: block_tasks_def StakingProcessor_def)
  from round_runs [OF ten _ s1(2), of plain_text scale D StakingTask ex_staking_client b log] s1(1) last show ?thesis
    by (auto simp: key task_defs)
qed

lemma run_tasks_append:
  "run_tasks procs n (xs @ ys) st = Option.bind (run_tasks procs n xs st) (run_tasks procs n ys)"
  by (induction xs arbitrary: st) (simp_all split: bind_splits)

lemma ex_deposits_written:
  assumes "index_staking_for_block plain_text ex_staking_client scale n s = (Ok (), s')"
  shows "map dr_amount (deposits_at n s') = [50, 60]"
proof -
  have "find_events as_nominated events = [Ok \<lparr>on_operator_id = 1, on_nominator_id = 7, on_amount = 50\<rparr>,
       Ok \<lparr>on_operator_id = 1, on_nominator_id = 7, on_amount = 60\<rparr>]"
    if "cl_events ex_staking_client h = Ok events" for h events
    using that by (auto simp: ex_staking_client_def find_events_def ex_fee_def ex_nomination_def List.map_filter_simps)
  with staking_rows_written [OF assms] show ?thesis
    by (auto simp: staking_denotes_def staking_rows_at_def Cons_eq_map_conv Let_def split: prod.splits)
qed

lemma ex_reorg_fails:
  assumes faults: "db_faults s = None # None # None # Some e # fs" and last: "stored CHECKPOINT_KEY s = Some 1"
  shows "\<exists>s'. run_tasks (block_tasks plain_text scale D) 1 ex_failed_reorg (idle_indexer s log) =
      Some \<lparr>ix_db = s', ix_phase = (\<lambda>_. Receiving), ix_log = log @ [(StakingTask, 1, ex_staking_client, False)]\<rparr> \<and>
    db_faults s' = fs \<and> stored CHECKPOINT_KEY s' = Some 1 \<and> deposits_at 1 s' = []"
proof -
  let ?s0 = "s\<lparr>db_faults := None # None # Some e # fs\<rparr>"
  let ?s1 = "?s0\<lparr>db_deposits := delete_where (\<lambda>r. dr_block_height r = ucast (1 :: u32)) (db_deposits ?s0),
      db_withdrawals := delete_where (\<lambda>r. wr_block_height r = ucast (1 :: u32)) (db_withdrawals ?s0), db_faults := fs\<rparr>"
  have run: "index_staking_for_block plain_text ex_staking_client scale 1 ?s0 = (Err (I_DB e), ?s1)"
    by (rule ex_run_fails) simp
  have key: "bp_checkpoint_key (block_tasks plain_text scale D StakingTask) = CHECKPOINT_KEY"
    by (simp add: block_tasks_def StakingProcessor_def)
  have "add_checked 1 1 = (Ok 2 :: (u32, indexer_error) result)" by (simp add: add_checked_Ok_iff)
  moreover have "range_incl 1 (2 :: u32) = [1, 2]" by (simp add: range_incl_def upt_conv_Cons)
  ultimately have recv: "receive (block_tasks plain_text scale D StakingTask) (Ok (ex_message [1, 2])) s = (?s0, Indexing 2 [1, 2] [])"
    by (simp add: receive_def key get_last_stored [OF faults] last unwrap_or_def block_range_def ex_message_def stop_unless_def)
  have "deposits_at 1 ?s1 = []" "stored CHECKPOINT_KEY ?s1 = Some 1"
    using last by (simp_all add: deposits_at_def delete_where_def filter_empty_conv stored_def)
  then show ?thesis
    by (intro exI [of _ ?s1] conjI) (simp_all add: ex_failed_reorg_def tasks_next_def recv task_defs run fun_upd_idem)
qed

theorem checkpointed_blocks_recorded_witness:
  "\<exists>st. run_tasks (block_tasks plain_text scale (dec_fail (Scale_Error ''no transfer''))) 1 (ex_round StakingTask ex_staking_client 1) (tasks_init (empty_db\<lparr>db_faults := replicate 10 None\<rparr>)) = Some st \<and>
     staking_denotes plain_text scale ex_staking_client 1 (deposits_at 1 (ix_db st), withdrawals_at 1 (ix_db st))"
proof -
  let ?s = "empty_db\<lparr>db_faults := replicate 10 None\<rparr>"
  have h: "db_faults ?s = replicate 10 None @ []" "case_option 0 id (stored CHECKPOINT_KEY ?s) = 1 - (1 :: u32)"
    "\<not> is_multiple_of 1 CHECKPOINT_PROCESSED_BLOCK"
    by (simp_all add: stored_def empty_db_def is_multiple_of_def CHECKPOINT_PROCESSED_BLOCK_def)
  from ex_round_runs [OF h(1,2) _ h(3), of "dec_fail (Scale_Error ''no transfer'')" "[]"] obtain s where
    run: "run_tasks (block_tasks plain_text scale (dec_fail (Scale_Error ''no transfer''))) 1 (ex_round StakingTask ex_staking_client 1) (tasks_init ?s) =
      Some (idle_indexer s [(StakingTask, 1, ex_staking_client, True)])"
    and c: "stored CHECKPOINT_KEY s = Some 1" by (auto simp: tasks_init_def)
  have "tasks_reachable (block_tasks plain_text scale (dec_fail (Scale_Error ''no transfer''))) 1 (tasks_init ?s)"
    by (rule tasks_reachable.init) (simp add: empty_db_def)
  note reach = tasks_reachable_run [OF this run]
  have "staking_denotes plain_text scale ex_staking_client 1 (deposits_at 1 s, withdrawals_at 1 s)"
    using checkpointed_blocks_recorded [OF reach, of 1 1] c by (simp add: last_attempt_def)
  with run show ?thesis by auto
qed

definition ex_lossy_db :: db where
  "ex_lossy_db = empty_db\<lparr>db_faults := replicate 10 None @ [None, None, None, Some (Database ''connection closed'')] @ replicate 10 None\<rparr>"

text \<open>
  The condition on the last attempt is needed. Block 1 is indexed and the checkpoint stored;
  then a reorganisation brings block 1 anew, the connection to the database breaks after its
  old rows were deleted, and the program is restarted. The checkpoint still covers block 1, so
  the next message is indexed from block 2 on: the deposits of block 1 are gone and no
  checkpoint tells.
\<close>

theorem failed_reindex_loses_rows:
  "\<exists>st1 st2. run_tasks (block_tasks plain_text scale D) 1 (ex_round StakingTask ex_staking_client 1) (tasks_init ex_lossy_db) = Some st1 \<and>
     map dr_amount (deposits_at 1 (ix_db st1)) = [50, 60] \<and>
     run_tasks (block_tasks plain_text scale D) 1 (ex_failed_reorg @ ex_round StakingTask ex_staking_client 2) st1 = Some st2 \<and>
     ix_phase st2 StakingTask = Receiving \<and> stored CHECKPOINT_KEY (ix_db st2) = Some 2 \<and>
     map dr_amount (deposits_at 2 (ix_db st2)) = [50, 60] \<and> deposits_at 1 (ix_db st2) = []"
proof -
  let ?e = "Database ''connection closed''"
  have f0: "db_faults ex_lossy_db = replicate 10 None @ [None, None, None, Some ?e] @ replicate 10 None"
    by (simp add: ex_lossy_db_def)
  have c0: "case_option 0 id (stored CHECKPOINT_KEY ex_lossy_db) = 1 - (1 :: u32)"
    by (simp add: ex_lossy_db_def stored_def empty_db_def)
  have m: "\<not> is_multiple_of 1 CHECKPOINT_PROCESSED_BLOCK" "\<not> is_multiple_of 2 CHECKPOINT_PROCESSED_BLOCK"
    by (simp_all add: is_multiple_of_def CHECKPOINT_PROCESSED_BLOCK_def)
  from ex_round_runs [OF f0 c0 _ m(1), of D "[]"] obtain s1 t1 where
    r1: "run_tasks (block_tasks plain_text scale D) 1 (ex_round StakingTask ex_staking_client 1) (tasks_init ex_lossy_db) =
      Some (idle_indexer s1 [(StakingTask, 1, ex_staking_client, True)])"
    and s1: "db_faults s1 = None # None # None # Some ?e # replicate 10 None" "stored CHECKPOINT_KEY s1 = Some 1"
    and w1: "index_staking_for_block plain_text ex_staking_client scale 1
      (ex_lossy_db\<lparr>db_faults := replicate 9 None @ [None, None, None, Some ?e] @ replicate 10 None\<rparr>) = (Ok (), t1)"
      "\<forall>n. staking_rows_at n s1 = staking_rows_at n t1"
    by (auto simp: tasks_init_def)
  from ex_reorg_fails [OF s1, of D "[(StakingTask, 1, ex_staking_client, True)]"] obtain s2 where
    r2: "run_tasks (block_tasks plain_text scale D) 1 ex_failed_reorg (idle_indexer s1 [(StakingTask, 1, ex_staking_client, True)]) =
      Some (idle_indexer s2 [(StakingTask, 1, ex_staking_client, True), (StakingTask, 1, ex_staking_client, False)])"
    and s2: "db_faults s2 = replicate 10 None @ []" "case_option 0 id (stored CHECKPOINT_KEY s2) = 2 - 1" "deposits_at 1 s2 = []"
    by auto
  from ex_round_runs [OF s2(1,2) _ m(2), of D "[(StakingTask, 1, ex_staking_client, True), (StakingTask, 1, ex_staking_client, False)]"]
  obtain s3 t3 log where r3: "run_tasks (block_tasks plain_text scale D) 1 (ex_round StakingTask ex_staking_client 2) (idle_indexer s2 [(StakingTask, 1, ex_staking_client, True), (StakingTask, 1, ex_staking_client, False)]) =
      Some (idle_indexer s3 log)"
    and s3: "stored CHECKPOINT_KEY s3 = Some 2"
    and w3: "index_staking_for_block plain_text ex_staking_client scale 2 (s2\<lparr>db_faults := replicate 9 None @ []\<rparr>) = (Ok (), t3)"
      "\<forall>n. staking_rows_at n s3 = staking_rows_at n t3" by auto
  have "staking_rows_at 1 t3 = staking_rows_at 1 (s2\<lparr>db_faults := replicate 9 None @ []\<rparr>)"
    using keepsD [OF block_keeps_other [of 2 plain_text ex_staking_client scale], of "s2\<lparr>db_faults := replicate 9 None @ []\<rparr>"]
    by (intro staking_rows_other [where n = 2]) (simp_all add: w3(1) [simplified])
  then have "deposits_at 1 s3 = []" using w3(2) [rule_format, of 1] s2(3) by (simp add: staking_rows_at_def deposits_at_def)
  moreover have "map dr_amount (deposits_at 1 s1) = [50, 60]" "map dr_amount (deposits_at 2 s3) = [50, 60]"
    using ex_deposits_written [OF w1(1)] ex_deposits_written [OF w3(1)] w1(2) w3(2) by (simp_all add: staking_rows_at_def)
  ultimately show ?thesis
    using r1 r2 r3 s3
    by (intro exI [of _ "idle_indexer s1 [(StakingTask, 1, ex_staking_client, True)]"]
        exI [of _ "idle_indexer s3 log"]) (simp add: run_tasks_append)
qed

end
