(* ===== verification/Transfers_Indexed.thy ===== *)
theory Transfers_Indexed
  imports Indexer_Correct
begin

section \<open>Transfers up to the checkpoint\<close>

text \<open>
  The two processors of cross-domain transfers as instances of \<open>lasting_facts\<close>: once a block is
  indexed, each of its transfer events has a row with the columns of the event filled, and no
  statement of any processor takes that back.
\<close>

subsection \<open>The row of an event\<close>

text \<open>The columns an event fills, in whatever order events of its transfer arrive.\<close>

primrec event_recorded :: "xdm_event \<Rightarrow> xdm_rec \<Rightarrow> bool" where
  "event_recorded (XOutgoingTransferInitiated e) r \<longleftrightarrow>
     initiated_at r \<noteq> None \<and> xr_sender r \<noteq> None \<and> xr_receiver r \<noteq> None \<and> xr_amount r \<noteq> None"
| "event_recorded (XOutgoingTransferFailed e) r \<longleftrightarrow> fst (xr_acknowledged r) \<noteq> None \<and> xr_successful r \<noteq> None"
| "event_recorded (XOutgoingTransferSuccessful e) r \<longleftrightarrow> fst (xr_acknowledged r) \<noteq> None \<and> xr_successful r \<noteq> None"
| "event_recorded (XIncomingTransferSuccessful e) r \<longleftrightarrow>
     fst (xr_executed r) \<noteq> None \<and> xr_amount r \<noteq> None \<and> xr_successful r \<noteq> None"

definition route_row :: "text_lib \<Rightarrow> chain_id \<times> chain_id \<times> xdm_message_id \<Rightarrow> (xdm_rec, indexer_error) result" where
  "route_row T rt = (case rt of (src, dst, msg) \<Rightarrow> xdm_row T src dst msg)"

lemma store_event_row:
  "store_event T chain block t ev =
     write_xdm (event_merge ev) (map_ok (event_row T chain block t ev) (route_row T (event_route chain ev)))"
  by (cases "route_row T (event_route chain ev)"; cases ev)
    (simp_all add: store_outgoing_transfer_initiated_def store_outgoing_transfer_acknowledgement_def
      store_incoming_transfer_execution_def Let_def route_row_def)

lemma event_recorded_row: "event_recorded ev (event_row T c b t ev r)"
  "event_recorded ev (event_merge ev old (event_row T c b t ev r))"
  by (cases ev; simp add: event_merge_defs block_columns_def initiated_at_def)+

lemma event_recorded_merge:
  "event_recorded ev old \<Longrightarrow> event_recorded ev (event_merge ev' old (event_row T c b t ev' r))"
  by (cases ev; cases ev') (auto simp: event_merge_defs block_columns_def initiated_at_def)

subsection \<open>The events of a block\<close>

definition transfer_indexed :: "text_lib \<Rightarrow> chain_id \<Rightarrow> xdm_event \<Rightarrow> db \<Rightarrow> bool" where
  "transfer_indexed T chain ev s \<longleftrightarrow> (\<exists>r0 r. route_row T (event_route chain ev) = Ok r0 \<and>
     lookup xdm_key (xdm_key r0) (db_xdm_transfers s) = Some r \<and> event_recorded ev r)"

definition transfers_indexed ::
  "text_lib \<Rightarrow> codec \<Rightarrow> transfer decoder \<Rightarrow> chain_id \<Rightarrow> chain_client \<Rightarrow> u32 \<Rightarrow> db \<Rightarrow> bool" where
  "transfers_indexed T C D chain N n s \<longleftrightarrow> (\<exists>b events. block_ext_at_number (cl_node N) n = Ok b \<and>
     extract_xdm_events_for_block N C D chain b = Ok events \<and>
     (\<forall>ev \<in> set events. transfer_indexed T chain ev s))"

lemma upsert_recorded:
  assumes "lookup xdm_key k rows = Some r" and "event_recorded ev r"
  shows "\<exists>r'. lookup xdm_key k (upsert xdm_key (event_merge ev') (event_row T c b t ev' r0) rows) = Some r' \<and> event_recorded ev r'"
  using assms event_recorded_merge
  by (auto simp: keyed_table.lookup_upsert [OF event_merge_keyed] split: option.splits)

lemma store_event_keeps_indexed:
  "keeps (\<lambda>s t. transfer_indexed T chain ev s \<longrightarrow> transfer_indexed T chain ev t) (store_event T' c b t e)"
  unfolding store_event_row write_xdm_def
proof (rule keeps_write_row)
  fix r s assume "map_ok (event_row T' c b t e) (route_row T' (event_route c e)) = Ok r"
  then obtain r0 where r: "r = event_row T' c b t e r0" by (cases "route_row T' (event_route c e)") auto
  show "transfer_indexed T chain ev s \<longrightarrow>
      transfer_indexed T chain ev (s\<lparr>db_xdm_transfers := upsert xdm_key (event_merge e) r (db_xdm_transfers s)\<rparr>)"
    unfolding transfer_indexed_def r
    by (intro impI) (elim exE conjE, drule (1) upsert_recorded [where ev' = e and T = T' and c = c and b = b and t = t], auto)
qed (auto simp: transp_def transfer_indexed_def)

lemma store_event_indexed:
  assumes "store_event T chain b t ev s = (Ok (), s')"
  shows "transfer_indexed T chain ev s'"
proof -
  obtain r0 where r0: "route_row T (event_route chain ev) = Ok r0"
    using write_row_Ok [OF assms [unfolded store_event_row write_xdm_def]] by (cases "route_row T (event_route chain ev)") auto
  then have s': "db_xdm_transfers s' = upsert xdm_key (event_merge ev) (event_row T chain b t ev r0) (db_xdm_transfers s)"
    using write_row_Ok [OF assms [unfolded store_event_row write_xdm_def]] by auto
  show ?thesis
    using r0 event_recorded_row unfolding transfer_indexed_def s'
    by (auto simp: keyed_table.lookup_upsert [OF event_merge_keyed] split: option.splits)
qed

lemma store_events_indexed:
  assumes "store_events T chain b t events s = (Ok (), s')" and "ev \<in> set events"
  shows "transfer_indexed T chain ev s'"
  using assms unfolding store_events_def
proof (induction events arbitrary: s)
  case (Cons e events)
  from Cons.prems(1) obtain s1 where s1: "store_event T chain b t e s = (Ok (), s1)"
    "for_prog events (store_event T chain b t) s1 = (Ok (), s')"
    by (auto elim: then_prog_OkE)
  have "keeps (\<lambda>s t. transfer_indexed T chain ev s \<longrightarrow> transfer_indexed T chain ev t) (for_prog events (store_event T chain b t))"
    by (rule keeps_for) (auto simp: reflp_def transp_def intro: store_event_keeps_indexed)
  from keepsD [OF this, of s1] s1 have "transfer_indexed T chain ev s1 \<longrightarrow> transfer_indexed T chain ev s'" by simp
  with Cons s1 store_event_indexed show ?case by auto
qed simp

lemma xdm_block_indexed:
  assumes "index_events_for_block T N C D chain n s = (Ok (), s')"
  shows "transfers_indexed T C D chain N n s'"
  using assms store_events_indexed unfolding index_events_for_block_def transfers_indexed_def
  by (elim bind_lift_OkE) (auto simp: lift_map_err_Ok split: if_splits elim!: bind_lift_OkE)

lemma xdm_block_keeps_indexed:
  "keeps (\<lambda>s t. transfers_indexed T C D chain N n s \<longrightarrow> transfers_indexed T C D chain N n t) (index_events_for_block T' M C' D' c m)"
proof -
  let ?R = "\<lambda>s t. \<forall>ev. transfer_indexed T chain ev s \<longrightarrow> transfer_indexed T chain ev t"
  have R: "reflp ?R" "transp ?R" by (auto simp: reflp_def transp_def)
  have "keeps ?R (store_event T' c b t e)" for b t e
    using store_event_keeps_indexed [of T chain _ T' c b t e] by (auto simp: keeps_def)
  then have "keeps ?R (index_events_for_block T' M C' D' c m)"
    unfolding index_events_for_block_def store_events_def
    by (auto intro!: keeps_bind [OF R(2)] keeps_lift [OF R(1)] keeps_ret [OF R(1)] keeps_for [OF R])
  then show ?thesis unfolding keeps_def transfers_indexed_def by blast
qed

lemma staking_keeps_indexed:
  "keeps (\<lambda>s t. transfers_indexed T C D chain N n s \<longrightarrow> transfers_indexed T C D chain N n t) (index_staking_for_block T' M C' m)"
  using block_keeps_other [of m T' M C']
  by (simp add: keeps_def same_other_rows_def transfers_indexed_def transfer_indexed_def)

lemma xdm_lasting:
  assumes "\<And>N n. bp_process_block (block_tasks T C D k) N n = index_events_for_block T N C D chain n"
  shows "lasting_facts (block_tasks T C D) k (transfers_indexed T C D chain)"
proof
  show "transfers_indexed T C D chain N b s'" if "bp_process_block (block_tasks T C D k) N b s = (Ok (), s')" for N b s s'
    using that by (simp add: assms xdm_block_indexed)
  show "keeps (\<lambda>s t. transfers_indexed T C D chain N b s \<longrightarrow> transfers_indexed T C D chain N b t) (bp_process_block (block_tasks T C D j) M n)" for N b j M n
    using xdm_block_keeps_indexed staking_keeps_indexed by (cases j) (simp_all add: task_defs)
qed (simp_all add: transfers_indexed_def transfer_indexed_def)

interpretation consensus_transfers: lasting_facts "block_tasks T C D" ConsensusXdm "transfers_indexed T C D Consensus" for T C D
  by (rule xdm_lasting) (simp add: task_defs)

interpretation auto_evm_transfers: lasting_facts "block_tasks T C D" AutoEvmXdm "transfers_indexed T C D (Domain (DomainId 0))" for T C D
  by (rule xdm_lasting) (simp add: task_defs)


text \<open>
  C4: no transfer is missed: in every state the indexer can reach, every block from 1 up to the
  checkpoint of a processor of cross-domain transfers was indexed with success, and each
  transfer event that the node reported for it has its row, under the transfer's own key, with the
  columns of the event filled, whatever the other processors write, whatever is indexed again,
  whichever statement fails.
\<close>

theorem checkpointed_transfers_indexed:
  assumes "text_library T" and "tasks_reachable (block_tasks T C D) n st"
    and "(k, chain) \<in> {(ConsensusXdm, Consensus), (AutoEvmXdm, Domain (DomainId 0))}"
    and "stored (get_xdm_processor_key chain) (ix_db st) = Some c" and "1 \<le> b" and "b \<le> c"
  shows "\<exists>N block events. (k, b, N, True) \<in> set (ix_log st) \<and> block_ext_at_number (cl_node N) b = Ok block \<and>
    extract_xdm_events_for_block N C D chain block = Ok events \<and>
    (\<forall>ev \<in> set events. \<exists>r. lookup xdm_key (xdm_key (blank_row (event_route chain ev))) (db_xdm_transfers (ix_db st)) = Some r \<and>
      event_recorded ev r)"
proof -
  have key: "bp_checkpoint_key (block_tasks T C D k) = get_xdm_processor_key chain"
    using assms(3) by (auto simp: block_tasks_def XdmProcessor_new_def)
  have "\<exists>N. (k, b, N, True) \<in> set (ix_log st) \<and> transfers_indexed T C D chain N b (ix_db st)"
    using assms(3)
  proof (elim insertE emptyE)
    assume "(k, chain) = (ConsensusXdm, Consensus)"
    then show ?thesis
      using consensus_transfers.checkpointed [OF assms(2) _ assms(5,6)] assms(4) key by simp
  next
    assume "(k, chain) = (AutoEvmXdm, Domain (DomainId 0))"
    then show ?thesis
      using auto_evm_transfers.checkpointed [OF assms(2) _ assms(5,6)] assms(4) key by simp
  qed
  moreover have "route_row T rt = Ok (blank_row rt)" for rt
    by (cases rt) (simp add: route_row_def text_library.xdm_row_Ok [OF assms(1)])
  ultimately show ?thesis by (simp add: transfers_indexed_def transfer_indexed_def)
qed

definition ex_incoming_client :: chain_client where
  "ex_incoming_client = ex_staking_client\<lparr>cl_events := (\<lambda>_. Ok [Ok (Ed_IncomingTransferSuccessful (Ok
     \<lparr>is_chain_id = Domain (DomainId 0), is_message_id = (0, 1), is_amount = 10\<rparr>))])\<rparr>"

lemma ex_incoming_runs:
  assumes "db_faults s = None # fs"
  shows "\<exists>s'. index_events_for_block plain_text ex_incoming_client scale D Consensus n s = (Ok (), s') \<and> db_faults s' = fs"
proof -
  have time: "tl_datetime plain_text ms = Some (sint ms)" for ms by (simp add: plain_text_def)
  have amount: "numeric 39 (show_nat 10) = Ok 10" using numeric_u128 [of 10] by simp
  from assms show ?thesis
    by (simp add: index_events_for_block_def block_ext_at_number_def block_ext_at_hash_def ex_incoming_client_def
        ex_staking_client_def block_time_of_def timestamp_def read_storage_def try_read_storage_def decode_value_def
        ex_scale_u64 extract_xdm_events_for_block_def block_events_def as_events_def List.map_filter_simps store_events_def
        store_incoming_transfer_execution_def plain.xdm_row_Ok write_xdm_def write_row_def execute_def then_prog_def
        bind_prog_def time amount)
qed


theorem checkpointed_transfers_indexed_witness:
  "\<exists>st r. run_tasks (block_tasks plain_text scale (dec_fail (Scale_Error ''no transfer''))) 1 (ex_round ConsensusXdm ex_incoming_client 1)
       (tasks_init (empty_db\<lparr>db_faults := [None, None, None]\<rparr>)) = Some st \<and>
     lookup xdm_key (show_chain_id (Domain (DomainId 0)), show_chain_id Consensus, 0, 1) (db_xdm_transfers (ix_db st)) = Some r \<and>
     xr_amount r \<noteq> None"
proof -
  let ?s = "empty_db\<lparr>db_faults := [None, None, None]\<rparr>" and ?D = "dec_fail (Scale_Error ''no transfer'')"
  let ?ev = "XIncomingTransferSuccessful \<lparr>is_chain_id = Domain (DomainId 0), is_message_id = (0, 1), is_amount = 10\<rparr>"
  have key: "bp_checkpoint_key (block_tasks plain_text scale ?D ConsensusXdm) = get_xdm_processor_key Consensus"
    by (simp add: block_tasks_def XdmProcessor_new_def)
  have h: "db_faults ?s = None # [None, None]" "case_option 0 id (stored key ?s) = 1 - (1 :: u32)"
    "\<not> is_multiple_of 1 CHECKPOINT_PROCESSED_BLOCK" for key
    by (simp_all add: stored_def empty_db_def is_multiple_of_def CHECKPOINT_PROCESSED_BLOCK_def)
  obtain s1 where s1: "index_events_for_block plain_text ex_incoming_client scale ?D Consensus 1 (?s\<lparr>db_faults := [None, None]\<rparr>) = (Ok (), s1)"
    "db_faults s1 = [None]" using ex_incoming_runs [of "?s\<lparr>db_faults := [None, None]\<rparr>" "[None]"] by auto
  from round_runs [OF h(1) _ s1(2) h(2) _ h(3), of plain_text scale ?D ConsensusXdm ex_incoming_client "[]"] s1(1) obtain s' where
    run: "run_tasks (block_tasks plain_text scale ?D) 1 (ex_round ConsensusXdm ex_incoming_client 1) (tasks_init ?s) =
      Some (idle_indexer s' [(ConsensusXdm, 1, ex_incoming_client, True)])"
    and c: "stored (get_xdm_processor_key Consensus) s' = Some 1"
    by (auto simp: tasks_init_def task_defs key)
  have "tasks_reachable (block_tasks plain_text scale ?D) 1 (tasks_init ?s)"
    by (rule tasks_reachable.init) (simp add: empty_db_def)
  note reach = tasks_reachable_run [OF this run]
  have "extract_xdm_events_for_block ex_incoming_client scale ?D Consensus b = Ok [?ev]" for b
    by (simp add: extract_xdm_events_for_block_def ex_incoming_client_def block_events_def as_events_def List.map_filter_simps)
  with checkpointed_transfers_indexed [OF plain.text_library_axioms reach, of ConsensusXdm Consensus 1 1] c
  have "\<exists>r. lookup xdm_key (xdm_key (blank_row (event_route Consensus ?ev))) (db_xdm_transfers s') = Some r \<and> event_recorded ?ev r"
    by auto
  with run show ?thesis by (auto simp: blank_row_def xdm_key_def)
qed

end
