(* ===== verification/Broadcast_Channel.thy ===== *)
theory Broadcast_Channel
  imports Processor
begin

section \<open>The channel between the listener and the processors\<close>

text \<open>
  The listener sends its messages to a broadcast channel of 100 messages
  (\<open>shared/src/subspace.rs\<close>), and \<open>run_processor\<close> goes on after it missed some. The channel is
  a library's: \<open>delivers\<close> states what it documents. The lemmas follow a processor through what
  it is delivered.
\<close>

subsection \<open>Deliveries\<close>

text \<open>
  What a receiver of the broadcast channel gets, as its documentation has it: the messages in the
  order they were sent, and, when it was too slow, an error with the number of messages it
  missed, after which it goes on with the next one that is still there.
\<close>

inductive delivers :: "blocks_ext list \<Rightarrow> (blocks_ext, recv_error) result list \<Rightarrow> bool" where
  none: "delivers ms []"
| message: "delivers ms rs \<Longrightarrow> delivers (m # ms) (Ok m # rs)"
| lag: "0 < k \<Longrightarrow> k \<le> length ms \<Longrightarrow> delivers (drop k ms) rs \<Longrightarrow> delivers ms (Err (Lagged (of_nat k)) # rs)"

inductive_cases delivers_lagE: "delivers ms (Err e # rs)"

lemma delivers_results:
  "delivers ms rs \<Longrightarrow> r \<in> set rs \<Longrightarrow> (\<exists>k. r = Err (Lagged k)) \<or> (\<exists>m \<in> set ms. r = Ok m)"
proof (induction rule: delivers.induct)
  case (lag k ms rs)
  then show ?case by (auto dest: in_set_dropD)
qed auto

definition good_message :: "blocks_ext \<Rightarrow> bool" where
  "good_message m \<longleftrightarrow> bx_blocks m \<noteq> [] \<and> (\<forall>b \<in> set (bx_blocks m). be_number b < - 1)"

lemma block_range_till: "block_range c blocks = Ok (fr, till) \<Longrightarrow> till \<in> be_number ` set blocks"
proof (cases blocks rule: list.exhaust)
  case (Cons b bs)
  assume "block_range c blocks = Ok (fr, till)"
  moreover have "Max (set (map be_number blocks)) \<in> set (map be_number blocks)" by (rule Max_in) (simp_all add: Cons)
  ultimately show ?thesis using Cons by (cases bs) (auto simp: block_range_def add_checked_def split: if_splits)
qed (simp add: block_range_def)

text \<open>A message is carried through, or its one block is covered by the checkpoint.\<close>

lemma message_step:
  assumes "0 < n" and "pr_phase p = Receiving" and "last_processed p True < - 1" and "good_message m"
  shows "\<exists>cs p'. list_all internal cs \<and> run_processor n (Got (Ok m) True # cs) p = Some p' \<and> pr_phase p' = Receiving \<and>
    last_processed p' True < - 1 \<and> (\<forall>b \<in> set (bx_blocks m). be_number b \<le> last_processed p' True)"
proof -
  let ?c = "last_processed p True"
  have "unat ?c < unat (- 1 :: u32)" using assms(3) by (simp add: word_less_nat_alt)
  then have "unat ?c + 1 < 2 ^ 32" by (simp add: unsigned_minus_1_eq_mask mask_eq_exp_minus_1)
  with assms(4) obtain fr till where range: "block_range ?c (bx_blocks m) = Ok (fr, till)"
    and iff: "fr \<le> till \<longleftrightarrow> 2 \<le> length (bx_blocks m) \<or> ?c < be_number (hd (bx_blocks m))"
    and cover: "fr \<le> till \<Longrightarrow> be_number ` set (bx_blocks m) \<subseteq> {fr..till}"
    unfolding good_message_def using block_range_covers by metis
  show ?thesis
  proof (cases "fr \<le> till")
    case True
    let ?q = "p\<lparr>pr_phase := Indexing till (range_incl fr till) []\<rparr>" and ?cs = "one_by_one (length (range_incl fr till))"
    have "proc_next n (Got (Ok m) True) p = Some ?q"
      using assms(2) range True by (auto simp: proc_next_def on_message_def)
    moreover have "list_all internal ?cs" by (auto simp: one_by_one_def list_all_iff)
    moreover obtain p' where "run_processor n ?cs ?q = Some p'" "pr_phase p' = Receiving" "pr_checkpoint p' = Some till"
      using one_by_one_run [OF assms(1), of ?q] by auto
    moreover have "till < - 1" using block_range_till [OF range] assms(4) by (auto simp: good_message_def)
    ultimately show ?thesis
      using cover [OF True] by (intro exI [of _ ?cs] exI [of _ p']) (auto simp: last_processed_def)
  next
    case False
    then have "proc_next n (Got (Ok m) True) p = Some p"
      using assms(2) range by (auto simp: proc_next_def on_message_def)
    moreover obtain b where "bx_blocks m = [b]" "be_number b \<le> ?c"
      using False iff assms(4) by (cases "bx_blocks m"; cases "tl (bx_blocks m)") (auto simp: good_message_def)
    ultimately show ?thesis using assms(2,3) by (intro exI [of _ "[]"] exI [of _ p]) simp
  qed
qed

lemma deliveries_run:
  assumes "0 < n" and "\<forall>r \<in> set rs. (\<exists>k. r = Err (Lagged k)) \<or> (\<exists>m. r = Ok m \<and> good_message m)"
    and "pr_phase p = Receiving" and "last_processed p True < - 1"
  shows "\<exists>cs p'. filter (\<lambda>c. \<not> internal c) cs = map (\<lambda>r. Got r True) rs \<and> run_processor n cs p = Some p' \<and>
    pr_phase p' = Receiving \<and> last_processed p' True < - 1"
  using assms(2-)
proof (induction rs arbitrary: p)
  case Nil
  then show ?case by (intro exI [of _ "[]"] exI [of _ p]) simp
next
  case (Cons r rs)
  have "\<exists>cs q. list_all internal cs \<and> run_processor n (Got r True # cs) p = Some q \<and> pr_phase q = Receiving \<and>
      last_processed q True < - 1"
  proof (cases "\<exists>k. r = Err (Lagged k)")
    case True
    then show ?thesis using Cons.prems by (intro exI [of _ "[]"] exI [of _ p]) (auto simp: proc_next_def on_message_def)
  next
    case False
    with Cons.prems message_step [OF assms(1)] show ?thesis by fastforce
  qed
  then obtain cs q where q: "list_all internal cs" "run_processor n (Got r True # cs) p = Some q"
    "pr_phase q = Receiving" "last_processed q True < - 1" by blast
  from Cons.IH [OF _ q(3,4)] Cons.prems obtain ds p' where
    "filter (\<lambda>c. \<not> internal c) ds = map (\<lambda>r. Got r True) rs"
    and ds: "run_processor n ds q = Some p'" "pr_phase p' = Receiving" "last_processed p' True < - 1" by auto
  moreover have "run_processor n ((Got r True # cs) @ ds) p = Some p'" unfolding run_processor_append q(2) by (simp add: ds)
  moreover have "filter (\<lambda>c. \<not> internal c) cs = []" using q(1) by (simp add: list_all_iff filter_empty_conv)
  ultimately show ?case
    by (intro exI [of _ "(Got r True # cs) @ ds"] exI [of _ p'] conjI) simp_all
qed

lemma reachable_done:
  assumes "reachable n p" and "1 \<le> b" and "b \<le> last_processed p True"
  shows "b \<in> set (pr_completed p)"
proof (cases "pr_checkpoint p")
  case (Some c)
  then have "done_until p (Suc (unat c))" using reachable_ok [OF assms(1)] by (simp add: proc_ok_def)
  then show ?thesis
    using assms(2,3) Some by (auto simp: done_until_def last_processed_def word_le_nat_alt dest!: spec [of _ "unat b"])
qed (use assms in \<open>simp add: last_processed_def\<close>)

subsection \<open>A reorganisation that is missed\<close>

text \<open>
  The blocks still to be indexed only shrink, and nothing else is indexed. So when a message was
  missed and the next one extends the chain by one block, no block at or below the
  checkpoint is indexed anew, whatever the missed message replaced.
\<close>

definition pending :: "proc \<Rightarrow> u32 set" where
  "pending p = (case pr_phase p of Indexing till todo flight \<Rightarrow> fst ` set flight \<union> set todo | _ \<Rightarrow> {})"

lemma internal_pending:
  assumes "proc_next n c p = Some p'" and "internal c"
  shows "pending p' \<subseteq> pending p \<and> (\<exists>new. pr_completed p' = pr_completed p @ new \<and> set new \<subseteq> pending p)"
proof (cases c)
  case (Complete i r)
  with assms obtain till todo flight where ph: "pr_phase p = Indexing till todo flight" and i: "i < length flight"
    and p': "p' = complete i r till todo flight p"
    by (auto simp: proc_next_def split: phase.splits if_splits)
  have "fst ` set (flight[i := (fst (flight ! i), Finished r)]) \<subseteq> fst ` set flight"
    using set_update_subset_insert [of flight i] i by fastforce
  moreover have "fst (flight ! i) \<in> fst ` set flight" using i by simp
  ultimately show ?thesis using ph p' by (auto simp: complete_def pending_def)
next
  case (Yield fault)
  with assms obtain till todo flight where ph: "pr_phase p = Indexing till todo flight"
    and y: "yield_next fault till todo flight p = Some p'"
    by (auto simp: proc_next_def split: phase.splits)
  from y ph show ?thesis
    by (cases "(fault, till, todo, flight, p)" rule: yield_next.cases)
      (auto simp: write_checkpoint_def pending_def split: if_splits option.splits)
qed (use assms in \<open>auto simp: proc_next_def write_checkpoint_def pending_def
    split: phase.splits list.splits if_splits option.splits\<close>)

lemma run_pending:
  assumes "run_processor n cs p = Some p'" and "list_all internal cs"
  shows "\<exists>new. pr_completed p' = pr_completed p @ new \<and> set new \<subseteq> pending p"
  using assms
proof (induction cs arbitrary: p)
  case (Cons c cs)
  then obtain q where q: "proc_next n c p = Some q" "run_processor n cs q = Some p'" by (auto split: bind_splits)
  with Cons.IH [OF q(2)] Cons.prems(2) internal_pending [OF q(1)] show ?case by fastforce
qed simp

lemma lost_reorg_not_reindexed:
  assumes "pr_phase p = Receiving" and "pr_checkpoint p = Some c" and "unat c + 1 < 2 ^ 32"
    and "bx_blocks m = [b]" and "be_number b = c + 1" and "list_all internal cs"
    and "run_processor n (Got (Err (Lagged k)) True # Got (Ok m) True # cs) p = Some p'"
  shows "\<exists>new. pr_completed p' = pr_completed p @ new \<and> set new \<subseteq> {c + 1}"
proof -
  let ?q = "p\<lparr>pr_phase := Indexing (c + 1) [c + 1] []\<rparr>"
  have "range_incl (c + 1) (c + 1) = [c + 1]" by (simp add: range_incl_def)
  moreover have "add_checked c 1 = (Ok (c + 1) :: (u32, indexer_error) result)"
    using assms(3) by (simp add: add_checked_def)
  ultimately have "run_processor n cs ?q = Some p'"
    using assms(1,2,4,5,7) by (simp add: proc_next_def on_message_def last_processed_def block_range_def)
  from run_pending [OF this assms(6)] show ?thesis by (simp add: pending_def)
qed

end
