(* ===== verification/Spec2Isabelle.thy ===== *)
theory Spec2Isabelle
  imports Listener_Correct Stall_Reorg Slots Api_Correct Entry_Points Transfers_Indexed Broadcast_Channel
begin

section \<open>chain-pulse: a verification development\<close>

text \<open>
  \<^bold>\<open>The program.\<close> chain-pulse watches the Autonomys network. It is three crates.
  \<^item> \<open>src/shared\<close> is the client of a node: it follows the best chain, keeps a cache of headers,
    broadcasts each extension or reorganisation of the chain as a message, and reads the state
    and the events of blocks.
  \<^item> \<open>src/alerter\<close> runs monitors on those messages and on the gossip of the network (stalled
    production and deep reorganisations, slow or missing slots, transfers, low balances and
    other events) and posts their alerts to Slack.
  \<^item> \<open>src/indexer\<close> runs one processor per chain for cross-domain transfers and one for staking;
    each indexes the blocks of the messages into PostgreSQL and stores a checkpoint. An HTTP API
    answers queries from the tables.

  \<^bold>\<open>Conventions.\<close> A fallible function returns \<open>result\<close>: a value, an error or a panic (the
  release profile checks overflow, so an overflow is a panic). A stateful one is a \<open>prog\<close>,
  state in, outcome and state out: an error keeps what was done before it. A task that loops
  for ever on a channel is a definition over the list of what it received so far. Machine
  integers are words; signed columns are words read with \<open>sint\<close>. Code outside the
  repository is a parameter: the node's answers (\<open>node\<close>, \<open>client\<close>), the SCALE primitives
  (\<open>codec\<close>), texts of third-party types (\<open>text_lib\<close>, \<open>format_lib\<close>), the route between two
  blocks (\<open>tree_route\<close>), the bounded vector of the slot monitor (\<open>push\<close>), the order in which
  PostgreSQL scans a table (\<open>scan\<close>); what is relied on is a locale (\<open>scale_codec\<close>,
  \<open>text_library\<close>, \<open>format_library\<close>, \<open>bounded_window\<close>) with a concrete interpretation, or a
  law (\<open>scan_law\<close>). Database statements fail as the list \<open>db_faults\<close> of the state says.

  \<^bold>\<open>Theories.\<close>
  \<^item> \<open>Prelude\<close>: results, programs and the invariants they keep, decimal text, ranges.
    \<open>Scale_Codec\<close>: decoders and the SCALE primitives. \<open>Table\<close>: tables with a primary key.
  \<^item> \<open>Shared_Types\<close>, \<open>Headers_Cache\<close>, \<open>Tree_Route\<close>, \<open>Block_Listener\<close>, \<open>Subspace_Client\<close>:
    \<open>shared/src/error.rs\<close>, \<open>types.rs\<close> and \<open>subspace.rs\<close>: header cache, tree routes with fetching
    of missing headers, the listener with its reconnects, storage and event reads.
    \<open>Listener_Correct\<close>: a consumer that applies the messages holds a parent-linked chain that
    ends in the listener's best block; messages are well formed; the listener outlives lost
    connections and ends only when subscribing again fails or on a panic.
  \<^item> \<open>Alert_Types\<close>, \<open>Stall_Reorg\<close>, \<open>Slots\<close>, \<open>Alert_Events\<close>, \<open>Peer_Network\<close>, \<open>Md_Format\<close>,
    \<open>Slack\<close>: the files of \<open>alerter/src\<close> with the same names (\<open>stall_and_reorg.rs\<close>, \<open>slots.rs\<close>,
    \<open>events.rs\<close> and \<open>event_types.rs\<close>, \<open>p2p_network.rs\<close>, \<open>md_format.rs\<close>, \<open>slack.rs\<close>): which
    alerts are raised, exactly when, that none is lost or reported twice, that peers have one
    role, that copies of gossip do no harm while slots come on time and hide a stall otherwise,
    that every alert is posted in order up to the first one that cannot be written.
  \<^item> \<open>Rpc_Types\<close>, \<open>Indexer_Types\<close>: the hand-written decoders of \<open>indexer/src/rpc_types.rs\<close> and
    \<open>types.rs\<close>, the events and errors. Round trips with the documented layouts.
  \<^item> \<open>Db_Storage\<close>, \<open>Storage_Correct\<close>: every method of \<open>Db\<close> in \<open>storage.rs\<close> over the tables of
    the migrations. Unique keys whatever fails, latest block wins for nominators, counters.
  \<^item> \<open>Xdm\<close>, \<open>Staking\<close>, \<open>Staking_Correct\<close>, \<open>Processor\<close>: \<open>xdm.rs\<close>, \<open>staking.rs\<close> and
    \<open>processor.rs\<close>. Extraction is exact, the row of a transfer is the one read off the successful
    writes of the two chains, in whatever order they come, the deposits and withdrawals of a block
    are those of its events and re-indexing does not change them, a stored checkpoint never
    skips a block in any interleaving of the concurrent blocks, and a range of blocks is carried
    through when nothing fails.
  \<^item> \<open>Interleave\<close>, \<open>Staking_Code\<close>, \<open>Concurrent_Blocks\<close>: what blocks in flight together do to
    each other. \<open>Interleave\<close> has the locales: steps that commute, steps that also may be
    repeated, and programs that execute a list of statements (\<open>code_shape\<close>).
    \<open>Staking_Code\<close> shows that indexing a block, on every path, executes a list of statements of that
    block. \<open>Concurrent_Blocks\<close> interleaves those lists, with the one statement that has a
    subselect in two parts: nominators, deposits and withdrawals come out as if the blocks had
    been indexed one after another; a counter may end up stale and the status of an operator
    is the one written last.
  \<^item> \<open>Indexer_Loop\<close>, \<open>Indexer_Correct\<close>, \<open>Transfers_Indexed\<close>: the loop of \<open>Processor\<close> on the
    database, with the trait \<open>BlockProcessor\<close> as a record, and the three processors that
    \<open>main.rs\<close> spawns. Indexing one block is one step here. Each processor refines the loop. Up to the staking checkpoint every block
    was indexed and, if the last attempt at it succeeded, its deposits and withdrawals are
    those of its events; a run shows that the condition is needed. Up to the checkpoint of a
    transfer processor every transfer event has its row.
  \<^item> \<open>Broadcast_Channel\<close>: what a slow processor is delivered, and that it catches up.
  \<^item> \<open>Api\<close>, \<open>Api_Correct\<close>: the handlers of \<open>api.rs\<close>. Bounded, ordered and complete pages, the
    way of an operator from the chain's bytes and of a block's nominations and withdrawals from
    its events to the JSON answer, the share price of an epoch, health and errors.
  \<^item> \<open>Entry_Points\<close>: connecting, \<open>Db::new\<close>, the uptime push and the two \<open>main.rs\<close>: what each
    program checks, sets and spawns to start, in which order, and how it ends.
  \<^item> This theory: what the monitors have in common, the way of their alerts to Slack, and the way
    of a block from the listener's message to the index, with and without missed messages.

  \<^bold>\<open>Bounds and fuel.\<close> No definition has fuel. \<open>recursive_tree_route\<close> is a partial function
  (\<open>None\<close> when it does not return) and is proved to return when the route asks only for
  uncached hashes of a finite set that the node serves. The processing loop is a step relation
  chosen by a schedule; a range of blocks ends within three steps per block and one. Constants are
  those of the code: 100 cached headers, a window of 600 slots, a timeout of 30 seconds, a
  checkpoint every 100 blocks, pages of 50 rows, 10 recent transfers.

  \<^bold>\<open>Not modelled.\<close> The reconnects inside the RPC client, the runtime metadata updater, the
  logging of the connection pool, the libp2p swarm and its configuration, HTTP clients and
  timers, argument parsing and logging: input and output of libraries, without state of the
  program's own. Routing and parsing of requests is the web framework's. The broadcast channel
  is a library's: its documented behaviour is the predicate \<open>delivers\<close>, not a queue. A statement
  that fails has no effect: that the database commits it and only the answer is lost is not
  modelled. One view of the node serves all calls made for one received block.
\<close>

subsection \<open>What the monitors send can be written\<close>

definition alerts_fit :: "alert list \<Rightarrow> bool" where
  "alerts_fit = list_all alert_fits"

lemma stall_step_fits: "preserves (\<lambda>st. alerts_fit (stall_alerts st)) (stall_step cfg i)"
  unfolding preserves_def
proof (intro allI impI)
  fix st :: stall_state assume fits: "alerts_fit (stall_alerts st)"
  have "alerts_fit (recovery_alerts t b)" "alerts_fit (reorg_alerts n r b)" for t b n r
    by (auto simp: alerts_fit_def recovery_alerts_def reorg_alerts_def split: option.splits)
  then show "alerts_fit (stall_alerts (snd (stall_step cfg i st)))"
    using fits
    by (cases "(cfg, i, st)" rule: stall_step.cases)
      (auto simp: alerts_fit_def on_timeout_def on_blocks_def Let_def split: option.splits list.splits)
qed

lemma slot_step_fits: "preserves (\<lambda>st. alerts_fit (sm_alerts st)) (slot_step push cfg i)"
  unfolding preserves_def
proof (intro allI impI)
  fix st :: slot_state assume fits: "alerts_fit (sm_alerts st)"
  have "alerts_fit (recovered t n)" "alerts_fit (slow_slot_alerts cfg n m d)" "alerts_fit (avg_alerts cfg n k d)" for t n m d k
    by (auto simp: alerts_fit_def recovered_def slow_slot_alerts_def avg_alerts_def split: option.splits)
  then have "alerts_fit (sm_alerts (snd (extend_slots push cfg l info st)))" for l info
    using fits by (auto simp: alerts_fit_def extend_slots_def Let_def split: result.splits)
  then show "alerts_fit (sm_alerts (snd (slot_step push cfg i st)))"
    using fits
    by (cases "(push, cfg, i, st)" rule: slot_step.cases)
      (auto simp: alerts_fit_def on_slot_timeout_def on_slot_def Let_def split: option.splits list.splits result.splits)
qed

lemma stall_monitor_fits:
  "list_all alert_fits (stall_alerts (snd (watch_chain_stall_and_reorg scfg blocks stall_init)))"
proof -
  have "preserves (\<lambda>st. alerts_fit (stall_alerts st)) (watch_chain_stall_and_reorg scfg blocks)"
    unfolding watch_chain_stall_and_reorg_def by (intro preserves_for stall_step_fits)
  from preservesD [OF this, of stall_init] show ?thesis
    by (simp add: alerts_fit_def stall_init_def)
qed

lemma slot_monitor_fits:
  "list_all alert_fits (sm_alerts (snd (monitor_slots push cfg slots (slots_init t))))"
proof -
  have "preserves (\<lambda>st. alerts_fit (sm_alerts st)) (monitor_slots push cfg slots)"
    unfolding monitor_slots_def by (intro preserves_for slot_step_fits)
  from preservesD [OF this, of "slots_init t"] show ?thesis
    by (simp add: alerts_fit_def slots_init_def)
qed

subsection \<open>From the monitors to Slack\<close>

text \<open>
  The three monitors send to one unbounded channel, so what the Slack task receives is some
  interleaving of what they send.
\<close>

datatype monitor = BlockMonitor | SlotMonitor | EventMonitor

fun sent_by :: "alert list \<Rightarrow> alert list \<Rightarrow> alert list \<Rightarrow> monitor \<Rightarrow> alert list" where
  "sent_by blocks slots events BlockMonitor = blocks"
| "sent_by blocks slots events SlotMonitor = slots"
| "sent_by blocks slots events EventMonitor = events"

lemma UNIV_monitor: "UNIV = {BlockMonitor, SlotMonitor, EventMonitor}"
  by (auto intro: monitor.exhaust)

lemma texts_of_task:
  "map (\<lambda>x. f (snd x)) h = map Ok texts \<Longrightarrow>
    map f (map snd (filter (\<lambda>x. fst x = k) h)) = map (\<lambda>x. Ok (snd x)) (filter (\<lambda>x. fst (fst x) = k) (zip h texts))"
proof (induction h arbitrary: texts)
  case (Cons x h)
  then obtain t ts where "texts = t # ts" "f (snd x) = Ok t" "map (\<lambda>x. f (snd x)) h = map Ok ts"
    by (cases texts) auto
  with Cons.IH show ?case by simp
qed simp

text \<open>
  C20: no alert is lost between the monitors and Slack up to the first one that cannot be written.
  With at most 28 token decimals, whatever the three monitors receive, however their alerts
  interleave on the channel and whatever posts fail, one request is made per alert, in order,
  up to the first alert with an amount beyond the decimal type's 96 bits. Only the event
  monitor can send such an alert; the Slack task ends exactly if it does. If it does not, the
  texts posted for each monitor are those of all the alerts it sent, in the order it sent them.
\<close>

theorem every_monitor_alert_posted:
  assumes "format_library L" and "unat (fc_token_decimals cfg) \<le> 28"
    and "interleaves (sent_by (stall_alerts (snd (watch_chain_stall_and_reorg scfg blocks stall_init)))
        (sm_alerts (snd (monitor_slots push slcfg slots (slots_init t))))
        (snd (watch_events parse N C accounts watched d inputs []))) UNIV h"
    and "length answers = length h" and "list_all (\<lambda>r. \<forall>p. r \<noteq> Panic p) answers"
  shows "\<exists>texts outcome. slack_run L cfg s version (Ok ()) (map Some (zip (map snd h) answers)) [] =
      (outcome, map (post_request_of s version) texts) \<and>
    map (format_alert L cfg) (takeWhile alert_fits (map snd h)) = map Ok texts \<and>
    (outcome = Ok () \<longleftrightarrow> list_all alert_fits (snd (watch_events parse N C accounts watched d inputs []))) \<and>
    (outcome = Ok () \<longrightarrow> (\<forall>k. map (format_alert L cfg)
        (sent_by (stall_alerts (snd (watch_chain_stall_and_reorg scfg blocks stall_init)))
          (sm_alerts (snd (monitor_slots push slcfg slots (slots_init t))))
          (snd (watch_events parse N C accounts watched d inputs [])) k) =
      map (\<lambda>x. Ok (snd x)) (filter (\<lambda>x. fst (fst x) = k) (zip h texts))))"
proof -
  let ?events = "snd (watch_events parse N C accounts watched d inputs [])"
  let ?sent = "sent_by (stall_alerts (snd (watch_chain_stall_and_reorg scfg blocks stall_init)))
        (sm_alerts (snd (monitor_slots push slcfg slots (slots_init t)))) ?events"
  have own: "map snd (filter (\<lambda>x. fst x = k) h) = ?sent k" for k
    using assms(3) by (simp add: interleaves_def)
  have "set (map snd h) = (\<Union>k. set (?sent k))" unfolding own [symmetric] by auto
  also have "\<dots> = set (?sent BlockMonitor) \<union> set (?sent SlotMonitor) \<union> set ?events"
    by (auto simp: UNIV_monitor)
  finally have fits: "list_all alert_fits (map snd h) \<longleftrightarrow> list_all alert_fits ?events"
    using stall_monitor_fits [of scfg blocks] slot_monitor_fits [of push slcfg slots t] by (auto simp: list_all_iff)
  have zip: "map fst (zip (map snd h) answers) = map snd h" using assms(4) by simp
  have "list_all (\<lambda>x. \<forall>p. snd x \<noteq> Panic p) (zip (map snd h) answers)"
    using assms(5) by (auto simp: list_all_iff dest!: set_zip_rightD)
  from slack_posts_prefix [OF assms(1,2) this, of s version "[]"] obtain texts outcome where
    run: "map (format_alert L cfg) (takeWhile alert_fits (map snd h)) = map Ok texts"
      "for_prog (map Some (zip (map snd h) answers)) (slack_step L cfg s version) [] =
        (outcome, map (post_request_of s version) texts)"
      "outcome = Ok () \<longleftrightarrow> list_all alert_fits ?events"
    unfolding zip fits by auto
  have "map (format_alert L cfg) (?sent k) = map (\<lambda>x. Ok (snd x)) (filter (\<lambda>x. fst (fst x) = k) (zip h texts))"
    if "outcome = Ok ()" for k
  proof -
    have "takeWhile alert_fits (map snd h) = map snd h"
      using that run(3) fits by (simp add: takeWhile_eq_all_conv list_all_iff)
    with run(1) have "map (\<lambda>x. format_alert L cfg (snd x)) h = map Ok texts" by (simp add: o_def)
    from texts_of_task [OF this, of k] show ?thesis by (simp add: own)
  qed
  with run show ?thesis
    by (intro exI [of _ texts] exI [of _ outcome]) (simp add: slack_run_def then_prog_def bind_prog_def)
qed

lemma ex_stall_alerts:
  "stall_alerts (snd (watch_chain_stall_and_reorg ex_stall_cfg [Received (Ok (ex_msg None)), Elapsed] stall_init)) =
     [AlertChainStall \<lparr>cs_last_block = \<lparr>hn_number = 8, hn_hash = 80\<rparr>, cs_duration = from_secs 60\<rparr>]"
  by (simp add: watch_chain_stall_and_reorg_def then_prog_def bind_prog_def stall_init_def ex_msg_def on_blocks_def
      on_timeout_def ex_stall_cfg_def Let_def recovery_alerts_def reorg_alerts_def block_hn_def)

lemma ex_event_alerts:
  "snd (watch_events ex_parse ex_alert_client scale [] [] 3 [Ok \<lparr>bx_blocks = [ex_block], bx_maybe_reorg_data = None\<rparr>] []) =
     [AlertEvent EvSudo]"
  by (simp add: watch_events_def account_mapped_name_def build_balance_alert_map_def pow10_u128_def watch_message_def
      watch_block_def bind_prog_def then_prog_def block_alert_events_def ex_alert_client_def find_all_def find_events_def
      List.map_filter_simps check_low_balances_def ex_paid_def as_alert_events_def filter_known_account_transfers_def
      known_transfer_def balance_transfer_event_def withdraw_transfer_def)

theorem every_monitor_alert_posted_witness:
  "\<exists>texts. slack_run plain_format ex_format ex_slack ''1'' (Ok ())
       [Some (AlertEvent EvSudo, Err ''rate limited''), Some (AlertChainStall
         \<lparr>cs_last_block = \<lparr>hn_number = 8, hn_hash = 80\<rparr>, cs_duration = from_secs 60\<rparr>, Ok ())] [] =
     (Ok (), map (post_request_of ex_slack ''1'') texts) \<and> hd texts = ''**Sudo event triggered**''"
proof -
  let ?stall = "AlertChainStall \<lparr>cs_last_block = \<lparr>hn_number = 8, hn_hash = 80\<rparr>, cs_duration = from_secs 60\<rparr>"
  let ?h = "[(EventMonitor, AlertEvent EvSudo), (BlockMonitor, ?stall)]"
  let ?answers = "[Err ''rate limited'', Ok ()]"
  note alerts = ex_stall_alerts ex_event_alerts
  have slots: "sm_alerts (snd (monitor_slots sliding_push ex_slots_cfg [] (slots_init 0))) = []"
    by (simp add: monitor_slots_def slots_init_def)
  have "interleaves (sent_by (stall_alerts (snd (watch_chain_stall_and_reorg ex_stall_cfg
        [Received (Ok (ex_msg None)), Elapsed] stall_init)))
      (sm_alerts (snd (monitor_slots sliding_push ex_slots_cfg [] (slots_init 0))))
      (snd (watch_events ex_parse ex_alert_client scale [] [] 3 [Ok \<lparr>bx_blocks = [ex_block], bx_maybe_reorg_data = None\<rparr>] [])))
      UNIV ?h"
    unfolding interleaves_def alerts slots
  proof
    fix k
    show "map snd (filter (\<lambda>x. fst x = k) ?h) =
        (if k \<in> UNIV then sent_by [?stall] [] [AlertEvent EvSudo] k else [])"
      by (cases k) simp_all
  qed
  note h = this
  have "unat (fc_token_decimals ex_format) \<le> 28" "length ?answers = length ?h" "list_all (\<lambda>r. \<forall>p. r \<noteq> Panic p) ?answers"
    by (simp_all add: ex_format_def)
  from every_monitor_alert_posted [OF plain_format.format_library_axioms this(1) h this(2,3), of ex_slack "''1''"]
  obtain texts outcome where post:
    "slack_run plain_format ex_format ex_slack ''1'' (Ok ()) (map Some (zip (map snd ?h) ?answers)) [] =
      (outcome, map (post_request_of ex_slack ''1'') texts)"
    "map (format_alert plain_format ex_format) (takeWhile alert_fits (map snd ?h)) = map Ok texts"
    "outcome = Ok () \<longleftrightarrow> list_all alert_fits [AlertEvent EvSudo]"
    unfolding alerts slots by (elim exE conjE) (rule that)
  have "hd texts = ''**Sudo event triggered**''" using post(2) by (cases texts) auto
  with post(1,3) show ?thesis by (intro exI [of _ texts]) simp
qed

subsection \<open>From the listener to the index\<close>

text \<open>
  An example subscription: block 1 at height 0 and its child 2, which block 3 and its child 4
  replace.
\<close>

definition ex_start_node :: "(u32 \<Rightarrow> hash option) \<Rightarrow> node" where
  "ex_start_node canon = \<lparr>rpc_block_hash = (\<lambda>n. Ok (case n of None \<Rightarrow> None | Some m \<Rightarrow> canon m)),
     rpc_header = (\<lambda>k. Ok (if k = 1 then Some (ex_header 1 0 0) else if k = 2 then Some (ex_header 2 1 1)
       else if k = 3 then Some (ex_header 3 1 1) else if k = 4 then Some (ex_header 4 3 2) else None))\<rparr>"

definition ex_subscription :: "sub_item list" where
  "ex_subscription = [(ex_start_node [0 \<mapsto> 1], Ok (Listener_Correct.ex_block (ex_header 1 0 0))),
     (ex_start_node [0 \<mapsto> 1, 1 \<mapsto> 2], Ok (Listener_Correct.ex_block (ex_header 2 1 1))),
     (ex_start_node [0 \<mapsto> 1, 1 \<mapsto> 3, 2 \<mapsto> 4], Ok (Listener_Correct.ex_block (ex_header 4 3 2)))]"

lemma range_0_0: "range_incl 0 (0 :: u32) = [0]"
  by (simp add: range_incl_def)

lemma ex_broadcast:
  "map (map (\<lambda>b. (be_hash b, be_number b)) \<circ> bx_blocks) (snd (snd (listen_for_all_blocks ex_lib ex_route [Ok ex_subscription] (default_cache, [])))) = [[(2, 1)], [(3, 1), (4, 2)]]"
  by (simp add: ex_subscription_def load_header_metadata_cache_def load_from_def canonical_header_def add_headers_def range_0_0 bind_prog_def lift_result_def then_prog_def ret_def
      Listener_Correct.ex_block_def ex_start_node_def ex_lib_def ex_header_def
      listen_step_def add_header_def Let_def stored_header_def is_canonical_block_def
      recursive_tree_route.simps ex_route_def climb_route_def header_metadata_def cache_insert_def
      default_cache_def hn_of_def fetch_header_def enact_route_def get_block_ext_def
      get_header_def retracted_of_def reorg_of_def remove_header_until.simps saturating_sub_def
      CACHE_HEADER_DEPTH_def block_ext_of_def drop_number_def or_default_def cong: if_cong)

text \<open>
  C33: take any message the listener ever broadcasts and a processor that receives it. When no
  block, no checkpoint write and no read of the checkpoint fails, then whatever the order in
  which blocks are started, complete and are taken, the processor gets to receive again, and
  every block of the message has been indexed anew by then exactly if the message has at least
  two blocks or its block lies above the checkpoint. So extensions and reorganisations onto two
  or more blocks are indexed whole; a reorganisation that replaces the block at the checkpoint
  by a single block is not.
\<close>

theorem broadcast_blocks_indexed:
  assumes "m \<in> set (snd (snd (listen_for_all_blocks L TR subs (default_cache, []))))"
    and "0 < n" and "pr_phase p = Receiving" and "unat (last_processed p True) + 1 < 2 ^ 32"
  shows "(\<exists>cs p'. run_processor n (Got (Ok m) True # cs) p = Some p' \<and> list_all fault_free cs \<and> settled n p') \<and>
    (\<forall>cs p'. run_processor n (Got (Ok m) True # cs) p = Some p' \<and> list_all fault_free cs \<and> settled n p' \<longrightarrow>
      pr_phase p' = Receiving \<and>
      (be_number ` set (bx_blocks m) \<subseteq> set (drop (length (pr_completed p)) (pr_completed p')) \<longleftrightarrow>
        2 \<le> length (bx_blocks m) \<or> last_processed p True < be_number (hd (bx_blocks m))))"
proof -
  have "list_all msg_wf (snd (snd (listen_for_all_blocks L TR subs (default_cache, []))))"
    by (rule listen_for_all_blocks_wf) simp
  with assms(1) have ne: "bx_blocks m \<noteq> []" by (simp add: list_all_iff msg_wf_def)
  obtain fr till where range: "block_range (last_processed p True) (bx_blocks m) = Ok (fr, till)"
    and iff: "fr \<le> till \<longleftrightarrow> 2 \<le> length (bx_blocks m) \<or> last_processed p True < be_number (hd (bx_blocks m))"
    and cover: "fr \<le> till \<Longrightarrow> be_number ` set (bx_blocks m) \<subseteq> {fr..till}"
    using block_range_covers [OF ne assms(4)] by metis
  show ?thesis
  proof (cases "fr \<le> till")
    case True
    let ?q = "p\<lparr>pr_phase := Indexing till (range_incl fr till) []\<rparr>"
    have got: "proc_next n (Got (Ok m) True) p = Some ?q"
      using receive_range [OF assms(3) range] True by simp
    have ph: "pr_phase ?q = Indexing till (range_incl fr till) []" by simp
    note carried = carried_run [OF _ _ carried_start [OF ph], simplified]
    obtain p' where p': "run_processor n (one_by_one (length (range_incl fr till))) ?q = Some p'" "pr_phase p' = Receiving"
      using one_by_one_run [OF assms(2) ph] by blast
    with carried_settled [OF carried [OF p'(1) one_by_one_fault_free] assms(2)] have "settled n p'" by simp
    with p'(1) got one_by_one_fault_free have run: "\<exists>cs p'. run_processor n (Got (Ok m) True # cs) p = Some p' \<and>
        list_all fault_free cs \<and> settled n p'"
      by (intro exI [of _ "one_by_one (length (range_incl fr till))"] exI [of _ p']) simp
    have "pr_phase p'' = Receiving \<and> be_number ` set (bx_blocks m) \<subseteq> set (drop (length (pr_completed p)) (pr_completed p''))"
      if cs: "run_processor n cs ?q = Some p''" "list_all fault_free cs" and st: "settled n p''" for cs p''
    proof -
      from carried_settled [OF carried [OF cs] assms(2)] st have ph'': "pr_phase p'' = Receiving" by simp
      with carried [OF cs] obtain new where new: "pr_completed p'' = pr_completed p @ new" "mset new = mset (range_incl fr till)"
        by (auto simp: carried_def)
      from new(2) have "set new = {fr..till}" by (metis set_mset_mset set_range_incl)
      with new(1) cover [OF True] ph'' show ?thesis by simp
    qed
    with run got True iff show ?thesis by auto
  next
    case False
    then have got: "proc_next n (Got (Ok m) True) p = Some p"
      using receive_range [OF assms(3) range] by simp
    have "settled n p" using assms(3) by (auto simp: settled_def intro: internal_receiving fault_free_internal)
    with got have run: "\<exists>cs p'. run_processor n (Got (Ok m) True # cs) p = Some p' \<and> list_all fault_free cs \<and> settled n p'"
      by (intro exI [of _ "[]"] exI [of _ p]) simp
    have "pr_phase p' = Receiving \<and> \<not> be_number ` set (bx_blocks m) \<subseteq> set (drop (length (pr_completed p)) (pr_completed p'))"
      if cs: "run_processor n cs p = Some p'" "list_all fault_free cs" for cs p'
    proof -
      have "list_all internal cs" using cs(2) fault_free_internal by (auto simp: list_all_iff)
      from run_internal_receiving [OF assms(3) this cs(1)] ne assms(3) show ?thesis by simp
    qed
    with run got False iff show ?thesis by auto
  qed
qed

theorem broadcast_blocks_indexed_witness:
  "\<exists>m cs p'. m \<in> set (snd (snd (listen_for_all_blocks ex_lib ex_route [Ok ex_subscription] (default_cache, [])))) \<and>
     run_processor 1 (Got (Ok m) True # cs) \<lparr>pr_checkpoint = Some 1, pr_phase = Receiving, pr_completed = [1]\<rparr> = Some p' \<and>
     list_all fault_free cs \<and> settled 1 p' \<and> {1, 2} \<subseteq> set (drop 1 (pr_completed p'))"
proof -
  let ?p = "\<lparr>pr_checkpoint = Some 1, pr_phase = Receiving, pr_completed = [1 :: u32]\<rparr>"
  obtain m1 m where sent: "snd (snd (listen_for_all_blocks ex_lib ex_route [Ok ex_subscription] (default_cache, []))) = [m1, m]"
    and m: "map (\<lambda>b. (be_hash b, be_number b)) (bx_blocks m) = [(3, 1), (4, 2)]"
    using map_eq_pair [OF ex_broadcast] by (elim exE conjE) (simp only: o_apply)
  then have mem: "m \<in> set (snd (snd (listen_for_all_blocks ex_lib ex_route [Ok ex_subscription] (default_cache, []))))"
    by simp
  from arg_cong [OF m, of "map snd"] have nums: "map be_number (bx_blocks m) = [1, 2]" by (simp add: o_def)
  from arg_cong [OF nums, of length] have len: "2 \<le> length (bx_blocks m)" by simp
  from arg_cong [OF nums, of set] have set: "be_number ` set (bx_blocks m) = {1, 2}" by simp
  note indexed = broadcast_blocks_indexed [OF mem, of 1 ?p]
  obtain cs p' where run: "run_processor 1 (Got (Ok m) True # cs) ?p = Some p'" "list_all fault_free cs" "settled 1 p'"
    using indexed by (auto simp: last_processed_def)
  with indexed len have "{1, 2} \<subseteq> set (drop 1 (pr_completed p'))" by (fastforce simp: set last_processed_def)
  with mem run show ?thesis by blast
qed
text \<open>
  C5: no block is skipped although messages are missed: whatever the listener broadcasts, and
  however often the channel drops messages because the processor is slow, once the processor
  has received a message it can have indexed every block from 1 up to the last block of that
  message; it never stops at a lag.
\<close>

theorem lagging_processor_catches_up:
  assumes "delivers (snd (snd (listen_for_all_blocks L TR subs (default_cache, [])))) (rs @ [Ok m])" and "0 < n"
    and "\<forall>m \<in> set (snd (snd (listen_for_all_blocks L TR subs (default_cache, [])))). \<forall>b \<in> set (bx_blocks m). be_number b < - 1"
  shows "\<exists>cs p'. filter (\<lambda>c. \<not> internal c) cs = map (\<lambda>r. Got r True) (rs @ [Ok m]) \<and>
    run_processor n cs proc_init = Some p' \<and> pr_phase p' = Receiving \<and>
    (\<forall>b. 1 \<le> b \<and> b \<le> be_number (last (bx_blocks m)) \<longrightarrow> b \<in> set (pr_completed p'))"
proof -
  have "list_all msg_wf (snd (snd (listen_for_all_blocks L TR subs (default_cache, []))))"
    by (rule listen_for_all_blocks_wf) simp
  with assms(3) have "good_message x" if "x \<in> set (snd (snd (listen_for_all_blocks L TR subs (default_cache, []))))" for x
    using that by (auto simp: list_all_iff msg_wf_def good_message_def)
  with delivers_results [OF assms(1)] have
    good: "\<forall>r \<in> set rs. (\<exists>k. r = Err (Lagged k)) \<or> (\<exists>m. r = Ok m \<and> good_message m)" "good_message m" by fastforce+
  have "pr_phase proc_init = Receiving" "last_processed proc_init True < - 1"
    by (simp_all add: proc_init_def last_processed_def word_gt_0)
  from deliveries_run [OF assms(2) good(1) this] obtain cs p where cs: "filter (\<lambda>c. \<not> internal c) cs = map (\<lambda>r. Got r True) rs" "run_processor n cs proc_init = Some p"
    "pr_phase p = Receiving" "last_processed p True < - 1"
    by blast
  obtain ds p' where ds: "list_all internal ds" "run_processor n (Got (Ok m) True # ds) p = Some p'" "pr_phase p' = Receiving"
    "\<forall>b \<in> set (bx_blocks m). be_number b \<le> last_processed p' True"
    using message_step [OF assms(2) cs(3,4) good(2)] by blast
  have run: "run_processor n (cs @ Got (Ok m) True # ds) proc_init = Some p'"
    using cs(2) ds(2) by (simp add: run_processor_append)
  have "last (bx_blocks m) \<in> set (bx_blocks m)" using good(2) by (simp add: good_message_def)
  with ds(4) have "be_number (last (bx_blocks m)) \<le> last_processed p' True" by blast
  then have "\<forall>b. 1 \<le> b \<and> b \<le> be_number (last (bx_blocks m)) \<longrightarrow> b \<in> set (pr_completed p')"
    using reachable_done [OF reachable_run [OF reachable.init run]] by (meson order_trans)
  moreover have "filter (\<lambda>c. \<not> internal c) ds = []" using ds(1) by (simp add: list_all_iff filter_empty_conv)
  ultimately show ?thesis
    using cs(1) run ds(3) by (intro exI [of _ "cs @ Got (Ok m) True # ds"] exI [of _ p']) simp
qed

theorem lagging_processor_catches_up_witness:
  "\<exists>m cs p'. filter (\<lambda>c. \<not> internal c) cs = [Got (Err (Lagged 1)) True, Got (Ok m) True] \<and>
     run_processor 1 cs proc_init = Some p' \<and> {1, 2} \<subseteq> set (pr_completed p')"
proof -
  let ?sent = "snd (snd (listen_for_all_blocks ex_lib ex_route [Ok ex_subscription] (default_cache, [])))"
  obtain m1 m where sent: "?sent = [m1, m]" and m1: "map (\<lambda>b. (be_hash b, be_number b)) (bx_blocks m1) = [(2, 1)]"
    and m: "map (\<lambda>b. (be_hash b, be_number b)) (bx_blocks m) = [(3, 1), (4, 2)]"
    using map_eq_pair [OF ex_broadcast] by (elim exE conjE) (simp only: o_apply)
  have nums: "map be_number (bx_blocks m1) = [1]" "map be_number (bx_blocks m) = [1, 2]"
    using arg_cong [OF m1, of "map snd"] arg_cong [OF m, of "map snd"] by (simp_all add: o_def)
  have "list_all (\<lambda>n. n < - 1) (map be_number (bx_blocks m1) @ map be_number (bx_blocks m))"
    unfolding nums by (simp add: word_less_nat_alt unsigned_minus_1_eq_mask mask_eq_exp_minus_1)
  then have "\<forall>x \<in> set ?sent. \<forall>b \<in> set (bx_blocks x). be_number b < - 1"
    unfolding sent by (auto simp: list_all_iff)
  moreover have "delivers ?sent ([Err (Lagged 1)] @ [Ok m])"
    unfolding sent using delivers.lag [of 1 "[m1, m]" "[Ok m]"] by (simp add: delivers.message delivers.none)
  ultimately obtain cs p' where "filter (\<lambda>c. \<not> internal c) cs = map (\<lambda>r. Got r True) ([Err (Lagged 1)] @ [Ok m])"
    "run_processor 1 cs proc_init = Some p'"
    "\<forall>b. 1 \<le> b \<and> b \<le> be_number (last (bx_blocks m)) \<longrightarrow> b \<in> set (pr_completed p')"
    using lagging_processor_catches_up [of ex_lib ex_route "[Ok ex_subscription]" "[Err (Lagged 1)]" m 1] by auto
  moreover have "be_number (last (bx_blocks m)) = 2"
    using nums(2) by (metis last.simps last_map list.discI list.simps(8) map_is_Nil_conv)
  ultimately show ?thesis by (intro exI [of _ m] exI [of _ cs] exI [of _ p']) simp
qed

end
